(* ===== verification/Prelude.thy ===== *)
theory Prelude
  imports Main "HOL-Library.Sublist" "HOL-Library.State_Monad" "HOL-Library.Char_ord"
    "HOL-Library.List_Lexorder" "HOL-Library.Word"
begin

text \<open>
  Shared vocabulary of the development. The agent is a Go program: its errors are values of
  an \<open>error\<close> interface, its effects are calls of external commands, file operations,
  reads of the clock and waits. This theory holds
  \<^item> the error values (\<open>go_error\<close>) and what \<open>errors.As\<close> and \<open>Error()\<close> read from them;
  \<^item> the world: the trace of the effects so far, and the environment \<open>env\<close>, which answers
    each effect from the trace that precedes it. A theorem for all environments is a theorem
    for all answers of the operating system, in any order;
  \<^item> lemma collections and generic facts on lists, traces and stateful programs that the
    components share.
\<close>

named_theorems go_defs \<open>definitions unfolded by every proof of a component\<close>
named_theorems trace_simps \<open>how an operation extends the trace of effects\<close>
named_theorems inv_intros \<open>preservation of the components' invariants\<close>

section \<open>Errors as values\<close>

datatype go_error =
    PlainError string
  | FieldError string string
  | CLIError string string int
  | ActionError string string
  | ConflictError string
  | ContextDone
  | Throttled
  | PasswordSet
  | Wrapped string go_error

text \<open>\<open>errors.As(err, &ce)\<close> for \<open>*xvpn.CLIError\<close> and \<open>*config.FieldError\<close>: the first match
  along the chain of wrapped errors.\<close>

fun as_cli :: "go_error \<Rightarrow> (string \<times> string) option" where
  "as_cli (CLIError code msg exit) = Some (code, msg)"
| "as_cli (Wrapped m e) = as_cli e"
| "as_cli _ = None"

fun as_field :: "go_error \<Rightarrow> (string \<times> string) option" where
  "as_field (FieldError f m) = Some (f, m)"
| "as_field (Wrapped m e) = as_field e"
| "as_field _ = None"

text \<open>A fallible result: \<open>Inl\<close> the error, \<open>Inr\<close> the value.\<close>

type_synonym 'a res = "go_error + 'a"

section \<open>The world: effects and their answers\<close>

datatype event =
    Exec string "string list"
  | WriteFile string string
  | ReadFile string
  | CloseFile string
  | FsOp string "string list"
  | RemoveFile string
  | MkTemp
  | Clock
  | Sleep int
  | Dial string
  | PollDone
  | Stat string
  | Kill
  | IfAddrs string
  | Lookup string string
  | MarkedDial nat string string
  | MarkedLookup nat string string

text \<open>The addresses of an interface (\<open>net.IPNet\<close>): IPv4 with its prefix length, or any other.\<close>

datatype if_addr = IPv4Net "32 word" nat | OtherAddr

record run_result =
  rr_out :: string
  rr_exit :: int
  rr_err :: "string option"

record env =
  env_exec :: "event list \<Rightarrow> string \<Rightarrow> string list \<Rightarrow> run_result"
  env_write :: "event list \<Rightarrow> string \<Rightarrow> string \<Rightarrow> string option"
  env_close :: "event list \<Rightarrow> string \<Rightarrow> string option"
  env_fs :: "event list \<Rightarrow> string \<Rightarrow> string list \<Rightarrow> string option"
  env_read :: "event list \<Rightarrow> string \<Rightarrow> string + string"
  env_mktemp :: "event list \<Rightarrow> string + string"
  env_clock :: "event list \<Rightarrow> int"
  env_dial :: "event list \<Rightarrow> string \<Rightarrow> bool"
  env_done :: "event list \<Rightarrow> bool"
  env_flag :: "event list \<Rightarrow> string \<Rightarrow> bool"
  env_addrs :: "event list \<Rightarrow> string \<Rightarrow> string + if_addr list"
  env_lookup :: "event list \<Rightarrow> string \<Rightarrow> string \<Rightarrow> string + string list"
  env_mdial :: "event list \<Rightarrow> string \<Rightarrow> string \<Rightarrow> string + (8 word list \<times> nat)"
  env_mlookup :: "event list \<Rightarrow> string \<Rightarrow> string \<Rightarrow> string + 8 word list list"

text \<open>An environment in which every operation succeeds, for the concrete runs below.\<close>

definition ok_env :: env where
  "ok_env = \<lparr>env_exec = (\<lambda>_ _ _. \<lparr>rr_out = [], rr_exit = 0, rr_err = None\<rparr>),
     env_write = (\<lambda>_ _ _. None), env_close = (\<lambda>_ _. None), env_fs = (\<lambda>_ _ _. None),
     env_read = (\<lambda>_ _. Inr []), env_mktemp = (\<lambda>_. Inr ''/tmp/t''), env_clock = (\<lambda>h. int (length h)),
     env_dial = (\<lambda>_ _. True), env_done = (\<lambda>_. False), env_flag = (\<lambda>_ _. True),
     env_addrs = (\<lambda>_ _. Inr [IPv4Net 0xAC120005 16]), env_lookup = (\<lambda>_ _ _. Inr [''10.0.0.1'']),
     env_mdial = (\<lambda>_ _ _. Inr ([10, 0, 0, 2], 40000)), env_mlookup = (\<lambda>_ _ _. Inr [[93, 184, 216, 34]])\<rparr>"

record world =
  trace :: "event list"

abbreviation ret :: "'a \<Rightarrow> ('s, 'a) state" where
  "ret \<equiv> State_Monad.return"

abbreviation modify :: "('s \<Rightarrow> 's) \<Rightarrow> ('s, unit) state" where
  "modify \<equiv> State_Monad.update"

abbreviation getw :: "('s, 's) state" where
  "getw \<equiv> State_Monad.get"

text \<open>A loop over a list that collects the results.\<close>

fun for_each :: "('x \<Rightarrow> ('s, 'a) state) \<Rightarrow> 'x list \<Rightarrow> ('s, 'a list) state" where
  "for_each f [] = ret []"
| "for_each f (x # xs) = do { a \<leftarrow> f x; r \<leftarrow> for_each f xs; ret (a # r) }"

definition emit :: "event \<Rightarrow> ('z world_scheme, unit) state" where
  "emit e = modify (\<lambda>w. w\<lparr>trace := trace w @ [e]\<rparr>)"

definition do_exec :: "env \<Rightarrow> string \<Rightarrow> string list \<Rightarrow> ('z world_scheme, run_result) state" where
  "do_exec E name args = do {
     w \<leftarrow> getw;
     emit (Exec name args);
     ret (env_exec E (trace w) name args)
   }"

definition do_write :: "env \<Rightarrow> string \<Rightarrow> string \<Rightarrow> ('z world_scheme, string option) state" where
  "do_write E path content = do {
     w \<leftarrow> getw;
     emit (WriteFile path content);
     ret (env_write E (trace w) path content)
   }"

definition do_close :: "env \<Rightarrow> string \<Rightarrow> ('z world_scheme, string option) state" where
  "do_close E path = do {
     w \<leftarrow> getw;
     emit (CloseFile path);
     ret (env_close E (trace w) path)
   }"

text \<open>Operations of the file system that only succeed or fail: \<open>mkdir\<close>, \<open>chmod\<close>, \<open>sync\<close>,
  \<open>rename\<close>.\<close>

definition do_fs :: "env \<Rightarrow> string \<Rightarrow> string list \<Rightarrow> ('z world_scheme, string option) state" where
  "do_fs E op args = do {
     w \<leftarrow> getw;
     emit (FsOp op args);
     ret (env_fs E (trace w) op args)
   }"

definition do_read :: "env \<Rightarrow> string \<Rightarrow> ('z world_scheme, string + string) state" where
  "do_read E path = do {
     w \<leftarrow> getw;
     emit (ReadFile path);
     ret (env_read E (trace w) path)
   }"

definition do_mktemp :: "env \<Rightarrow> ('z world_scheme, string + string) state" where
  "do_mktemp E = do {
     w \<leftarrow> getw;
     emit MkTemp;
     ret (env_mktemp E (trace w))
   }"

definition do_remove :: "string \<Rightarrow> ('z world_scheme, unit) state" where
  "do_remove path = emit (RemoveFile path)"

definition do_clock :: "env \<Rightarrow> ('z world_scheme, int) state" where
  "do_clock E = do {
     w \<leftarrow> getw;
     emit Clock;
     ret (env_clock E (trace w))
   }"

definition do_dial :: "env \<Rightarrow> string \<Rightarrow> ('z world_scheme, bool) state" where
  "do_dial E addr = do {
     w \<leftarrow> getw;
     emit (Dial addr);
     ret (env_dial E (trace w) addr)
   }"

text \<open>A \<open>select\<close> between \<open>ctx.Done()\<close> and a timer: true if the context was chosen.\<close>

definition do_sleep :: "env \<Rightarrow> int \<Rightarrow> ('z world_scheme, bool) state" where
  "do_sleep E d = do {
     w \<leftarrow> getw;
     emit (Sleep d);
     ret (env_done E (trace w))
   }"

text \<open>A question to the process table or the file system answered yes or no.\<close>

definition do_flag :: "env \<Rightarrow> string \<Rightarrow> ('z world_scheme, bool) state" where
  "do_flag E what = do {
     w \<leftarrow> getw;
     emit (Stat what);
     ret (env_flag E (trace w) what)
   }"

definition do_addrs :: "env \<Rightarrow> string \<Rightarrow> ('z world_scheme, string + if_addr list) state" where
  "do_addrs E iface = do {
     w \<leftarrow> getw;
     emit (IfAddrs iface);
     ret (env_addrs E (trace w) iface)
   }"

definition do_lookup :: "env \<Rightarrow> string \<Rightarrow> string \<Rightarrow> ('z world_scheme, string + string list) state" where
  "do_lookup E server host = do {
     w \<leftarrow> getw;
     emit (Lookup server host);
     ret (env_lookup E (trace w) server host)
   }"

text \<open>A connection or a lookup over a socket that carries \<open>SO_MARK\<close>: the local address of the
  connection, the addresses of the name.\<close>

definition do_mdial :: "env \<Rightarrow> nat \<Rightarrow> string \<Rightarrow> string \<Rightarrow>
    ('z world_scheme, string + (8 word list \<times> nat)) state" where
  "do_mdial E mark net addr = do {
     w \<leftarrow> getw;
     emit (MarkedDial mark net addr);
     ret (env_mdial E (trace w) net addr)
   }"

definition do_mlookup :: "env \<Rightarrow> nat \<Rightarrow> string \<Rightarrow> string \<Rightarrow>
    ('z world_scheme, string + 8 word list list) state" where
  "do_mlookup E mark server host = do {
     w \<leftarrow> getw;
     emit (MarkedLookup mark server host);
     ret (env_mlookup E (trace w) server host)
   }"

text \<open>Whether the command of an effect started and exited with 0.\<close>

fun exec_took :: "env \<Rightarrow> event list \<Rightarrow> event \<Rightarrow> bool" where
  "exec_took E h (Exec name args) = (rr_err (env_exec E h name args) = None \<and> rr_exit (env_exec E h name args) = 0)"
| "exec_took E h _ = False"

text \<open>The early return on an error: the rest runs only after a success.\<close>

definition attempt :: "('s, 'a res) state \<Rightarrow> ('a \<Rightarrow> ('s, 'b res) state) \<Rightarrow> ('s, 'b res) state" where
  "attempt m f = do { r \<leftarrow> m; (case r of Inl e \<Rightarrow> ret (Inl e) | Inr a \<Rightarrow> f a) }"

lemma run_attempt:
  "run_state (attempt m f) w = (case run_state m w of
     (Inl e, v) \<Rightarrow> (Inl e, v) | (Inr a, v) \<Rightarrow> run_state (f a) v)"
  by (simp add: attempt_def split: prod.split sum.split)

lemma attempt_ok:
  "run_state (attempt m f) w = (Inr b, v) \<longleftrightarrow>
     (\<exists>a u. run_state m w = (Inr a, u) \<and> run_state (f a) u = (Inr b, v))"
  by (auto simp: run_attempt split: prod.splits sum.splits)

lemma run_modify [simp]: "run_state (modify f) s = ((), f s)"
  by (simp add: State_Monad.update_def)

lemma run_emit [simp]:
  "run_state (emit e) w = ((), w\<lparr>trace := trace w @ [e]\<rparr>)"
  by (simp add: emit_def)

lemma run_do_exec [simp]:
  "run_state (do_exec E n a) w =
     (env_exec E (trace w) n a, w\<lparr>trace := trace w @ [Exec n a]\<rparr>)"
  by (simp add: do_exec_def)

lemma run_do_write [simp]:
  "run_state (do_write E p c) w =
     (env_write E (trace w) p c, w\<lparr>trace := trace w @ [WriteFile p c]\<rparr>)"
  by (simp add: do_write_def)

lemma run_do_close [simp]:
  "run_state (do_close E p) w =
     (env_close E (trace w) p, w\<lparr>trace := trace w @ [CloseFile p]\<rparr>)"
  by (simp add: do_close_def)

lemma run_do_fs [simp]:
  "run_state (do_fs E n a) w =
     (env_fs E (trace w) n a, w\<lparr>trace := trace w @ [FsOp n a]\<rparr>)"
  by (simp add: do_fs_def)

lemma run_do_read [simp]:
  "run_state (do_read E p) w =
     (env_read E (trace w) p, w\<lparr>trace := trace w @ [ReadFile p]\<rparr>)"
  by (simp add: do_read_def)

lemma run_do_mktemp [simp]:
  "run_state (do_mktemp E) w = (env_mktemp E (trace w), w\<lparr>trace := trace w @ [MkTemp]\<rparr>)"
  by (simp add: do_mktemp_def)

lemma run_do_remove [simp]:
  "run_state (do_remove p) w = ((), w\<lparr>trace := trace w @ [RemoveFile p]\<rparr>)"
  by (simp add: do_remove_def)

lemma run_do_clock [simp]:
  "run_state (do_clock E) w = (env_clock E (trace w), w\<lparr>trace := trace w @ [Clock]\<rparr>)"
  by (simp add: do_clock_def)

lemma run_do_dial [simp]:
  "run_state (do_dial E a) w = (env_dial E (trace w) a, w\<lparr>trace := trace w @ [Dial a]\<rparr>)"
  by (simp add: do_dial_def)

lemma run_do_sleep [simp]:
  "run_state (do_sleep E d) w = (env_done E (trace w), w\<lparr>trace := trace w @ [Sleep d]\<rparr>)"
  by (simp add: do_sleep_def)

lemma run_do_flag [simp]:
  "run_state (do_flag E p) w = (env_flag E (trace w) p, w\<lparr>trace := trace w @ [Stat p]\<rparr>)"
  by (simp add: do_flag_def)

lemma run_do_addrs [simp]:
  "run_state (do_addrs E i) w = (env_addrs E (trace w) i, w\<lparr>trace := trace w @ [IfAddrs i]\<rparr>)"
  by (simp add: do_addrs_def)

lemma run_do_lookup [simp]:
  "run_state (do_lookup E s h) w =
     (env_lookup E (trace w) s h, w\<lparr>trace := trace w @ [Lookup s h]\<rparr>)"
  by (simp add: do_lookup_def)

lemma run_do_mdial [simp]:
  "run_state (do_mdial E m n a) w =
     (env_mdial E (trace w) n a, w\<lparr>trace := trace w @ [MarkedDial m n a]\<rparr>)"
  by (simp add: do_mdial_def)

lemma run_do_mlookup [simp]:
  "run_state (do_mlookup E m s h) w =
     (env_mlookup E (trace w) s h, w\<lparr>trace := trace w @ [MarkedLookup m s h]\<rparr>)"
  by (simp add: do_mlookup_def)

section \<open>Effectful operations as an interface\<close>

text \<open>
  Every stateful operation of the agent only adds effects to the trace: it cannot undo what
  it has done. The interface is stated once; what it gives (the earlier trace is a prefix,
  earlier effects stay) is proved inside it and used through the interpretations on the
  agent's operations.
\<close>

locale effectful =
  fixes op :: "('z world_scheme, 'a) state"
  assumes extends: "\<exists>es. trace (snd (run_state op w)) = trace w @ es"
begin

lemma prefix_trace: "prefix (trace w) (trace (snd (run_state op w)))"
  using extends [of w] by (auto simp: prefix_def)

lemma keeps_events: "e \<in> set (trace w) \<Longrightarrow> e \<in> set (trace (snd (run_state op w)))"
  using extends [of w] by auto

lemma longer_trace: "length (trace w) \<le> length (trace (snd (run_state op w)))"
  using extends [of w] by auto

lemma extendsE:
  assumes "run_state op w = (a, w')"
  obtains es where "trace w' = trace w @ es"
  using extends [of w] assms by auto

end

text \<open>The same for a program put together from smaller ones: \<open>extending\<close> only adds to the
  trace, \<open>only_effects\<close> changes nothing else.\<close>

named_theorems ext_intros \<open>composition rules for \<open>extending\<close> and \<open>only_effects\<close>\<close>

definition extending :: "('z world_scheme, 'a) state \<Rightarrow> bool" where
  "extending m \<longleftrightarrow> (\<forall>w. \<exists>es. trace (snd (run_state m w)) = trace w @ es)"

definition only_effects :: "('z world_scheme, 'a) state \<Rightarrow> bool" where
  "only_effects m \<longleftrightarrow> (\<forall>w. \<exists>es. snd (run_state m w) = w\<lparr>trace := trace w @ es\<rparr>)"

lemma effectful_extending: "extending m \<Longrightarrow> effectful m"
  by unfold_locales (simp add: extending_def)

lemma extending_bind [ext_intros]:
  assumes "extending m" and "\<And>x. extending (f x)"
  shows "extending (m \<bind> f)"
  unfolding extending_def
proof
  fix w
  obtain a v where m: "run_state m w = (a, v)" by (cases "run_state m w")
  with assms(1) obtain es where "trace v = trace w @ es"
    by (metis extending_def snd_conv)
  moreover from assms(2) [of a] obtain fs where "trace (snd (run_state (f a) v)) = trace v @ fs"
    by (auto simp: extending_def)
  ultimately show "\<exists>es. trace (snd (run_state (m \<bind> f) w)) = trace w @ es"
    by (simp add: m)
qed

lemma only_bind [ext_intros]:
  assumes "only_effects m" and "\<And>x. only_effects (f x)"
  shows "only_effects (m \<bind> f)"
  unfolding only_effects_def
proof
  fix w
  obtain a v where m: "run_state m w = (a, v)" by (cases "run_state m w")
  with assms(1) obtain es where "v = w\<lparr>trace := trace w @ es\<rparr>"
    by (metis only_effects_def snd_conv)
  moreover from assms(2) [of a] obtain fs where "snd (run_state (f a) v) = v\<lparr>trace := trace v @ fs\<rparr>"
    by (auto simp: only_effects_def)
  ultimately show "\<exists>es. snd (run_state (m \<bind> f) w) = w\<lparr>trace := trace w @ es\<rparr>"
    by (auto simp: m intro: exI [of _ "es @ fs"])
qed

lemma only_extending: "only_effects m \<Longrightarrow> extending m"
  unfolding extending_def only_effects_def
proof
  fix w
  assume "\<forall>w. \<exists>es. snd (run_state m w) = w\<lparr>trace := trace w @ es\<rparr>"
  then obtain es where "snd (run_state m w) = w\<lparr>trace := trace w @ es\<rparr>" by blast
  then show "\<exists>es. trace (snd (run_state m w)) = trace w @ es" by simp
qed

lemma extends_nothing: "\<exists>es. w = w\<lparr>trace := trace w @ es\<rparr>"
  by (rule exI [of _ "[]"]) simp

lemma only_basic [ext_intros]:
  "only_effects (ret x)" "only_effects getw" "only_effects (emit e)"
  "only_effects (do_exec E n as)" "only_effects (do_write E n c)" "only_effects (do_close E n)"
  "only_effects (do_fs E n as)" "only_effects (do_read E n)" "only_effects (do_mktemp E)"
  "only_effects (do_remove n)" "only_effects (do_clock E)" "only_effects (do_dial E n)"
  "only_effects (do_sleep E d)" "only_effects (do_flag E n)" "only_effects (do_addrs E n)"
  "only_effects (do_lookup E n m)" "only_effects (do_mdial E k n m)" "only_effects (do_mlookup E k n m)"
  unfolding only_effects_def by (auto intro: extends_nothing)

lemma extending_basic [ext_intros]:
  "extending (ret x)" "extending getw" "extending (emit e)"
  "extending (do_exec E n as)" "extending (do_write E n c)" "extending (do_close E n)"
  "extending (do_fs E n as)" "extending (do_read E n)" "extending (do_mktemp E)"
  "extending (do_remove n)" "extending (do_clock E)" "extending (do_dial E n)"
  "extending (do_sleep E d)" "extending (do_flag E n)" "extending (do_addrs E n)"
  "extending (do_lookup E n m)" "extending (do_mdial E k n m)" "extending (do_mlookup E k n m)"
  by (intro only_extending only_basic)+

lemma extending_modify [ext_intros]: "(\<And>w. trace (f w) = trace w) \<Longrightarrow> extending (modify f)"
  by (simp add: extending_def)

lemma only_modify_id: "only_effects (modify (\<lambda>w. w))"
  by (auto simp: only_effects_def intro: extends_nothing)

lemma ext_cases [ext_intros]:
  "extending a \<Longrightarrow> extending b \<Longrightarrow> extending (if c then a else b)"
  "extending a \<Longrightarrow> (\<And>x. extending (f x)) \<Longrightarrow> extending (case_option a f r)"
  "(\<And>x. extending (g x)) \<Longrightarrow> (\<And>x. extending (h x)) \<Longrightarrow> extending (case_sum g h s)"
  "(\<And>x y. extending (k x y)) \<Longrightarrow> extending (case_prod k p)"
  "extending a \<Longrightarrow> (\<And>x xs. extending (l x xs)) \<Longrightarrow> extending (case_list a l xs)"
  by (auto split: option.split sum.split prod.split list.split)

lemma only_cases [ext_intros]:
  "only_effects a \<Longrightarrow> only_effects b \<Longrightarrow> only_effects (if c then a else b)"
  "only_effects a \<Longrightarrow> (\<And>x. only_effects (f x)) \<Longrightarrow> only_effects (case_option a f r)"
  "(\<And>x. only_effects (g x)) \<Longrightarrow> (\<And>x. only_effects (h x)) \<Longrightarrow> only_effects (case_sum g h s)"
  "(\<And>x y. only_effects (k x y)) \<Longrightarrow> only_effects (case_prod k p)"
  "only_effects a \<Longrightarrow> (\<And>x xs. only_effects (l x xs)) \<Longrightarrow> only_effects (case_list a l xs)"
  by (auto split: option.split sum.split prod.split list.split)

lemma attempt_ext [ext_intros]:
  "extending m \<Longrightarrow> (\<And>x. extending (f x)) \<Longrightarrow> extending (attempt m f)"
  "only_effects m \<Longrightarrow> (\<And>x. only_effects (g x)) \<Longrightarrow> only_effects (attempt m g)"
  unfolding attempt_def by (intro ext_intros; simp)+

text \<open>\<open>emits P m\<close>: every effect that \<open>m\<close> adds satisfies \<open>P\<close>.\<close>

definition emits :: "(event \<Rightarrow> bool) \<Rightarrow> ('z world_scheme, 'a) state \<Rightarrow> bool" where
  "emits P m \<longleftrightarrow> (\<forall>w. \<exists>es. trace (snd (run_state m w)) = trace w @ es \<and> list_all P es)"

named_theorems emit_intros \<open>composition rules for \<open>emits\<close>\<close>

lemma emits_bind [emit_intros]:
  assumes "emits P m" and "\<And>x. emits P (f x)"
  shows "emits P (m \<bind> f)"
  unfolding emits_def
proof
  fix w
  obtain a v where m: "run_state m w = (a, v)" by (cases "run_state m w")
  with assms(1) obtain es where "trace v = trace w @ es" "list_all P es"
    by (metis emits_def snd_conv)
  moreover from assms(2) [of a] obtain fs
    where "trace (snd (run_state (f a) v)) = trace v @ fs" "list_all P fs"
    by (auto simp: emits_def)
  ultimately show "\<exists>es. trace (snd (run_state (m \<bind> f) w)) = trace w @ es \<and> list_all P es"
    by (auto simp: m intro!: exI [of _ "es @ fs"])
qed

lemma emits_basic [emit_intros]:
  "emits P (ret x)" "emits P getw" "P e \<Longrightarrow> emits P (emit e)"
  "P (ReadFile n) \<Longrightarrow> emits P (do_read E n)" "P (Exec n as) \<Longrightarrow> emits P (do_exec E n as)"
  "P (WriteFile n c) \<Longrightarrow> emits P (do_write E n c)" "P (CloseFile n) \<Longrightarrow> emits P (do_close E n)"
  "P (FsOp n as) \<Longrightarrow> emits P (do_fs E n as)" "P MkTemp \<Longrightarrow> emits P (do_mktemp E)"
  "P (RemoveFile n) \<Longrightarrow> emits P (do_remove n)" "P (Dial a) \<Longrightarrow> emits P (do_dial E a)"
  "P (Sleep d) \<Longrightarrow> emits P (do_sleep E d)" "P (Stat n) \<Longrightarrow> emits P (do_flag E n)"
  "P (IfAddrs n) \<Longrightarrow> emits P (do_addrs E n)" "P (Lookup s h) \<Longrightarrow> emits P (do_lookup E s h)"
  "P Clock \<Longrightarrow> emits P (do_clock E)"
  "P (MarkedDial k n a) \<Longrightarrow> emits P (do_mdial E k n a)"
  "P (MarkedLookup k s h) \<Longrightarrow> emits P (do_mlookup E k s h)"
  "(\<And>w. trace (f w) = trace w) \<Longrightarrow> emits P (modify f)"
  by (auto simp: emits_def)

lemma emits_cases [emit_intros]:
  "(c \<Longrightarrow> emits P a) \<Longrightarrow> (\<not> c \<Longrightarrow> emits P b) \<Longrightarrow> emits P (if c then a else b)"
  "emits P a \<Longrightarrow> (\<And>x. emits P (f x)) \<Longrightarrow> emits P (case_option a f r)"
  "(\<And>x. emits P (g x)) \<Longrightarrow> (\<And>x. emits P (h x)) \<Longrightarrow> emits P (case_sum g h s)"
  "(\<And>x y. emits P (k x y)) \<Longrightarrow> emits P (case_prod k p)"
  "emits P a \<Longrightarrow> (\<And>n. emits P (d n)) \<Longrightarrow> emits P (case_nat a d i)"
  by (auto split: option.split sum.split prod.split nat.split)

lemma emits_attempt [emit_intros]:
  "emits P m \<Longrightarrow> (\<And>x. emits P (f x)) \<Longrightarrow> emits P (attempt m f)"
  unfolding attempt_def by (intro emit_intros)

lemma emitsD:
  assumes "emits P m" and "run_state m w = (a, v)" and "trace v = trace w @ es"
  shows "list_all P es"
  using assms unfolding emits_def by (metis same_append_eq snd_conv)

text \<open>Frame conditions: \<open>keeps f m\<close> if \<open>m\<close> does not change the observation \<open>f\<close>.\<close>

named_theorems keep_intros \<open>composition rules for \<open>keeps\<close>\<close>

definition keeps :: "('s \<Rightarrow> 'o) \<Rightarrow> ('s, 'a) state \<Rightarrow> bool" where
  "keeps f m \<longleftrightarrow> (\<forall>w. f (snd (run_state m w)) = f w)"

lemma keepsD: "keeps f m \<Longrightarrow> run_state m w = (a, v) \<Longrightarrow> f v = f w"
  by (metis keeps_def snd_conv)

lemma keeps_bind [keep_intros]: "keeps f m \<Longrightarrow> (\<And>x. keeps f (g x)) \<Longrightarrow> keeps f (m \<bind> g)"
  by (simp add: keeps_def split: prod.split) (metis snd_conv)

lemma keeps_basic [keep_intros]: "keeps f (ret x)" "keeps f getw" "(\<And>w. f (g w) = f w) \<Longrightarrow> keeps f (modify g)"
  by (simp_all add: keeps_def)

lemma keeps_effects [keep_intros]:
  assumes "\<And>w es. f (w\<lparr>trace := es\<rparr>) = f w"
  shows "keeps f (emit e)" "keeps f (do_exec E n as)" "keeps f (do_write E n c)" "keeps f (do_close E n)"
    "keeps f (do_fs E n as)" "keeps f (do_read E n)" "keeps f (do_mktemp E)"
    "keeps f (do_remove n)" "keeps f (do_clock E)" "keeps f (do_dial E n)"
    "keeps f (do_sleep E d)" "keeps f (do_flag E n)" "keeps f (do_addrs E n)"
    "keeps f (do_lookup E n k)" "keeps f (do_mdial E i n k)" "keeps f (do_mlookup E i n k)"
  using assms by (simp_all add: keeps_def)

lemma keeps_only: "only_effects m \<Longrightarrow> (\<And>w es. f (w\<lparr>trace := es\<rparr>) = f w) \<Longrightarrow> keeps f m"
  by (auto simp: only_effects_def keeps_def) metis

lemma keeps_cases [keep_intros]:
  "(c \<Longrightarrow> keeps f a) \<Longrightarrow> (\<not> c \<Longrightarrow> keeps f b) \<Longrightarrow> keeps f (if c then a else b)"
  "keeps f a \<Longrightarrow> (\<And>x. keeps f (o1 x)) \<Longrightarrow> keeps f (case_option a o1 r)"
  "(\<And>x. keeps f (g x)) \<Longrightarrow> (\<And>x. keeps f (h x)) \<Longrightarrow> keeps f (case_sum g h s)"
  "(\<And>x y. keeps f (k x y)) \<Longrightarrow> keeps f (case_prod k p)"
  "keeps f a \<Longrightarrow> (\<And>n. keeps f (d n)) \<Longrightarrow> keeps f (case_nat a d i)"
  "keeps f a \<Longrightarrow> (\<And>x xs. keeps f (l x xs)) \<Longrightarrow> keeps f (case_list a l xs)"
  by (auto split: option.split sum.split prod.split nat.split list.split)

lemma keeps_attempt [keep_intros]: "keeps f m \<Longrightarrow> (\<And>x. keeps f (g x)) \<Longrightarrow> keeps f (attempt m g)"
  unfolding attempt_def by (intro keep_intros)

lemma only_run:
  assumes "only_effects m" and "run_state m w = (a, v)"
  obtains es where "v = w\<lparr>trace := trace w @ es\<rparr>"
  using assms by (metis only_effects_def snd_conv)

section \<open>Weakest preconditions\<close>

text \<open>\<open>wp m Q w\<close>: started in \<open>w\<close>, the program \<open>m\<close> ends with a result and a state that satisfy
  \<open>Q\<close>. The rules follow the structure of a program; a called operation is passed by a rule of
  its own, or, if it only has effects, by \<open>wp_only\<close>.\<close>

named_theorems wp_intros \<open>introduction rules for \<open>wp\<close>\<close>

definition wp :: "('s, 'a) state \<Rightarrow> ('a \<Rightarrow> 's \<Rightarrow> bool) \<Rightarrow> 's \<Rightarrow> bool" where
  "wp m Q w \<longleftrightarrow> (case run_state m w of (a, v) \<Rightarrow> Q a v)"

lemma wpD: "wp m Q w \<Longrightarrow> run_state m w = (a, v) \<Longrightarrow> Q a v"
  by (simp add: wp_def)

lemma wp_mono: "wp m P w \<Longrightarrow> (\<And>a v. P a v \<Longrightarrow> Q a v) \<Longrightarrow> wp m Q w"
  by (auto simp: wp_def)

lemma wp_bind [wp_intros]: "wp m (\<lambda>a v. wp (f a) Q v) w \<Longrightarrow> wp (m \<bind> f) Q w"
  by (auto simp: wp_def split: prod.splits)

lemma wp_return [wp_intros]: "Q a w \<Longrightarrow> wp (ret a) Q w"
  by (simp add: wp_def)

lemma wp_get [wp_intros]: "Q w w \<Longrightarrow> wp getw Q w"
  by (simp add: wp_def)

lemma wp_modify [wp_intros]: "Q () (f w) \<Longrightarrow> wp (modify f) Q w"
  by (simp add: wp_def)

lemma wp_cases [wp_intros]:
  "(c \<Longrightarrow> wp a Q w) \<Longrightarrow> (\<not> c \<Longrightarrow> wp b Q w) \<Longrightarrow> wp (if c then a else b) Q w"
  "(r = None \<Longrightarrow> wp a Q w) \<Longrightarrow> (\<And>x. r = Some x \<Longrightarrow> wp (f x) Q w) \<Longrightarrow> wp (case_option a f r) Q w"
  "(\<And>x. s = Inl x \<Longrightarrow> wp (g x) Q w) \<Longrightarrow> (\<And>x. s = Inr x \<Longrightarrow> wp (h x) Q w) \<Longrightarrow> wp (case_sum g h s) Q w"
  "(\<And>x y. p = (x, y) \<Longrightarrow> wp (k x y) Q w) \<Longrightarrow> wp (case_prod k p) Q w"
  by (auto split: option.split sum.split prod.split)

lemma wp_attempt [wp_intros]:
  "wp m (\<lambda>r v. case r of Inl e \<Rightarrow> Q (Inl e) v | Inr a \<Rightarrow> wp (f a) Q v) w \<Longrightarrow> wp (attempt m f) Q w"
  by (auto simp: wp_def run_attempt split: prod.splits sum.splits)

lemma wp_only:
  "only_effects m \<Longrightarrow> (\<And>a es. Q a (w\<lparr>trace := trace w @ es\<rparr>)) \<Longrightarrow> wp m Q w"
  unfolding only_effects_def wp_def by (metis case_prod_beta)

lemmas wp_effects [wp_intros] = only_basic(3-18) [THEN wp_only]

lemma wp_any: "(\<And>a v. Q a v) \<Longrightarrow> wp m Q w"
  by (simp add: wp_def split: prod.split)

text \<open>\<open>returns m\<close>: the fuel of the loops in \<open>m\<close> is enough, whatever the state.\<close>

named_theorems return_intros \<open>composition rules for \<open>returns\<close>\<close>

definition returns :: "('s, 'a option) state \<Rightarrow> bool" where
  "returns m \<longleftrightarrow> (\<forall>w. fst (run_state m w) \<noteq> None)"

lemma returns_bind [return_intros]: "(\<And>x. returns (f x)) \<Longrightarrow> returns (m \<bind> f)"
  by (simp add: returns_def split: prod.split)

lemma returns_some [return_intros]: "returns (ret (Some a))"
  by (simp add: returns_def)

lemma returns_first:
  assumes "returns m" and "\<And>x. returns (f (Some x))"
  shows "returns (m \<bind> f)"
  unfolding returns_def
proof
  fix w
  obtain r v where r: "run_state m w = (r, v)" by fastforce
  with assms(1) obtain x where "r = Some x" unfolding returns_def by (metis fst_conv not_None_eq)
  with assms(2) r show "fst (run_state (m \<bind> f) w) \<noteq> None" by (simp add: returns_def)
qed

lemma returns_cases [return_intros]:
  "returns a \<Longrightarrow> returns b \<Longrightarrow> returns (if c then a else b)"
  "returns a \<Longrightarrow> (\<And>x. returns (f x)) \<Longrightarrow> returns (case_option a f r)"
  "(\<And>x. returns (g x)) \<Longrightarrow> (\<And>x. returns (h x)) \<Longrightarrow> returns (case_sum g h s)"
  by (auto split: option.split sum.split)

section \<open>Time\<close>

text \<open>Durations are in nanoseconds, as in Go.\<close>

definition seconds :: "int \<Rightarrow> int" where
  "seconds n = n * 1000000000"

text \<open>A clock that runs: it never goes back, and a timer does not fire early.\<close>

definition ticking :: "env \<Rightarrow> bool" where
  "ticking E \<longleftrightarrow> (\<forall>h e. env_clock E h \<le> env_clock E (h @ [e])) \<and>
     (\<forall>h d. env_clock E h + d \<le> env_clock E (h @ [Sleep d]))"

lemma clock_mono: "ticking E \<Longrightarrow> env_clock E h \<le> env_clock E (h @ es)"
proof (induction es rule: rev_induct)
  case (snoc e es)
  then have "env_clock E (h @ es) \<le> env_clock E ((h @ es) @ [e])" by (simp only: ticking_def)
  with snoc show ?case by simp
qed simp

section \<open>Generic facts\<close>

lemma foldl_inv:
  assumes "P s" and "\<And>s x. P s \<Longrightarrow> x \<in> set xs \<Longrightarrow> P (f s x)"
  shows "P (foldl f s xs)"
  using assms by (induction xs arbitrary: s) auto

lemma for_each_inv:
  assumes "\<And>x w. P w \<Longrightarrow> P (snd (run_state (f x) w))" and "P w"
  shows "P (snd (run_state (for_each f xs) w))"
  using assms(2)
proof (induction xs arbitrary: w)
  case (Cons x xs)
  obtain a v where r: "run_state (f x) w = (a, v)" by fastforce
  obtain b u where s: "run_state (for_each f xs) v = (b, u)" by fastforce
  from assms(1) [OF Cons.prems, of x] Cons.IH [of v] show ?case
    by (simp add: r s)
qed simp

lemma takeWhile_eq_all: "\<forall>x \<in> set xs. P x \<Longrightarrow> takeWhile P xs = xs"
  by (induction xs) auto

lemma take_append_length [simp]: "take (length xs) (xs @ ys) = xs"
  by simp

lemma drop_append_length [simp]: "drop (length xs) (xs @ ys) = ys"
  by simp

lemma set_dropWhile_subset: "set (dropWhile P xs) \<subseteq> set xs"
  by (auto dest: set_dropWhileD)

lemma last_app_cons [simp]: "last (xs @ x # ys) = last (x # ys)"
  by (induction xs) auto

section \<open>What a program may change\<close>

text \<open>A relation between the states before and after a step, closed under doing nothing and doing two steps: a
  program made of such steps stays within it.\<close>

locale step_frame =
  fixes R :: "'s \<Rightarrow> 's \<Rightarrow> bool"
  assumes same: "R w w" and both: "R u v \<Longrightarrow> R v w \<Longrightarrow> R u w"
begin

definition within :: "('s, 'a) state \<Rightarrow> bool" where
  "within m \<longleftrightarrow> (\<forall>w. R w (snd (run_state m w)))"

lemma within_basic: "within (ret x)" "within getw"
  by (simp_all add: within_def same)

lemma within_bind:
  assumes "within m" and "\<And>x. within (f x)"
  shows "within (m \<bind> f)"
  using assms both unfolding within_def by (simp split: prod.split) (metis snd_conv)

lemma within_attempt: "within m \<Longrightarrow> (\<And>x. within (f x)) \<Longrightarrow> within (attempt m f)"
  unfolding attempt_def by (intro within_bind) (auto simp: within_basic split: sum.split)

lemma within_cases:
  "within a \<Longrightarrow> within b \<Longrightarrow> within (if c then a else b)"
  "within a \<Longrightarrow> (\<And>x. within (f x)) \<Longrightarrow> within (case_option a f r)"
  "(\<And>x. within (g x)) \<Longrightarrow> (\<And>x. within (h x)) \<Longrightarrow> within (case_sum g h s)"
  "(\<And>x y. within (k x y)) \<Longrightarrow> within (case_prod k p)"
  by (auto split: option.split sum.split prod.split)

lemmas within_intros = within_basic within_bind within_attempt within_cases

end

end
