(* ===== verification/Go_Strings.thy ===== *)
theory Go_Strings
  imports Prelude
begin

text \<open>
  What the agent uses of Go's \<open>strings\<close>, \<open>strconv\<close> and \<open>fmt\<close> packages. A Go string is its
  bytes, a \<open>string\<close> of HOL; \<open>TrimSpace\<close> and \<open>Fields\<close> cut at the ASCII white space (the
  two non-ASCII spaces that Go also cuts, U+0085 and U+00A0, do not occur in the command
  output and the files the agent reads).
\<close>

definition is_space :: "char \<Rightarrow> bool" where
  "is_space c \<longleftrightarrow> c \<in> {CHR 0x09, CHR 0x0A, CHR 0x0B, CHR 0x0C, CHR 0x0D, CHR '' ''}"

definition newline :: char where
  "newline = CHR 0x0A"

definition trim_left :: "string \<Rightarrow> string" where
  "trim_left s = dropWhile is_space s"

definition trim_right :: "string \<Rightarrow> string" where
  "trim_right s = rev (dropWhile is_space (rev s))"

definition trim_space :: "string \<Rightarrow> string" where
  "trim_space s = trim_right (trim_left s)"

fun split_on :: "char \<Rightarrow> string \<Rightarrow> string list" where
  "split_on c [] = [[]]"
| "split_on c (x # xs) =
     (if x = c then [] # split_on c xs
      else (case split_on c xs of [] \<Rightarrow> [[x]] | p # ps \<Rightarrow> (x # p) # ps))"

fun join_with :: "string \<Rightarrow> string list \<Rightarrow> string" where
  "join_with sep [] = []"
| "join_with sep [x] = x"
| "join_with sep (x # y # ys) = x @ sep @ join_with sep (y # ys)"

text \<open>\<open>strings.Fields\<close>: the accumulator holds the field being read.\<close>

fun fields_acc :: "string \<Rightarrow> string \<Rightarrow> string list" where
  "fields_acc acc [] = (if acc = [] then [] else [acc])"
| "fields_acc acc (x # xs) =
     (if is_space x then (if acc = [] then fields_acc [] xs else acc # fields_acc [] xs)
      else fields_acc (acc @ [x]) xs)"

definition str_fields :: "string \<Rightarrow> string list" where
  "str_fields s = fields_acc [] s"

definition cut_prefix :: "string \<Rightarrow> string \<Rightarrow> string option" where
  "cut_prefix p s = (if prefix p s then Some (drop (length p) s) else None)"

definition trim_prefix :: "string \<Rightarrow> string \<Rightarrow> string" where
  "trim_prefix p s = (case cut_prefix p s of Some r \<Rightarrow> r | None \<Rightarrow> s)"

definition trim_suffix :: "string \<Rightarrow> string \<Rightarrow> string" where
  "trim_suffix p s = (if suffix p s then take (length s - length p) s else s)"

fun contains :: "string \<Rightarrow> string \<Rightarrow> bool" where
  "contains sub [] = (sub = [])"
| "contains sub (x # xs) = (prefix sub (x # xs) \<or> contains sub xs)"

text \<open>\<open>strings.ReplaceAll\<close> for a non-empty \<open>old\<close>: left to right, without overlaps.\<close>

function replace_all :: "string \<Rightarrow> string \<Rightarrow> string \<Rightarrow> string" where
  "replace_all old new [] = []"
| "replace_all old new (x # xs) =
     (if old \<noteq> [] \<and> prefix old (x # xs)
      then new @ replace_all old new (drop (length old) (x # xs))
      else x # replace_all old new xs)"
  by pat_completeness auto
termination
  by (relation "measure (\<lambda>(old, new, s). length s)") (auto simp: neq_Nil_conv)

definition digit_char :: "nat \<Rightarrow> char" where
  "digit_char d = char_of (48 + d)"

function nat_digits :: "nat \<Rightarrow> string" where
  "nat_digits n = (if n < 10 then [digit_char n] else nat_digits (n div 10) @ [digit_char (n mod 10)])"
  by pat_completeness auto
termination
  by (relation "measure id") auto

declare nat_digits.simps [simp del]

text \<open>\<open>strconv.Itoa\<close> and the verb \<open>%d\<close>.\<close>

definition int_str :: "int \<Rightarrow> string" where
  "int_str i = (if i < 0 then CHR ''-'' # nat_digits (nat (- i)) else nat_digits (nat i))"

definition is_digit :: "char \<Rightarrow> bool" where
  "is_digit c \<longleftrightarrow> CHR ''0'' \<le> c \<and> c \<le> CHR ''9''"

definition digit_val :: "char \<Rightarrow> nat" where
  "digit_val c = of_char c - 48"

definition hex_digit :: "nat \<Rightarrow> char" where
  "hex_digit d = (if d < 10 then char_of (48 + d) else char_of (87 + d))"

definition nat_of_digits :: "string \<Rightarrow> nat" where
  "nat_of_digits s = foldl (\<lambda>n c. 10 * n + digit_val c) 0 s"

text \<open>\<open>strconv.Atoi\<close> and \<open>strconv.ParseInt(s, 10, 64)\<close>: an optional sign, digits, the
  64-bit range.\<close>

definition parse_int :: "string \<Rightarrow> int option" where
  "parse_int s =
     (let (neg, ds) = (case s of [] \<Rightarrow> (False, []) | c # cs \<Rightarrow>
           (if c = CHR ''-'' then (True, cs) else if c = CHR ''+'' then (False, cs) else (False, s)));
          v = (if neg then - int (nat_of_digits ds) else int (nat_of_digits ds))
      in if ds = [] \<or> \<not> list_all is_digit ds \<or> v < - (2 ^ 63) \<or> v \<ge> 2 ^ 63 then None else Some v)"

definition lower_char :: "char \<Rightarrow> char" where
  "lower_char c = (if CHR ''A'' \<le> c \<and> c \<le> CHR ''Z'' then char_of (of_char c + (32 :: nat)) else c)"

definition upper_char :: "char \<Rightarrow> char" where
  "upper_char c = (if CHR ''a'' \<le> c \<and> c \<le> CHR ''z'' then char_of (of_char c - (32 :: nat)) else c)"

definition equal_fold :: "string \<Rightarrow> string \<Rightarrow> bool" where
  "equal_fold s t \<longleftrightarrow> map lower_char s = map lower_char t"

text \<open>\<open>net.JoinHostPort\<close>: a host with a colon (IPv6) is put in brackets.\<close>

definition join_host_port :: "string \<Rightarrow> string \<Rightarrow> string" where
  "join_host_port host port =
     (if CHR '':'' \<in> set host then ''['' @ host @ '']:'' @ port else host @ '':'' @ port)"

section \<open>Facts\<close>

lemma is_space_newline [simp]: "is_space newline"
  by (simp add: is_space_def newline_def)

lemma split_on_nonempty [simp]: "split_on c s \<noteq> []"
  by (induction s) (auto split: list.splits)

lemma split_on_no_sep: "c \<notin> set s \<Longrightarrow> split_on c s = [s]"
  by (induction s) auto

lemma split_on_append:
  "c \<notin> set s \<Longrightarrow> split_on c (s @ c # t) = s # split_on c t"
  by (induction s) auto

lemma split_on_parts: "p \<in> set (split_on c s) \<Longrightarrow> c \<notin> set p"
  by (induction s arbitrary: p) (auto split: list.splits if_splits)

lemma join_split_on: "join_with [c] (split_on c s) = s"
proof (induction s)
  case Nil
  then show ?case by simp
next
  case (Cons x xs)
  obtain p ps where ps: "split_on c xs = p # ps"
    using split_on_nonempty by (meson neq_Nil_conv)
  with Cons show ?case
    by (cases ps) auto
qed

lemma length_split_on: "length (split_on c s) = Suc (count_list s c)"
  by (induction s) (auto split: list.splits)

lemma trim_right_id: "s = [] \<or> \<not> is_space (last s) \<Longrightarrow> trim_right s = s"
  by (cases s rule: rev_cases) (auto simp: trim_right_def)

lemma trim_left_id: "s = [] \<or> \<not> is_space (hd s) \<Longrightarrow> trim_left s = s"
  by (cases s) (auto simp: trim_left_def)

lemma trim_space_id:
  "s = [] \<or> (\<not> is_space (hd s) \<and> \<not> is_space (last s)) \<Longrightarrow> trim_space s = s"
  unfolding trim_space_def using trim_left_id [of s] trim_right_id [of s] by auto

lemma trim_space_no_space: "\<forall>c \<in> set s. \<not> is_space c \<Longrightarrow> trim_space s = s"
  by (rule trim_space_id) (use hd_in_set last_in_set in blast)

lemma last_trim_right: "trim_right s \<noteq> [] \<Longrightarrow> \<not> is_space (last (trim_right s))"
  by (metis hd_dropWhile last_rev rev.simps(1) rev_rev_ident trim_right_def)

lemma hd_trim_left: "trim_left s \<noteq> [] \<Longrightarrow> \<not> is_space (hd (trim_left s))"
  by (simp add: trim_left_def hd_dropWhile)

lemma trim_right_prefix: "prefix (trim_right s) s"
proof -
  have "suffix (dropWhile is_space (rev s)) (rev s)"
    by (rule suffix_dropWhile)
  then show ?thesis
    by (simp add: trim_right_def suffix_to_prefix)
qed

lemma hd_trim_space: "trim_space s \<noteq> [] \<Longrightarrow> \<not> is_space (hd (trim_space s))"
  unfolding trim_space_def
  by (metis hd_trim_left prefix_Nil prefix_order.dual_order.eq_iff trim_right_prefix
      prefix_def hd_append2)

lemma trim_space_idem [simp]: "trim_space (trim_space s) = trim_space s"
proof (cases "trim_space s = []")
  case True
  then show ?thesis by simp (simp add: trim_space_def trim_left_def trim_right_def)
next
  case False
  have "\<not> is_space (hd (trim_space s))"
    by (rule hd_trim_space [OF False])
  moreover have "\<not> is_space (last (trim_space s))"
    using last_trim_right False by (simp add: trim_space_def)
  ultimately show ?thesis
    by (intro trim_space_id) simp
qed

lemma trim_space_append_newline [simp]: "trim_space (s @ [newline]) = trim_space s"
proof (cases "\<forall>c \<in> set s. is_space c")
  case True
  then have A: "dropWhile is_space s = []" "dropWhile is_space (s @ [newline]) = []"
    by (simp_all add: dropWhile_eq_Nil_conv)
  show ?thesis
    unfolding trim_space_def trim_left_def A ..
next
  case False
  then obtain c where "c \<in> set s" "\<not> is_space c" by blast
  then have "dropWhile is_space (s @ [newline]) = dropWhile is_space s @ [newline]"
    by (simp add: dropWhile_append1)
  then show ?thesis by (simp add: trim_space_def trim_left_def trim_right_def)
qed

lemma contains_iff: "contains sub s \<longleftrightarrow> (\<exists>u v. s = u @ sub @ v)"
proof (induction s)
  case Nil
  then show ?case by simp
next
  case (Cons x xs)
  show ?case
  proof
    assume "contains sub (x # xs)"
    then consider "prefix sub (x # xs)" | "contains sub xs" by auto
    then show "\<exists>u v. x # xs = u @ sub @ v"
    proof cases
      case 1
      then show ?thesis by (metis append_Nil prefix_def)
    next
      case 2
      with Cons.IH show ?thesis by (metis append_Cons)
    qed
  next
    assume "\<exists>u v. x # xs = u @ sub @ v"
    then obtain u v where uv: "x # xs = u @ sub @ v" by blast
    show "contains sub (x # xs)"
    proof (cases u)
      case Nil
      with uv have "prefix sub (x # xs)" by (metis append_Nil prefix_def)
      then show ?thesis by simp
    next
      case (Cons a u')
      with uv have "xs = u' @ sub @ v" by simp
      with Cons.IH show ?thesis by auto
    qed
  qed
qed

lemma cut_prefix_Some [simp]: "cut_prefix p (p @ s) = Some s"
  by (simp add: cut_prefix_def)

lemma nat_digits_nonempty [simp]: "nat_digits n \<noteq> []"
  by (subst nat_digits.simps) simp

lemma of_char_digit [simp]: "d < 10 \<Longrightarrow> of_char (digit_char d) = (48 + d :: nat)"
  by (simp add: digit_char_def)

lemma digit_val_digit_char [simp]: "d < 10 \<Longrightarrow> digit_val (digit_char d) = d"
  by (simp add: digit_val_def)

lemma is_digit_digit_char [simp]: "d < 10 \<Longrightarrow> is_digit (digit_char d)"
  by (simp add: is_digit_def less_eq_char_def)

lemma nat_digits_are_digits: "c \<in> set (nat_digits n) \<Longrightarrow> is_digit c"
proof (induction n arbitrary: c rule: nat_digits.induct)
  case (1 n)
  show ?case
  proof (cases "n < 10")
    case True
    with "1.prems" show ?thesis by (subst (asm) nat_digits.simps) simp
  next
    case False
    with "1" show ?thesis
      by (subst (asm) (2) nat_digits.simps) auto
  qed
qed

lemma nat_of_digits_nat_digits [simp]: "nat_of_digits (nat_digits n) = n"
proof (induction n rule: nat_digits.induct)
  case (1 n)
  show ?case
  proof (cases "n < 10")
    case True
    then show ?thesis by (subst nat_digits.simps) (simp add: nat_of_digits_def)
  next
    case False
    have "nat_of_digits (nat_digits n) = 10 * nat_of_digits (nat_digits (n div 10)) + n mod 10"
      using False by (subst nat_digits.simps) (simp add: nat_of_digits_def)
    with False 1 show ?thesis by simp
  qed
qed

lemma nat_digits_inj: "nat_digits m = nat_digits n \<Longrightarrow> m = n"
  by (metis nat_of_digits_nat_digits)

lemma parse_int_nat_digits:
  assumes "int n < 2 ^ 63"
  shows "parse_int (nat_digits n) = Some (int n)"
proof -
  obtain c cs where c: "nat_digits n = c # cs" by (meson neq_Nil_conv nat_digits_nonempty)
  then have d: "is_digit c" using nat_digits_are_digits [of c n] by simp
  then have "c \<noteq> CHR ''-''" "c \<noteq> CHR ''+''"
    by (auto simp: is_digit_def less_eq_char_def)
  moreover have "list_all is_digit (nat_digits n)"
    using nat_digits_are_digits by (simp add: list_all_iff)
  moreover have "nat_of_digits (c # cs) = n"
    using nat_of_digits_nat_digits [of n] c by simp
  ultimately show ?thesis
    using assms unfolding parse_int_def Let_def c by simp
qed

end
