(* ===== verification/State_Store.thy ===== *)
theory State_Store
  imports Go_Strings
begin

text \<open>
  The agent's state snapshot (\<open>internal/state/state.go\<close>) and the store that distributes it
  (\<open>internal/state/store.go\<close>): records for the structs, datatypes for the string enums,
  \<open>Update\<close> and \<open>Subscribe\<close> on channels of capacity one. \<open>Update\<close> is given twice: as the
  sequential operation, and split into the two parts the code really has (the change under
  the lock, the sends after it), as a step relation in which the updates of several
  goroutines interleave.
\<close>

section \<open>The snapshot\<close>

datatype connection =
    ConnDisconnected | ConnConnecting | ConnConnected | ConnReconnecting | ConnError

datatype auth_state = AuthLoggedIn | AuthLoggedOut

datatype uplink_status = UplinkUnknown | UplinkUp | UplinkDown | UplinkDegraded

datatype tristate = TriUnknown | TriTrue | TriFalse

datatype desired_connection = DesiredConnected | DesiredDisconnected

record container_st =
  c_version :: string
  c_startedAt :: int
  c_socksPort :: string
  c_httpPort :: string
  c_bindAddr :: string

record protocol_st =
  pr_requested :: string
  pr_effective :: string
  pr_reason :: string

record expressvpn_st =
  x_auth :: auth_state
  x_connection :: connection
  x_location :: string
  x_protocol :: protocol_st
  x_publicIP :: string
  x_connectedAt :: "int option"

record uplink_st =
  u_mode :: string
  u_status :: uplink_status
  u_udpSupported :: tristate
  u_endpoint :: string
  u_reason :: string

record proxy_st =
  px_listen :: string
  px_status :: string
  px_activeConns :: "64 word"
  px_bytesIn :: "64 word"
  px_bytesOut :: "64 word"

record killswitch_st =
  k_active :: bool
  k_dropped :: "64 word"

record selfcheck_st =
  sc_verdict :: string
  sc_reasons :: "string list"
  sc_proxyIP :: string
  sc_proxyCountry :: string
  sc_uplinkIP :: string
  sc_dns :: "string list"
  sc_at :: int

record error_st =
  er_code :: string
  er_message :: string
  er_at :: int

record snapshot =
  s_container :: container_st
  s_expressvpn :: expressvpn_st
  s_uplink :: uplink_st
  s_proxy :: proxy_st
  s_killswitch :: killswitch_st
  s_selfcheck :: "selfcheck_st option"
  s_lastError :: "error_st option"
  s_desired :: desired_connection

definition initial_state :: "string \<Rightarrow> int \<Rightarrow> snapshot" where
  "initial_state version now =
     \<lparr>s_container = \<lparr>c_version = version, c_startedAt = now, c_socksPort = [], c_httpPort = [],
        c_bindAddr = []\<rparr>,
      s_expressvpn = \<lparr>x_auth = AuthLoggedOut, x_connection = ConnDisconnected, x_location = [],
        x_protocol = \<lparr>pr_requested = ''auto'', pr_effective = [], pr_reason = []\<rparr>,
        x_publicIP = [], x_connectedAt = None\<rparr>,
      s_uplink = \<lparr>u_mode = ''host'', u_status = UplinkUnknown, u_udpSupported = TriUnknown,
        u_endpoint = [], u_reason = []\<rparr>,
      s_proxy = \<lparr>px_listen = [], px_status = ''stopped'', px_activeConns = 0, px_bytesIn = 0,
        px_bytesOut = 0\<rparr>,
      s_killswitch = \<lparr>k_active = False, k_dropped = 0\<rparr>,
      s_selfcheck = None, s_lastError = None, s_desired = DesiredDisconnected\<rparr>"

text \<open>The assignments to nested fields that the callers of \<open>Update\<close> make.\<close>

abbreviation conn_of :: "snapshot \<Rightarrow> connection" where
  "conn_of s \<equiv> x_connection (s_expressvpn s)"

definition set_conn :: "connection \<Rightarrow> snapshot \<Rightarrow> snapshot" where
  "set_conn c s = s\<lparr>s_expressvpn := (s_expressvpn s)\<lparr>x_connection := c\<rparr>\<rparr>"

definition set_desired :: "desired_connection \<Rightarrow> snapshot \<Rightarrow> snapshot" where
  "set_desired d s = s\<lparr>s_desired := d\<rparr>"

definition set_ks_active :: "bool \<Rightarrow> snapshot \<Rightarrow> snapshot" where
  "set_ks_active b s = s\<lparr>s_killswitch := (s_killswitch s)\<lparr>k_active := b\<rparr>\<rparr>"

definition set_last_error :: "error_st option \<Rightarrow> snapshot \<Rightarrow> snapshot" where
  "set_last_error e s = s\<lparr>s_lastError := e\<rparr>"

definition set_udp :: "tristate \<Rightarrow> snapshot \<Rightarrow> snapshot" where
  "set_udp v s = s\<lparr>s_uplink := (s_uplink s)\<lparr>u_udpSupported := v\<rparr>\<rparr>"

definition set_auth :: "auth_state \<Rightarrow> snapshot \<Rightarrow> snapshot" where
  "set_auth a s = s\<lparr>s_expressvpn := (s_expressvpn s)\<lparr>x_auth := a\<rparr>\<rparr>"

lemmas snapshot_defs [simp] =
  set_conn_def set_desired_def set_ks_active_def set_last_error_def set_udp_def set_auth_def

section \<open>Channels with a bounded buffer\<close>

text \<open>
  The agent's publishers never block: they offer a value to a buffered channel and, when it
  is full, drop either the new value or the old one. What the subscribers rely on is the
  same for both policies.
\<close>

locale bounded_channel =
  fixes offer :: "'a \<Rightarrow> 'a list \<Rightarrow> 'a list" and cap :: nat
  assumes offer_bound: "length b \<le> cap \<Longrightarrow> length (offer x b) \<le> cap"
    and offer_from: "set (offer x b) \<subseteq> insert x (set b)"
begin

lemma offers_bound: "length b \<le> cap \<Longrightarrow> length (fold offer xs b) \<le> cap"
  by (induction xs arbitrary: b) (auto intro: offer_bound)

lemma offers_from: "set (fold offer xs b) \<subseteq> set xs \<union> set b"
proof (induction xs arbitrary: b)
  case Nil
  then show ?case by simp
next
  case (Cons x xs)
  from Cons [of "offer x b"] offer_from [of x b] show ?case by auto
qed

end

text \<open>A conflating channel keeps the newest value.\<close>

locale conflating_channel = bounded_channel +
  assumes offer_last: "length b \<le> cap \<Longrightarrow> offer x b \<noteq> [] \<and> last (offer x b) = x"
begin

lemma offers_last:
  assumes "length b \<le> cap" and "xs \<noteq> []"
  shows "fold offer xs b \<noteq> [] \<and> last (fold offer xs b) = last xs"
proof -
  obtain ys y where xs: "xs = ys @ [y]"
    using assms(2) by (metis rev_exhaust)
  have "length (fold offer ys b) \<le> cap"
    using assms(1) by (rule offers_bound)
  then show ?thesis
    using offer_last [of "fold offer ys b" y] by (simp add: xs)
qed

end

text \<open>The three \<open>select\<close> statements of \<open>Store.Update\<close> on one channel of capacity 1: send; if
  the buffer is full, take the old snapshot out and send again.\<close>

definition chan_send :: "nat \<Rightarrow> 'a \<Rightarrow> 'a list \<Rightarrow> 'a list option" where
  "chan_send cap x b = (if length b < cap then Some (b @ [x]) else None)"

definition offer_snapshot :: "'a \<Rightarrow> 'a list \<Rightarrow> 'a list" where
  "offer_snapshot x b =
     (case chan_send 1 x b of
        Some b' \<Rightarrow> b'
      | None \<Rightarrow> (let b1 = (case b of [] \<Rightarrow> [] | _ # r \<Rightarrow> r)
                in (case chan_send 1 x b1 of Some b' \<Rightarrow> b' | None \<Rightarrow> b1)))"

lemma offer_snapshot_simps [simp]:
  "offer_snapshot x [] = [x]"
  "offer_snapshot x [y] = [x]"
  by (simp_all add: offer_snapshot_def chan_send_def)

lemma offer_snapshot_cap: "length b \<le> 1 \<Longrightarrow> offer_snapshot x b = [x]"
  by (cases b) auto

interpretation snap: conflating_channel offer_snapshot 1
proof
  fix b :: "'a list" and x
  show "length b \<le> 1 \<Longrightarrow> length (offer_snapshot x b) \<le> 1"
    by (simp add: offer_snapshot_cap)
  show "set (offer_snapshot x b) \<subseteq> insert x (set b)"
    by (cases b) (auto simp: offer_snapshot_def chan_send_def split: list.splits)
  show "length b \<le> 1 \<Longrightarrow> offer_snapshot x b \<noteq> [] \<and> last (offer_snapshot x b) = x"
    by (simp add: offer_snapshot_cap)
qed

section \<open>The store, sequentially\<close>

text \<open>Channels are numbered in the order of their creation; a cancelled subscription keeps
  its buffer, which the store no longer writes.\<close>

record 'a store =
  cur :: 'a
  subs :: "nat list"
  bufs :: "nat \<Rightarrow> 'a list"
  next_chan :: nat

definition new_store :: "'a \<Rightarrow> 'a store" where
  "new_store i = \<lparr>cur = i, subs = [], bufs = (\<lambda>_. []), next_chan = 0\<rparr>"

definition store_get :: "'a store \<Rightarrow> 'a" where
  "store_get s = cur s"

definition notify :: "'a \<Rightarrow> nat \<Rightarrow> 'a store \<Rightarrow> 'a store" where
  "notify x ch s = s\<lparr>bufs := (bufs s)(ch := offer_snapshot x (bufs s ch))\<rparr>"

definition update :: "('a \<Rightarrow> 'a) \<Rightarrow> 'a store \<Rightarrow> 'a store" where
  "update f s =
     (let c = f (cur s); s1 = s\<lparr>cur := c\<rparr>
      in fold (notify c) (subs s) s1)"

definition subscribe :: "'a store \<Rightarrow> nat \<times> 'a store" where
  "subscribe s =
     (next_chan s,
      s\<lparr>subs := subs s @ [next_chan s], bufs := (bufs s)(next_chan s := [cur s]),
        next_chan := Suc (next_chan s)\<rparr>)"

definition cancel :: "nat \<Rightarrow> 'a store \<Rightarrow> 'a store" where
  "cancel ch s = s\<lparr>subs := filter (\<lambda>c. c \<noteq> ch) (subs s)\<rparr>"

definition receive :: "nat \<Rightarrow> 'a store \<Rightarrow> 'a option \<times> 'a store" where
  "receive ch s =
     (case bufs s ch of
        [] \<Rightarrow> (None, s)
      | x # r \<Rightarrow> (Some x, s\<lparr>bufs := (bufs s)(ch := r)\<rparr>))"

lemma fold_notify:
  "cur (fold (notify c) chs s) = cur s"
  "subs (fold (notify c) chs s) = subs s"
  "next_chan (fold (notify c) chs s) = next_chan s"
  "ch \<notin> set chs \<Longrightarrow> bufs (fold (notify c) chs s) ch = bufs s ch"
  by (induction chs arbitrary: s) (auto simp: notify_def)

lemma bufs_fold_notify:
  assumes "distinct chs" and "ch \<in> set chs"
  shows "bufs (fold (notify c) chs s) ch = offer_snapshot c (bufs s ch)"
  using assms by (induction chs arbitrary: s) (auto simp: notify_def fold_notify)

text \<open>The invariant of the store: subscriptions are distinct, buffers hold at most one
  snapshot, and what a subscriber has not read yet is the current snapshot.\<close>

definition store_inv :: "'a store \<Rightarrow> bool" where
  "store_inv s \<longleftrightarrow>
     distinct (subs s) \<and> (\<forall>ch \<in> set (subs s). ch < next_chan s \<and> (bufs s ch = [] \<or> bufs s ch = [cur s]))"

lemma store_inv_new [inv_intros]: "store_inv (new_store i)"
  by (simp add: store_inv_def new_store_def)

lemma bufs_update:
  assumes "store_inv s" and "ch \<in> set (subs s)"
  shows "bufs (update f s) ch = [f (cur s)]"
proof -
  have "length (bufs s ch) \<le> 1"
    using assms by (auto simp: store_inv_def)
  then show ?thesis
    using assms by (simp add: update_def Let_def bufs_fold_notify offer_snapshot_cap store_inv_def)
qed

lemma update_fields [simp]:
  "cur (update f s) = f (cur s)" "subs (update f s) = subs s" "next_chan (update f s) = next_chan s"
  by (simp_all add: update_def Let_def fold_notify)

lemma store_inv_update [inv_intros]: "store_inv s \<Longrightarrow> store_inv (update f s)"
  unfolding store_inv_def [of "update f s"]
  by (auto simp: bufs_update) (auto simp: store_inv_def)

lemma store_inv_subscribe [inv_intros]: "store_inv s \<Longrightarrow> store_inv (snd (subscribe s))"
  by (auto simp: store_inv_def subscribe_def)

lemma store_inv_cancel [inv_intros]: "store_inv s \<Longrightarrow> store_inv (cancel ch s)"
  by (auto simp: store_inv_def cancel_def)

lemma store_inv_receive [inv_intros]: "store_inv s \<Longrightarrow> store_inv (snd (receive ch s))"
  by (auto simp: store_inv_def receive_def split: list.splits)

datatype 'a store_op = Update "'a \<Rightarrow> 'a" | Subscribe | Cancel nat | Receive nat

fun store_run :: "'a store_op \<Rightarrow> 'a store \<Rightarrow> 'a store" where
  "store_run (Update f) s = update f s"
| "store_run Subscribe s = snd (subscribe s)"
| "store_run (Cancel ch) s = cancel ch s"
| "store_run (Receive ch) s = snd (receive ch s)"

lemma store_inv_run: "store_inv s \<Longrightarrow> store_inv (fold store_run ops s)"
proof (induction ops arbitrary: s)
  case Nil
  then show ?case by simp
next
  case (Cons op ops)
  from Cons.prems have "store_inv (store_run op s)"
    by (cases op) (auto intro: inv_intros)
  then show ?case using Cons.IH by simp
qed

text \<open>The world of the components that share the state store, and their calls of it.\<close>

record st_world = world +
  w_st :: "snapshot store"

definition st_get :: "('z st_world_scheme, snapshot) state" where
  "st_get = do { w \<leftarrow> getw; ret (store_get (w_st w)) }"

definition st_update :: "(snapshot \<Rightarrow> snapshot) \<Rightarrow> ('z st_world_scheme, unit) state" where
  "st_update f = modify (\<lambda>w. w\<lparr>w_st := update f (w_st w)\<rparr>)"

abbreviation snap_of :: "'z st_world_scheme \<Rightarrow> snapshot" where
  "snap_of w \<equiv> store_get (w_st w)"

lemma store_get_update [simp]: "store_get (update f s) = f (store_get s)"
  by (simp add: store_get_def)

lemma run_st_get [simp]: "run_state st_get w = (snap_of w, w)"
  by (simp add: st_get_def)

lemma run_st_update [simp]: "run_state (st_update f) w = ((), w\<lparr>w_st := update f (w_st w)\<rparr>)"
  by (simp add: st_update_def)

lemma wp_st_get [wp_intros]: "Q (snap_of w) w \<Longrightarrow> wp st_get Q w"
  by (simp add: wp_def)

lemma wp_st_update [wp_intros]: "Q () (w\<lparr>w_st := update f (w_st w)\<rparr>) \<Longrightarrow> wp (st_update f) Q w"
  by (simp add: wp_def)

section \<open>The store with concurrent updates\<close>

text \<open>
  \<open>Update\<close> releases the lock before it sends: between the change of \<open>cur\<close> and the sends of
  one goroutine, another goroutine may run its own \<open>Update\<close>. A step takes the locked part of
  some update, one send of a pending update, or one call of a subscriber. \<open>published\<close> is a
  ghost: the snapshots that were current so far.
\<close>

record 'a cstore =
  sto :: "'a store"
  pending :: "('a \<times> nat list) list"
  published :: "'a list"

definition new_cstore :: "'a \<Rightarrow> 'a cstore" where
  "new_cstore i = \<lparr>sto = new_store i, pending = [], published = [i]\<rparr>"

inductive cstep :: "'a cstore \<Rightarrow> 'a cstore \<Rightarrow> bool" where
  locked: "x = f (cur (sto s)) \<Longrightarrow>
     cstep s (s\<lparr>sto := (sto s)\<lparr>cur := x\<rparr>, pending := pending s @ [(x, subs (sto s))],
                published := published s @ [x]\<rparr>)"
| send: "pending s = ps @ (x, ch # chs) # qs \<Longrightarrow>
     cstep s (s\<lparr>sto := notify x ch (sto s), pending := ps @ (x, chs) # qs\<rparr>)"
| subscribes: "cstep s (s\<lparr>sto := snd (subscribe (sto s))\<rparr>)"
| cancels: "cstep s (s\<lparr>sto := cancel ch (sto s)\<rparr>)"
| receives: "cstep s (s\<lparr>sto := snd (receive ch (sto s))\<rparr>)"

inductive_cases cstepE [elim]: "cstep s t"

inductive creach :: "'a \<Rightarrow> 'a cstore \<Rightarrow> bool" for i where
  start: "creach i (new_cstore i)"
| step: "creach i s \<Longrightarrow> cstep s t \<Longrightarrow> creach i t"

definition quiescent :: "'a cstore \<Rightarrow> bool" where
  "quiescent s \<longleftrightarrow> (\<forall>p \<in> set (pending s). snd p = [])"

text \<open>What holds under every interleaving: buffers stay within their capacity and hold only
  snapshots that were current at some time.\<close>

definition cstore_inv :: "'a cstore \<Rightarrow> bool" where
  "cstore_inv s \<longleftrightarrow>
     cur (sto s) \<in> set (published s) \<and>
     (\<forall>p \<in> set (pending s). fst p \<in> set (published s)) \<and>
     (\<forall>ch. length (bufs (sto s) ch) \<le> 1 \<and> set (bufs (sto s) ch) \<subseteq> set (published s))"

lemma cstore_inv_new: "cstore_inv (new_cstore i)"
  by (simp add: cstore_inv_def new_cstore_def new_store_def)

lemma length_receive: "length (bufs (snd (receive ch s)) c) \<le> length (bufs s c)"
  by (auto simp: receive_def split: list.splits)

lemma set_receive: "set (bufs (snd (receive ch s)) c) \<subseteq> set (bufs s c)"
  by (auto simp: receive_def split: list.splits)

lemma cur_receive [simp]: "cur (snd (receive ch s)) = cur s"
  by (auto simp: receive_def split: list.splits)

lemma cstep_inv:
  assumes "cstep s t" and "cstore_inv s"
  shows "cstore_inv t"
  using assms
proof (induction rule: cstep.induct)
  case (locked x f s)
  then show ?case by (auto simp: cstore_inv_def)
next
  case (send s ps x ch chs qs)
  then show ?case
    by (auto simp: cstore_inv_def notify_def offer_snapshot_cap)
next
  case (subscribes s)
  then show ?case by (auto simp: cstore_inv_def subscribe_def)
next
  case (cancels s ch)
  then show ?case by (auto simp: cstore_inv_def cancel_def)
next
  case (receives s ch)
  then show ?case
    using length_receive [of ch "sto s"] set_receive [of ch "sto s"]
    unfolding cstore_inv_def by (simp, meson order_trans)
qed

lemma creach_inv: "creach i s \<Longrightarrow> cstore_inv s"
  by (induction rule: creach.induct) (auto intro: cstore_inv_new cstep_inv)

text \<open>The sequential guarantee is lost: with two updates in flight, the older snapshot can
  be sent last and stay in the buffer although every update has finished.\<close>

lemma stale_run:
  "\<exists>s. creach i s \<and> quiescent s \<and> 0 \<in> set (subs (sto s)) \<and> cur (sto s) = y \<and> bufs (sto s) 0 = [x]"
proof -
  let ?s1 = "(new_cstore i)\<lparr>sto := snd (subscribe (sto (new_cstore i)))\<rparr>"
  let ?s2 = "?s1\<lparr>sto := (sto ?s1)\<lparr>cur := x\<rparr>, pending := pending ?s1 @ [(x, subs (sto ?s1))],
               published := published ?s1 @ [x]\<rparr>"
  let ?s3 = "?s2\<lparr>sto := (sto ?s2)\<lparr>cur := y\<rparr>, pending := pending ?s2 @ [(y, subs (sto ?s2))],
               published := published ?s2 @ [y]\<rparr>"
  let ?s4 = "?s3\<lparr>sto := notify y 0 (sto ?s3), pending := [(x, [0])] @ (y, []) # []\<rparr>"
  let ?s5 = "?s4\<lparr>sto := notify x 0 (sto ?s4), pending := [] @ (x, []) # [(y, [])]\<rparr>"
  note sim = new_cstore_def new_store_def subscribe_def
  have "creach i ?s1" by (intro creach.step [OF creach.start] cstep.subscribes)
  then have "creach i ?s2" by (rule creach.step) (rule cstep.locked [where f = "\<lambda>_. x"], simp)
  then have "creach i ?s3" by (rule creach.step) (rule cstep.locked [where f = "\<lambda>_. y"], simp)
  then have "creach i ?s4" by (rule creach.step) (rule cstep.send, simp add: sim)
  then have "creach i ?s5" by (rule creach.step) (rule cstep.send, simp)
  moreover have "quiescent ?s5" by (simp add: quiescent_def)
  moreover have "0 \<in> set (subs (sto ?s5))" by (simp add: sim notify_def)
  moreover have "cur (sto ?s5) = y" by (simp add: sim notify_def)
  moreover have "bufs (sto ?s5) 0 = [x]" by (simp add: sim notify_def)
  ultimately show ?thesis by blast
qed

section \<open>Properties\<close>

text \<open>C32: A subscriber is never left with an old snapshot, as long as updates do not overlap:
  after any sequence of updates, subscriptions, cancellations and reads, what waits in a live
  subscription is nothing or exactly the current snapshot, and right after an update every
  subscriber has it.\<close>

theorem subscribers_fresh:
  assumes "s = fold store_run ops (new_store i)" and "ch \<in> set (subs s)"
  shows "bufs s ch \<in> {[], [store_get s]} \<and> bufs (update f s) ch = [store_get (update f s)]"
proof -
  have inv: "store_inv s"
    using assms(1) store_inv_run [OF store_inv_new] by simp
  with assms(2) show ?thesis
    using bufs_update [of s ch f] by (auto simp: store_get_def store_inv_def)
qed

theorem subscribers_fresh_witness:
  "bufs (fold store_run [Subscribe, Update Suc, Update Suc] (new_store (0::nat))) 0 \<in> {[], [2]}"
  using subscribers_fresh [OF refl, of 0 "[Subscribe, Update Suc, Update Suc]" "0::nat" Suc]
  by (simp add: new_store_def subscribe_def store_get_def update_def Let_def notify_def)

text \<open>Also: Overlapping updates lose that guarantee: because \<open>Update\<close> sends after releasing the
  lock, there is a run of two updates in which both have finished, the state is the second
  snapshot, and a live subscriber is left with the first.\<close>

theorem concurrent_update_stale:
  "\<exists>s. creach i s \<and> quiescent s \<and> 0 \<in> set (subs (sto s)) \<and> cur (sto s) = y \<and> bufs (sto s) 0 = [x]"
  by (rule stale_run)

text \<open>Also: Under every interleaving of updates, sends, subscriptions and reads a subscriber's
  buffer holds at most one snapshot, and only one that was published.\<close>

theorem concurrent_store_bounded:
  assumes "creach i s"
  shows "length (bufs (sto s) ch) \<le> 1 \<and> set (bufs (sto s) ch) \<subseteq> set (published s)"
  using creach_inv [OF assms] by (simp add: cstore_inv_def)

theorem concurrent_store_bounded_witness:
  "length (bufs (sto ((new_cstore (0::nat))\<lparr>sto := snd (subscribe (sto (new_cstore 0)))\<rparr>)) 0) \<le> 1"
  using concurrent_store_bounded [OF creach.step [OF creach.start cstep.subscribes], of "0::nat" 0] by simp

end
