(* ===== verification/Netx.thy ===== *)
theory Netx
  imports State_Store
begin

text \<open>
  IP addresses as the agent uses them (\<open>net.IP\<close>: 4 or 16 bytes; \<open>ParseIP\<close>, \<open>To4\<close>,
  \<open>To16\<close>, \<open>String\<close> of the Go standard library), and \<open>internal/netx\<close>: the container's DNS
  server, pinned once at the start, and the agent's only direct name resolution.
\<close>

section \<open>IP addresses\<close>

type_synonym byte = "8 word"
type_synonym ip = "byte list"

definition v4_prefix :: "byte list" where
  "v4_prefix = replicate 10 0 @ [0xFF, 0xFF]"

definition to4 :: "ip \<Rightarrow> ip option" where
  "to4 a = (if length a = 4 then Some a
     else if length a = 16 \<and> take 12 a = v4_prefix then Some (drop 12 a) else None)"

definition to16 :: "ip \<Rightarrow> ip option" where
  "to16 a = (if length a = 4 then Some (v4_prefix @ a)
     else if length a = 16 then Some a else None)"

definition byte_str :: "byte \<Rightarrow> string" where
  "byte_str b = nat_digits (unat b)"

definition dotted :: "ip \<Rightarrow> string" where
  "dotted a = join_with ''.'' (map byte_str a)"

text \<open>The eight groups of an IPv6 address and their text (RFC 5952: the first longest run of at
  least two zero groups is written \<open>::\<close>, no leading zeros, lower case).\<close>

fun groups :: "byte list \<Rightarrow> nat list" where
  "groups (x # y # r) = (256 * unat x + unat y) # groups r"
| "groups _ = []"

function hex_digits :: "nat \<Rightarrow> string" where
  "hex_digits n = (if n < 16 then [''0123456789abcdef'' ! n]
     else hex_digits (n div 16) @ [''0123456789abcdef'' ! (n mod 16)])"
  by pat_completeness auto
termination
  by (relation "measure id") auto

declare hex_digits.simps [simp del]

definition zero_run :: "nat list \<Rightarrow> nat \<Rightarrow> nat" where
  "zero_run gs i = length (takeWhile (\<lambda>g. g = 0) (drop i gs))"

definition longest_run :: "nat list \<Rightarrow> nat \<times> nat" where
  "longest_run gs = foldl (\<lambda>(e0, e1) i.
     let l = zero_run gs i in if 2 \<le> l \<and> e1 - e0 < l then (i, i + l) else (e0, e1))
     (0, 0) [0..<length gs]"

definition ip6_string :: "ip \<Rightarrow> string" where
  "ip6_string a = (let gs = groups a; (e0, e1) = longest_run gs;
       hex = (\<lambda>g. join_with '':'' (map hex_digits g)) in
     if e0 = e1 then hex gs else hex (take e0 gs) @ ''::'' @ hex (drop e1 gs))"

definition ip_string :: "ip \<Rightarrow> string" where
  "ip_string a = (case to4 a of Some b \<Rightarrow> dotted b
     | None \<Rightarrow> if length a = 16 then ip6_string a else if a = [] then ''<nil>'' else ''?'')"

definition parse_octet :: "string \<Rightarrow> byte option" where
  "parse_octet s =
     (if s \<noteq> [] \<and> list_all is_digit s \<and> length s \<le> 3 \<and> \<not> (1 < length s \<and> hd s = CHR ''0'') \<and>
         nat_of_digits s < 256
      then Some (of_nat (nat_of_digits s)) else None)"

definition parse_ip4 :: "string \<Rightarrow> ip option" where
  "parse_ip4 s =
     (let bs = map parse_octet (split_on CHR ''.'' s)
      in if length bs = 4 \<and> None \<notin> set bs then Some (map the bs) else None)"

definition hex_val :: "char \<Rightarrow> nat option" where
  "hex_val c =
     (if is_digit c then Some (digit_val c)
      else if CHR ''a'' \<le> c \<and> c \<le> CHR ''f'' then Some (of_char c - 87)
      else if CHR ''A'' \<le> c \<and> c \<le> CHR ''F'' then Some (of_char c - 55) else None)"

definition is_hex :: "char \<Rightarrow> bool" where
  "is_hex c = (hex_val c \<noteq> None)"

definition hex_group :: "string \<Rightarrow> nat" where
  "hex_group s = foldl (\<lambda>n c. 16 * n + the (hex_val c)) 0 s"

text \<open>The loop of \<open>netip.ParseAddr\<close> for IPv6: \<open>acc\<close> the bytes read, \<open>ell\<close> the position of
  \<open>::\<close>; at most eight groups.\<close>

definition expand_ip6 :: "byte list \<Rightarrow> nat option \<Rightarrow> ip option" where
  "expand_ip6 acc ell = (case ell of
       None \<Rightarrow> if length acc = 16 then Some acc else None
     | Some e \<Rightarrow> if length acc < 16
         then Some (take e acc @ replicate (16 - length acc) 0 @ drop e acc) else None)"

fun ip6_loop :: "nat \<Rightarrow> byte list \<Rightarrow> nat option \<Rightarrow> string \<Rightarrow> ip option" where
  "ip6_loop 0 acc ell s = (if s = [] then expand_ip6 acc ell else None)"
| "ip6_loop (Suc k) acc ell s =
     (let h = takeWhile is_hex s; r = dropWhile is_hex s; g = hex_group h;
          acc' = acc @ [of_nat (g div 256), of_nat (g mod 256)] in
      if h = [] \<or> 4 < length h then None
      else if r \<noteq> [] \<and> hd r = CHR ''.'' then
        (if (ell = None \<and> length acc \<noteq> 12) \<or> 16 < length acc + 4 then None
         else case parse_ip4 s of None \<Rightarrow> None | Some b \<Rightarrow> expand_ip6 (acc @ b) ell)
      else (case r of
          [] \<Rightarrow> expand_ip6 acc' ell
        | c # r1 \<Rightarrow>
          if c \<noteq> CHR '':'' \<or> r1 = [] then None
          else if hd r1 = CHR '':'' then
            (if ell \<noteq> None then None
             else if tl r1 = [] then expand_ip6 acc' (Some (length acc'))
             else ip6_loop k acc' (Some (length acc')) (tl r1))
          else ip6_loop k acc' ell r1))"

definition parse_ip6 :: "string \<Rightarrow> ip option" where
  "parse_ip6 s =
     (if prefix ''::'' s then
        (if drop 2 s = [] then Some (replicate 16 0) else ip6_loop 8 [] (Some 0) (drop 2 s))
      else ip6_loop 8 [] None s)"

text \<open>\<open>net.ParseIP\<close>: the first of \<open>.\<close>, \<open>:\<close> and \<open>%\<close> decides; an address with a zone is
  refused; an IPv4 address comes in its 16-byte form.\<close>

definition parse_ip :: "string \<Rightarrow> ip option" where
  "parse_ip s =
     (if CHR ''%'' \<in> set s then None
      else case dropWhile (\<lambda>c. c \<noteq> CHR ''.'' \<and> c \<noteq> CHR '':'') s of
        [] \<Rightarrow> None
      | c # _ \<Rightarrow> if c = CHR ''.'' then Option.bind (parse_ip4 s) to16 else parse_ip6 s)"

section \<open>The container's DNS server\<close>

definition resolvConfPath :: string where
  "resolvConfPath = ''/etc/resolv.conf''"

definition defaultContainerDNS :: string where
  "defaultContainerDNS = ''127.0.0.11''"

definition pickNameserver :: "string \<Rightarrow> string list \<Rightarrow> string" where
  "pickNameserver raw ignore =
     (case find (\<lambda>f. 2 \<le> length f \<and> f ! 0 = ''nameserver'' \<and> f ! 1 \<notin> set ignore)
             (map str_fields (split_on newline raw)) of
        Some f \<Rightarrow> f ! 1
      | None \<Rightarrow> defaultContainerDNS)"

record net_world = st_world +
  containerDNS :: string

text \<open>A file that cannot be read is read as empty.\<close>

definition pinContainerDNS :: "env \<Rightarrow> string list \<Rightarrow> ('z net_world_scheme, string) state" where
  "pinContainerDNS E ignore = do {
     w \<leftarrow> getw;
     (if containerDNS w = [] then do {
        raw \<leftarrow> do_read E resolvConfPath;
        modify (\<lambda>w. w\<lparr>containerDNS :=
          pickNameserver (case raw of Inr s \<Rightarrow> s | Inl _ \<Rightarrow> []) ignore\<rparr>)
      } else ret ());
     w \<leftarrow> getw;
     ret (containerDNS w)
   }"

definition getContainerDNS :: "('z net_world_scheme, string) state" where
  "getContainerDNS = do {
     w \<leftarrow> getw;
     ret (if containerDNS w = [] then defaultContainerDNS else containerDNS w)
   }"

text \<open>The resolver's \<open>Dial\<close> ignores the address Go gives it and always takes the pinned server.\<close>

definition resolveIPv4 :: "env \<Rightarrow> string \<Rightarrow> ('z net_world_scheme, string res) state" where
  "resolveIPv4 E host = (case parse_ip host of
     Some ip \<Rightarrow> ret (Inr (ip_string ip))
   | None \<Rightarrow> do {
       dns \<leftarrow> getContainerDNS;
       r \<leftarrow> do_lookup E (join_host_port dns ''53'') host;
       ret (case r of Inl e \<Rightarrow> Inl (PlainError e)
          | Inr [] \<Rightarrow> Inl (PlainError (''no IPv4 addresses for '' @ host))
          | Inr (a # _) \<Rightarrow> Inr a)
     })"

section \<open>Facts\<close>

lemma fields_no_space: "c \<in> set f \<Longrightarrow> f \<in> set (fields_acc acc s) \<Longrightarrow> \<forall>d \<in> set acc. \<not> is_space d \<Longrightarrow> \<not> is_space c"
  by (induction acc s rule: fields_acc.induct) (auto split: if_splits)

lemma pickNameserver_cases:
  "pickNameserver raw ignore = defaultContainerDNS \<or> pickNameserver raw ignore \<notin> set ignore"
  by (auto simp: pickNameserver_def find_Some_iff split: option.splits)

lemma find_filter_hd: "find P xs = (case filter P xs of [] \<Rightarrow> None | x # _ \<Rightarrow> Some x)"
  by (induction xs) auto

lemma pickNameserver_nonempty:
  "pickNameserver raw ignore \<noteq> []"
proof (cases "find (\<lambda>f. 2 \<le> length f \<and> f ! 0 = ''nameserver'' \<and> f ! 1 \<notin> set ignore)
             (map str_fields (split_on newline raw))")
  case None
  then show ?thesis by (simp add: pickNameserver_def defaultContainerDNS_def)
next
  case (Some f)
  then obtain i where "i < length (split_on newline raw)" "f = str_fields (split_on newline raw ! i)" "2 \<le> length f"
    by (auto simp: find_Some_iff)
  moreover have "[] \<notin> set (str_fields s)" for s
  proof -
    have "[] \<notin> set (fields_acc acc s)" for acc
      by (induction acc s rule: fields_acc.induct) auto
    then show ?thesis by (simp add: str_fields_def)
  qed
  ultimately have "f ! 1 \<noteq> []"
    by (metis Suc_1 Suc_le_lessD nth_mem)
  with Some show ?thesis by (simp add: pickNameserver_def)
qed

lemma octet_nat_digits [simp]: "parse_octet (byte_str b) = Some b"
proof -
  have lt: "unat b < 256" using unsigned_less [of b, where ?'a = nat] by simp
  have len: "length (nat_digits n) \<le> 3" if "n < 256" for n
    using that by (subst nat_digits.simps, subst nat_digits.simps, subst nat_digits.simps) auto
  have lead: "length (nat_digits n) \<le> 1 \<or> hd (nat_digits n) \<noteq> CHR ''0''" if "n < 256" for n
  proof (cases "n < 10")
    case True
    then show ?thesis by (subst nat_digits.simps) simp
  next
    case False
    have z: "digit_char d \<noteq> CHR ''0''" if "0 < d" "d < 10" for d
    proof
      assume "digit_char d = CHR ''0''"
      then have "digit_val (digit_char d) = 0" by (simp add: digit_val_def)
      with that show False by simp
    qed
    show ?thesis
    proof (cases "n < 100")
      case True
      with False z [of "n div 10"] show ?thesis
        by (subst nat_digits.simps, subst (2) nat_digits.simps) (auto simp: nat_digits.simps [of "n div 10"])
    next
      case False2: False
      have "n div 10 div 10 < 10" using \<open>n < 256\<close> by simp
      with False False2 z [of "n div 10 div 10"] show ?thesis
        by (auto simp: nat_digits.simps [of n] nat_digits.simps [of "n div 10"]
            nat_digits.simps [of "n div 10 div 10"])
    qed
  qed
  from lt lead [OF lt] len [OF lt] show ?thesis
    by (auto simp: parse_octet_def byte_str_def list_all_iff dest: nat_digits_are_digits)
qed

lemma no_dot_byte_str: "CHR ''.'' \<notin> set (byte_str b)" and no_percent: "CHR ''%'' \<notin> set (byte_str b)"
  and no_colon: "CHR '':'' \<notin> set (byte_str b)"
  by (auto simp: byte_str_def is_digit_def dest!: nat_digits_are_digits)

lemma split_dotted: "a \<noteq> [] \<Longrightarrow> split_on CHR ''.'' (dotted a) = map byte_str a"
proof (induction a)
  case (Cons x xs)
  then show ?case
    by (cases xs) (simp_all add: dotted_def split_on_append split_on_no_sep no_dot_byte_str)
qed simp

lemma parse_ip4_dotted: "length a = 4 \<Longrightarrow> parse_ip4 (dotted a) = Some a"
  by (subgoal_tac "a \<noteq> []") (auto simp: parse_ip4_def split_dotted comp_def)

lemma dotted_chars: "c \<in> set (dotted a) \<Longrightarrow> c = CHR ''.'' \<or> is_digit c"
proof (induction a)
  case (Cons x xs)
  then show ?case
    by (cases xs) (auto simp: dotted_def byte_str_def dest: nat_digits_are_digits)
qed (simp add: dotted_def)

lemma parse_ip_dotted:
  assumes "length a = 4" shows "parse_ip (dotted a) = Some (v4_prefix @ a)"
proof -
  have "CHR ''%'' \<notin> set (dotted a)"
    using dotted_chars [of "CHR ''%''" a] by (auto simp: is_digit_def)
  moreover have "\<exists>r. dropWhile (\<lambda>c. c \<noteq> CHR ''.'' \<and> c \<noteq> CHR '':'') (dotted a) = CHR ''.'' # r"
  proof -
    obtain x y z where a: "a = x # y # z"
      using assms by (metis Suc_length_conv numeral_eq_Suc pred_numeral_simps(2,3))
    have "dotted a = byte_str x @ CHR ''.'' # dotted (y # z)"
      by (simp add: a dotted_def)
    moreover have "\<forall>c \<in> set (byte_str x). c \<noteq> CHR ''.'' \<and> c \<noteq> CHR '':''"
      using no_dot_byte_str no_colon by metis
    ultimately show ?thesis by (simp add: dropWhile_append2)
  qed
  ultimately show ?thesis
    using assms by (auto simp: parse_ip_def parse_ip4_dotted to16_def)
qed

lemma to4_length: "to4 a = Some b \<Longrightarrow> length b = 4"
  by (auto simp: to4_def split: if_splits)

lemma to4_v4_prefix [simp]: "length a = 4 \<Longrightarrow> to4 (v4_prefix @ a) = Some a"
  by (simp add: to4_def v4_prefix_def)

lemma ip_string_v4 [simp]: "length a = 4 \<Longrightarrow> ip_string (v4_prefix @ a) = dotted a"
  by (simp add: ip_string_def)

lemma resolve_only [ext_intros]: "only_effects (resolveIPv4 E h)"
  unfolding resolveIPv4_def getContainerDNS_def by (intro ext_intros)

interpretation resolve_eff: effectful "resolveIPv4 E h" for E h
  by (rule effectful_extending, rule only_extending, rule resolve_only)

end
