(* ===== verification/Resolver.thy ===== *)
theory Resolver
  imports Netx
begin

text \<open>
  The resolver for the proxy's clients (\<open>internal/proxy/resolver.go\<close>): names are looked up
  at the name server that the VPN daemon wrote to \<open>/etc/resolv.conf\<close>, read again when the
  copy is five seconds old, over sockets with the kill switch's mark.
\<close>

record tr_world = world +
  tr_cachedNS :: string
  tr_readAt :: int

definition five_seconds :: int where
  "five_seconds = 5000000000"

definition first_nameserver :: "string \<Rightarrow> string option" where
  "first_nameserver raw =
     map_option (\<lambda>f. f ! 1) (find (\<lambda>f. 2 \<le> length f \<and> f ! 0 = ''nameserver'')
       (map (\<lambda>l. str_fields (trim_space l)) (split_on newline raw)))"

definition read_nameserver :: "env \<Rightarrow> ('z tr_world_scheme, string res) state" where
  "read_nameserver E = do {
     raw \<leftarrow> do_read E resolvConfPath;
     (case raw of
        Inl e \<Rightarrow> ret (Inl (PlainError e))
      | Inr s \<Rightarrow> (case first_nameserver s of
            None \<Rightarrow> ret (Inl (PlainError ''no nameserver in /etc/resolv.conf''))
          | Some ns \<Rightarrow> do {
              modify (\<lambda>w. w\<lparr>tr_cachedNS := ns\<rparr>);
              t \<leftarrow> do_clock E;
              modify (\<lambda>w. w\<lparr>tr_readAt := t\<rparr>);
              ret (Inr ns)
            }))
   }"

definition tr_nameserver :: "env \<Rightarrow> ('z tr_world_scheme, string res) state" where
  "tr_nameserver E = do {
     w \<leftarrow> getw;
     (if tr_cachedNS w = [] then read_nameserver E
      else do {
        now \<leftarrow> do_clock E;
        (if now - tr_readAt w < five_seconds then ret (Inr (tr_cachedNS w)) else read_nameserver E)
      })
   }"

definition tr_resolve :: "env \<Rightarrow> nat \<Rightarrow> string \<Rightarrow> ('z tr_world_scheme, ip res) state" where
  "tr_resolve E mark host = (case parse_ip host of
     Some ip \<Rightarrow> ret (Inr ip)
   | None \<Rightarrow> attempt (tr_nameserver E) (\<lambda>ns. do {
       r \<leftarrow> do_mlookup E mark (join_host_port ns ''53'') host;
       ret (case r of
           Inl e \<Rightarrow> Inl (PlainError e)
         | Inr [] \<Rightarrow> Inl (PlainError (''no A records for '' @ host))
         | Inr (a # _) \<Rightarrow> Inr a)
     }))"

definition tr_Nameserver :: "env \<Rightarrow> ('z tr_world_scheme, string) state" where
  "tr_Nameserver E = do {
     r \<leftarrow> tr_nameserver E;
     ret (case r of Inr ns \<Rightarrow> ns | Inl _ \<Rightarrow> [])
   }"

section \<open>Facts\<close>

text \<open>The network effects of a piece of the trace, and that they all carry a mark.\<close>

fun is_marked :: "nat \<Rightarrow> event \<Rightarrow> bool" where
  "is_marked m (MarkedDial k net addr) = (k = m)"
| "is_marked m (MarkedLookup k server host) = (k = m)"
| "is_marked m (Dial addr) = False"
| "is_marked m (Lookup server host) = False"
| "is_marked m e = True"

fun is_network :: "event \<Rightarrow> bool" where
  "is_network (MarkedDial k net addr) = True"
| "is_network (MarkedLookup k server host) = True"
| "is_network (Dial addr) = True"
| "is_network (Lookup server host) = True"
| "is_network e = False"

lemma tr_nameserver_emits [emit_intros]:
  assumes "P Clock" and "P (ReadFile resolvConfPath)"
  shows "emits P (tr_nameserver E)"
  unfolding tr_nameserver_def read_nameserver_def by (intro emit_intros assms; simp)

lemma tr_resolve_emits [emit_intros]:
  assumes "P Clock" and "P (ReadFile resolvConfPath)" and "\<And>s h. P (MarkedLookup k s h)"
  shows "emits P (tr_resolve E k host)"
  unfolding tr_resolve_def by (intro emit_intros assms; simp)

text \<open>The answer of the resolver's cache is at most five seconds old, or has just been read.\<close>

lemma tr_nameserver_run:
  assumes "run_state (tr_nameserver E) w = (Inr ns, v)"
  shows "(ns = tr_cachedNS w \<and> tr_cachedNS w \<noteq> [] \<and>
      env_clock E (trace w) - tr_readAt w < five_seconds \<and> v = w\<lparr>trace := trace w @ [Clock]\<rparr>) \<or>
    (\<exists>h raw. env_read E h resolvConfPath = Inr raw \<and> first_nameserver raw = Some ns \<and>
       tr_cachedNS v = ns \<and> trace v = h @ [ReadFile resolvConfPath, Clock] \<and>
       tr_readAt v = env_clock E (h @ [ReadFile resolvConfPath]))"
  using assms
  by (auto simp: tr_nameserver_def read_nameserver_def split: if_splits sum.splits option.splits)

lemma tr_resolve_keeps [keep_intros]:
  assumes "\<And>w es. f (w\<lparr>trace := es\<rparr>) = f w" "\<And>w n. f (w\<lparr>tr_cachedNS := n\<rparr>) = f w"
    "\<And>w n. f (w\<lparr>tr_readAt := n\<rparr>) = f w"
  shows "keeps f (tr_resolve E k h)"
  unfolding tr_resolve_def tr_nameserver_def read_nameserver_def by (intro keep_intros assms)

lemma tr_resolve_marked: "emits (is_marked mark) (tr_resolve E mark host)"
  by (intro emit_intros) simp_all

section \<open>Properties\<close>

text \<open>Also: Resolving a client's domain never leaves the tunnel's path: whatever the outcome, every
  effect is the clock, the reading of resolv.conf or a lookup over a socket with the given mark.\<close>

theorem resolve_marked:
  "\<exists>es. trace (snd (run_state (tr_resolve E mark host) w)) = trace w @ es \<and> list_all (is_marked mark) es"
  using tr_resolve_marked [unfolded emits_def] by blast

end
