(* ===== verification/Config.thy ===== *)
theory Config
  imports Go_Strings
begin

text \<open>
  The agent's declarative configuration (\<open>internal/config/config.go\<close>): its records, the
  defaults, \<open>Validate\<close> and \<open>Redacted\<close>, and its JSON form: the values of \<open>encoding/json\<close>,
  the encoding by the struct tags and the strict decoding that \<open>ApplyMergePatch\<close> uses.
\<close>

section \<open>The configuration\<close>

record protections =
  pt_ads :: bool
  pt_trackers :: bool
  pt_malicious :: bool
  pt_adult :: bool

record expressvpn_cfg =
  ev_location :: string
  ev_protocol :: string
  ev_autoconnect :: bool
  ev_protections :: protections

record socks5_cfg =
  sk_host :: string
  sk_port :: int
  sk_username :: string
  sk_password :: string
  sk_udp :: string

record uplink_cfg =
  ul_mode :: string
  ul_socks5 :: socks5_cfg

record proxy_auth =
  pa_username :: string
  pa_password :: string

record proxy_cfg =
  pc_auth :: "proxy_auth option"

record config =
  cf_expressvpn :: expressvpn_cfg
  cf_uplink :: uplink_cfg
  cf_proxy :: proxy_cfg

definition zero_protections :: protections where
  "zero_protections = \<lparr>pt_ads = False, pt_trackers = False, pt_malicious = False, pt_adult = False\<rparr>"

definition zero_socks5 :: socks5_cfg where
  "zero_socks5 = \<lparr>sk_host = [], sk_port = 0, sk_username = [], sk_password = [], sk_udp = []\<rparr>"

definition zero_auth :: proxy_auth where
  "zero_auth = \<lparr>pa_username = [], pa_password = []\<rparr>"

definition zero_config :: config where
  "zero_config =
     \<lparr>cf_expressvpn = \<lparr>ev_location = [], ev_protocol = [], ev_autoconnect = False,
        ev_protections = zero_protections\<rparr>,
      cf_uplink = \<lparr>ul_mode = [], ul_socks5 = zero_socks5\<rparr>,
      cf_proxy = \<lparr>pc_auth = None\<rparr>\<rparr>"

definition default_config :: config where
  "default_config =
     \<lparr>cf_expressvpn = \<lparr>ev_location = [], ev_protocol = ''auto'', ev_autoconnect = False,
        ev_protections = zero_protections\<rparr>,
      cf_uplink = \<lparr>ul_mode = ''host'', ul_socks5 = zero_socks5\<lparr>sk_udp := ''auto''\<rparr>\<rparr>,
      cf_proxy = \<lparr>pc_auth = None\<rparr>\<rparr>"

definition known_protocols :: "string list" where
  "known_protocols =
     [''auto'', ''lightway_udp'', ''lightway_tcp'', ''openvpn_udp'', ''openvpn_tcp'', ''wireguard'']"

text \<open>The verb \<open>%q\<close>, on printable ASCII.\<close>

definition dquote :: char where
  "dquote = CHR 0x22"

definition go_quote :: "string \<Rightarrow> string" where
  "go_quote s =
     dquote # concat (map (\<lambda>c. if c = dquote \<or> c = CHR 0x5C then [CHR 0x5C, c] else [c]) s) @ [dquote]"

definition validate :: "config \<Rightarrow> go_error option" where
  "validate c =
     (let ev = cf_expressvpn c; ul = cf_uplink c; sk = ul_socks5 ul in
      if ev_protocol ev \<notin> set known_protocols
      then Some (FieldError ''expressvpn.protocol'' (''unknown protocol '' @ go_quote (ev_protocol ev)))
      else if ul_mode ul \<noteq> ''host'' \<and> ul_mode ul \<noteq> ''socks5''
      then Some (FieldError ''uplink.mode'' (''unknown mode '' @ go_quote (ul_mode ul) @ '' (host|socks5)''))
      else if ul_mode ul = ''socks5'' \<and> sk_host sk = []
      then Some (FieldError ''uplink.socks5.host'' ''host is required in socks5 mode'')
      else if ul_mode ul = ''socks5'' \<and> (sk_port sk < 1 \<or> sk_port sk > 65535)
      then Some (FieldError ''uplink.socks5.port'' ''port must be 1..65535'')
      else if sk_udp sk \<noteq> ''auto'' \<and> sk_udp sk \<noteq> ''on'' \<and> sk_udp sk \<noteq> ''off''
      then Some (FieldError ''uplink.socks5.udp'' (''unknown value '' @ go_quote (sk_udp sk) @ '' (auto|on|off)''))
      else (case pc_auth (cf_proxy c) of
              Some a \<Rightarrow>
                if pa_username a = [] \<or> pa_password a = []
                then Some (FieldError ''proxy.auth'' ''username and password are required when auth is set'')
                else None
            | None \<Rightarrow> None))"

text \<open>What \<open>Validate\<close> promises its callers.\<close>

definition valid_config :: "config \<Rightarrow> bool" where
  "valid_config c \<longleftrightarrow>
     ev_protocol (cf_expressvpn c) \<in> set known_protocols \<and>
     (ul_mode (cf_uplink c) = ''host'' \<or>
      ul_mode (cf_uplink c) = ''socks5'' \<and> sk_host (ul_socks5 (cf_uplink c)) \<noteq> [] \<and>
      sk_port (ul_socks5 (cf_uplink c)) \<in> {1..65535}) \<and>
     sk_udp (ul_socks5 (cf_uplink c)) \<in> {''auto'', ''on'', ''off''} \<and>
     (\<forall>a. pc_auth (cf_proxy c) = Some a \<longrightarrow> pa_username a \<noteq> [] \<and> pa_password a \<noteq> [])"

lemma validate_iff: "validate c = None \<longleftrightarrow> valid_config c"
  by (auto simp: validate_def valid_config_def Let_def split: option.splits)

lemma validate_field_error: "validate c = Some e \<Longrightarrow> \<exists>f m. e = FieldError f m"
  by (auto simp: validate_def Let_def split: option.splits if_splits)

lemma valid_default: "valid_config default_config"
  by (simp add: valid_config_def default_config_def known_protocols_def zero_socks5_def)

section \<open>Masking of secrets\<close>

definition mask_str :: string where
  "mask_str = ''***''"

definition mask_password :: "string \<Rightarrow> string" where
  "mask_password p = (if p \<noteq> [] then mask_str else p)"

definition redacted :: "config \<Rightarrow> config" where
  "redacted c =
     (let u = cf_uplink c; sk = ul_socks5 u;
          c1 = c\<lparr>cf_uplink := u\<lparr>ul_socks5 := sk\<lparr>sk_password := mask_password (sk_password sk)\<rparr>\<rparr>\<rparr>
      in (case pc_auth (cf_proxy c1) of
            Some a \<Rightarrow> c1\<lparr>cf_proxy := (cf_proxy c1)\<lparr>pc_auth := Some (a\<lparr>pa_password := mask_password (pa_password a)\<rparr>)\<rparr>\<rparr>
          | None \<Rightarrow> c1))"

lemma mask_password_idem [simp]: "mask_password (mask_password p) = mask_password p"
  by (simp add: mask_password_def mask_str_def)

lemma mask_password_const: "p \<noteq> [] \<Longrightarrow> q \<noteq> [] \<Longrightarrow> mask_password p = mask_password q"
  by (simp add: mask_password_def)

section \<open>JSON values\<close>

text \<open>
  The value that \<open>json.Unmarshal\<close> puts into an \<open>any\<close>. Numbers are \<open>JInt\<close> when they are
  integers that a float64 holds exactly, \<open>JReal\<close> (with their text) otherwise. An object is
  the list of its entries in the order of their keys, each key once (\<open>wf_json\<close>): Go's maps
  have no order of their own, and \<open>json.Marshal\<close> writes their keys sorted. So two maps have
  the same JSON text if and only if they are the same value here (\<open>jsonEqual\<close>).
\<close>

datatype json =
    JNull
  | JBool bool
  | JInt int
  | JReal string
  | JStr string
  | JArr "json list"
  | JObj "(string \<times> json) list"

type_synonym jobj = "(string \<times> json) list"

fun put :: "'k :: linorder \<Rightarrow> 'v \<Rightarrow> ('k \<times> 'v) list \<Rightarrow> ('k \<times> 'v) list" where
  "put k v [] = [(k, v)]"
| "put k v ((k', v') # r) =
     (if k = k' then (k, v) # r else if k < k' then (k, v) # (k', v') # r else (k', v') # put k v r)"

definition del :: "'k \<Rightarrow> ('k \<times> 'v) list \<Rightarrow> ('k \<times> 'v) list" where
  "del k xs = filter (\<lambda>p. fst p \<noteq> k) xs"

abbreviation keys_sorted :: "('k :: linorder \<times> 'v) list \<Rightarrow> bool" where
  "keys_sorted xs \<equiv> sorted_wrt (<) (map fst xs)"

fun wf_json :: "json \<Rightarrow> bool" where
  "wf_json (JObj kvs) = (keys_sorted kvs \<and> (\<forall>kv \<in> set kvs. wf_json (snd kv)))"
| "wf_json (JArr vs) = (\<forall>v \<in> set vs. wf_json v)"
| "wf_json _ = True"

definition wf_obj :: "jobj \<Rightarrow> bool" where
  "wf_obj m \<longleftrightarrow> wf_json (JObj m)"

lemma map_of_put: "map_of (put k v xs) = (map_of xs)(k \<mapsto> v)"
  by (induction xs) auto

lemma map_of_del: "map_of (del k xs) = (map_of xs)(k := None)"
  by (induction xs) (auto simp: del_def)

lemma entries_put: "set (put k v xs) \<subseteq> insert (k, v) (set xs)"
  by (induction xs) (auto split: if_splits)

lemma keys_sorted_put: "keys_sorted xs \<Longrightarrow> keys_sorted (put k v xs)"
proof (induction xs)
  case Nil
  then show ?case by simp
next
  case (Cons x xs)
  obtain k' v' where x: "x = (k', v')" by (cases x)
  have "\<forall>p \<in> set (put k v xs). fst p = k \<or> p \<in> set xs"
    using entries_put [of k v xs] by auto
  with Cons show ?case by (auto simp: x)
qed

lemma keys_sorted_del: "keys_sorted xs \<Longrightarrow> keys_sorted (del k xs)"
  by (induction xs) (auto simp: del_def)

lemma keys_sorted_unique:
  assumes "keys_sorted xs" "keys_sorted ys" "map_of xs = map_of ys"
  shows "xs = ys"
proof -
  have d: "distinct (map fst xs)" "distinct (map fst ys)" "sorted (map fst xs)" "sorted (map fst ys)"
    using assms strict_sorted_iff by blast+
  with assms(3) have "set xs = set ys" by (simp add: map_of_inject_set)
  moreover from this d have "inj_on fst (set xs \<union> set ys)" by (simp add: distinct_map)
  ultimately show ?thesis using d map_sorted_distinct_set_unique by blast
qed

lemma sort_key_keys_sorted [simp]: "keys_sorted xs \<Longrightarrow> sort_key fst xs = xs"
  by (simp add: strict_sorted_iff sort_key_id_if_sorted)

text \<open>An object as an interface: what a reader sees after a write or a removal.\<close>

locale keyed_store =
  fixes look :: "'m \<Rightarrow> 'k \<Rightarrow> 'v option" and ins :: "'k \<Rightarrow> 'v \<Rightarrow> 'm \<Rightarrow> 'm" and rem :: "'k \<Rightarrow> 'm \<Rightarrow> 'm"
  assumes look_ins: "look (ins k v m) = (look m)(k \<mapsto> v)"
    and look_rem: "look (rem k m) = (look m)(k := None)"
begin

lemma look_ins_same [simp]: "look (ins k v m) k = Some v"
  by (simp add: look_ins)

lemma look_ins_other [simp]: "k \<noteq> k' \<Longrightarrow> look (ins k v m) k' = look m k'"
  by (simp add: look_ins)

lemma look_rem_same [simp]: "look (rem k m) k = None"
  by (simp add: look_rem)

lemma look_rem_other [simp]: "k \<noteq> k' \<Longrightarrow> look (rem k m) k' = look m k'"
  by (simp add: look_rem)

lemma ins_rem: "look (rem k (ins k v m)) = look (rem k m)"
  by (simp add: look_ins look_rem)

end

interpretation jo: keyed_store map_of put del
  by unfold_locales (simp_all add: map_of_put map_of_del)

section \<open>Encoding\<close>

definition protections_json :: "protections \<Rightarrow> json" where
  "protections_json p = JObj
     [(''ads'', JBool (pt_ads p)), (''adult'', JBool (pt_adult p)),
      (''malicious'', JBool (pt_malicious p)), (''trackers'', JBool (pt_trackers p))]"

definition expressvpn_json :: "expressvpn_cfg \<Rightarrow> json" where
  "expressvpn_json e = JObj
     [(''autoconnect'', JBool (ev_autoconnect e)), (''location'', JStr (ev_location e)),
      (''protections'', protections_json (ev_protections e)), (''protocol'', JStr (ev_protocol e))]"

definition socks5_json :: "socks5_cfg \<Rightarrow> json" where
  "socks5_json s = JObj
     [(''host'', JStr (sk_host s)), (''password'', JStr (sk_password s)), (''port'', JInt (sk_port s)),
      (''udp'', JStr (sk_udp s)), (''username'', JStr (sk_username s))]"

definition uplink_json :: "uplink_cfg \<Rightarrow> json" where
  "uplink_json u = JObj [(''mode'', JStr (ul_mode u)), (''socks5'', socks5_json (ul_socks5 u))]"

definition auth_json :: "proxy_auth option \<Rightarrow> json" where
  "auth_json a =
     (case a of
        None \<Rightarrow> JNull
      | Some a \<Rightarrow> JObj [(''password'', JStr (pa_password a)), (''username'', JStr (pa_username a))])"

definition proxy_json :: "proxy_cfg \<Rightarrow> json" where
  "proxy_json p = JObj [(''auth'', auth_json (pc_auth p))]"

text \<open>\<open>mustMap(json.Marshal(c))\<close>.\<close>

definition config_obj :: "config \<Rightarrow> jobj" where
  "config_obj c =
     [(''expressvpn'', expressvpn_json (cf_expressvpn c)), (''proxy'', proxy_json (cf_proxy c)),
      (''uplink'', uplink_json (cf_uplink c))]"

lemmas json_defs = protections_json_def expressvpn_json_def socks5_json_def uplink_json_def
  auth_json_def proxy_json_def config_obj_def

section \<open>Decoding\<close>

text \<open>
  The decoder of \<open>encoding/json\<close> on a struct: each key is matched with the field of exactly
  this name, else with the one that is equal under case folding; \<open>strict\<close> is
  \<open>DisallowUnknownFields\<close>. A \<open>null\<close> leaves a field as it is and makes a pointer nil. The
  first error is reported.
\<close>

definition find_field :: "string list \<Rightarrow> string \<Rightarrow> string option" where
  "find_field names k =
     (if k \<in> set names then Some k else find (\<lambda>n. equal_fold n k) names)"

definition unknown_field :: "string \<Rightarrow> go_error" where
  "unknown_field k = PlainError (''json: unknown field '' @ go_quote k)"

definition mistyped :: "string \<Rightarrow> go_error" where
  "mistyped k = PlainError (''json: cannot unmarshal into field '' @ k)"

definition dec_string :: "string \<Rightarrow> json \<Rightarrow> string \<Rightarrow> string res" where
  "dec_string k v old = (case v of JStr s \<Rightarrow> Inr s | JNull \<Rightarrow> Inr old | _ \<Rightarrow> Inl (mistyped k))"

definition dec_bool :: "string \<Rightarrow> json \<Rightarrow> bool \<Rightarrow> bool res" where
  "dec_bool k v old = (case v of JBool b \<Rightarrow> Inr b | JNull \<Rightarrow> Inr old | _ \<Rightarrow> Inl (mistyped k))"

definition dec_int :: "string \<Rightarrow> json \<Rightarrow> int \<Rightarrow> int res" where
  "dec_int k v old =
     (case v of
        JInt i \<Rightarrow> if - (2 ^ 63) \<le> i \<and> i < 2 ^ 63 then Inr i else Inl (mistyped k)
      | JNull \<Rightarrow> Inr old
      | _ \<Rightarrow> Inl (mistyped k))"

text \<open>A decoder of one field of a struct; \<open>dec_struct\<close> runs it over the sorted entries.\<close>

definition dec_entry ::
  "bool \<Rightarrow> string list \<Rightarrow> (string \<Rightarrow> json \<Rightarrow> 'a \<Rightarrow> 'a res) \<Rightarrow> 'a res \<Rightarrow> string \<times> json \<Rightarrow> 'a res" where
  "dec_entry strict names f acc kv =
     (case acc of
        Inl e \<Rightarrow> Inl e
      | Inr a \<Rightarrow>
          (case find_field names (fst kv) of
             None \<Rightarrow> if strict then Inl (unknown_field (fst kv)) else Inr a
           | Some n \<Rightarrow> f n (snd kv) a))"

definition dec_struct ::
  "bool \<Rightarrow> string list \<Rightarrow> (string \<Rightarrow> json \<Rightarrow> 'a \<Rightarrow> 'a res) \<Rightarrow> string \<Rightarrow> json \<Rightarrow> 'a \<Rightarrow> 'a res" where
  "dec_struct strict names f k v old =
     (case v of
        JObj kvs \<Rightarrow> foldl (dec_entry strict names f) (Inr old) (sort_key fst kvs)
      | JNull \<Rightarrow> Inr old
      | _ \<Rightarrow> Inl (mistyped k))"

definition map_res :: "('a \<Rightarrow> 'b) \<Rightarrow> 'a res \<Rightarrow> 'b res" where
  "map_res f r = (case r of Inl e \<Rightarrow> Inl e | Inr a \<Rightarrow> Inr (f a))"

definition protections_field :: "string \<Rightarrow> json \<Rightarrow> protections \<Rightarrow> protections res" where
  "protections_field n v p =
     (if n = ''ads'' then map_res (\<lambda>b. p\<lparr>pt_ads := b\<rparr>) (dec_bool n v (pt_ads p))
      else if n = ''trackers'' then map_res (\<lambda>b. p\<lparr>pt_trackers := b\<rparr>) (dec_bool n v (pt_trackers p))
      else if n = ''malicious'' then map_res (\<lambda>b. p\<lparr>pt_malicious := b\<rparr>) (dec_bool n v (pt_malicious p))
      else map_res (\<lambda>b. p\<lparr>pt_adult := b\<rparr>) (dec_bool n v (pt_adult p)))"

definition expressvpn_field :: "bool \<Rightarrow> string \<Rightarrow> json \<Rightarrow> expressvpn_cfg \<Rightarrow> expressvpn_cfg res" where
  "expressvpn_field strict n v e =
     (if n = ''location'' then map_res (\<lambda>s. e\<lparr>ev_location := s\<rparr>) (dec_string n v (ev_location e))
      else if n = ''protocol'' then map_res (\<lambda>s. e\<lparr>ev_protocol := s\<rparr>) (dec_string n v (ev_protocol e))
      else if n = ''autoconnect'' then map_res (\<lambda>b. e\<lparr>ev_autoconnect := b\<rparr>) (dec_bool n v (ev_autoconnect e))
      else map_res (\<lambda>p. e\<lparr>ev_protections := p\<rparr>)
             (dec_struct strict [''ads'', ''trackers'', ''malicious'', ''adult''] protections_field n v
                (ev_protections e)))"

definition socks5_field :: "string \<Rightarrow> json \<Rightarrow> socks5_cfg \<Rightarrow> socks5_cfg res" where
  "socks5_field n v s =
     (if n = ''host'' then map_res (\<lambda>x. s\<lparr>sk_host := x\<rparr>) (dec_string n v (sk_host s))
      else if n = ''port'' then map_res (\<lambda>x. s\<lparr>sk_port := x\<rparr>) (dec_int n v (sk_port s))
      else if n = ''username'' then map_res (\<lambda>x. s\<lparr>sk_username := x\<rparr>) (dec_string n v (sk_username s))
      else if n = ''password'' then map_res (\<lambda>x. s\<lparr>sk_password := x\<rparr>) (dec_string n v (sk_password s))
      else map_res (\<lambda>x. s\<lparr>sk_udp := x\<rparr>) (dec_string n v (sk_udp s)))"

definition uplink_field :: "bool \<Rightarrow> string \<Rightarrow> json \<Rightarrow> uplink_cfg \<Rightarrow> uplink_cfg res" where
  "uplink_field strict n v u =
     (if n = ''mode'' then map_res (\<lambda>x. u\<lparr>ul_mode := x\<rparr>) (dec_string n v (ul_mode u))
      else map_res (\<lambda>x. u\<lparr>ul_socks5 := x\<rparr>)
             (dec_struct strict [''host'', ''port'', ''username'', ''password'', ''udp''] socks5_field n v
                (ul_socks5 u)))"

definition auth_field :: "string \<Rightarrow> json \<Rightarrow> proxy_auth \<Rightarrow> proxy_auth res" where
  "auth_field n v a =
     (if n = ''username'' then map_res (\<lambda>x. a\<lparr>pa_username := x\<rparr>) (dec_string n v (pa_username a))
      else map_res (\<lambda>x. a\<lparr>pa_password := x\<rparr>) (dec_string n v (pa_password a)))"

text \<open>The pointer \<open>Auth\<close>: \<open>null\<close> makes it nil, an object is decoded into the struct it
  points to, a fresh one if it is nil.\<close>

definition proxy_field :: "bool \<Rightarrow> string \<Rightarrow> json \<Rightarrow> proxy_cfg \<Rightarrow> proxy_cfg res" where
  "proxy_field strict n v p =
     (case v of
        JNull \<Rightarrow> Inr (p\<lparr>pc_auth := None\<rparr>)
      | _ \<Rightarrow> map_res (\<lambda>a. p\<lparr>pc_auth := Some a\<rparr>)
               (dec_struct strict [''username'', ''password''] auth_field n v
                  (case pc_auth p of None \<Rightarrow> zero_auth | Some a \<Rightarrow> a)))"

definition config_field :: "bool \<Rightarrow> string \<Rightarrow> json \<Rightarrow> config \<Rightarrow> config res" where
  "config_field strict n v c =
     (if n = ''expressvpn'' then
        map_res (\<lambda>e. c\<lparr>cf_expressvpn := e\<rparr>)
          (dec_struct strict [''location'', ''protocol'', ''autoconnect'', ''protections'']
             (expressvpn_field strict) n v (cf_expressvpn c))
      else if n = ''uplink'' then
        map_res (\<lambda>u. c\<lparr>cf_uplink := u\<rparr>)
          (dec_struct strict [''mode'', ''socks5''] (uplink_field strict) n v (cf_uplink c))
      else
        map_res (\<lambda>p. c\<lparr>cf_proxy := p\<rparr>)
          (dec_struct strict [''auth''] (proxy_field strict) n v (cf_proxy c)))"

definition decode_config :: "bool \<Rightarrow> json \<Rightarrow> config \<Rightarrow> config res" where
  "decode_config strict v old =
     dec_struct strict [''expressvpn'', ''uplink'', ''proxy''] (config_field strict) [] v old"

lemmas decode_defs = decode_config_def config_field_def proxy_field_def auth_field_def
  uplink_field_def socks5_field_def expressvpn_field_def protections_field_def dec_struct_def
  dec_entry_def map_res_def dec_string_def dec_bool_def dec_int_def find_field_def

end
