(* ===== verification/Config_Store.thy ===== *)
theory Config_Store
  imports Config
begin

text \<open>
  The configuration store (\<open>internal/config/store.go\<close>): loading at the start, JSON merge
  patch (RFC 7386) with the rule that a masked password means "keep", the list of changed
  leaf keys, the atomic save, and \<open>ApplyMergePatch\<close>, which is all or nothing.
\<close>

section \<open>Merge patch\<close>

definition is_password_field :: "string \<Rightarrow> bool" where
  "is_password_field k \<longleftrightarrow> k = ''password''"

definition as_obj :: "json option \<Rightarrow> jobj" where
  "as_obj v = (case v of Some (JObj m) \<Rightarrow> m | _ \<Rightarrow> [])"

fun merge_patch :: "jobj \<Rightarrow> jobj \<Rightarrow> jobj" where
  "merge_patch out [] = out"
| "merge_patch out ((k, JNull) # ps) = merge_patch (del k out) ps"
| "merge_patch out ((k, JObj pm) # ps) =
     merge_patch (put k (JObj (merge_patch (as_obj (map_of out k)) pm)) out) ps"
| "merge_patch out ((k, JStr s) # ps) =
     (if s = mask_str \<and> is_password_field k then merge_patch out ps
      else merge_patch (put k (JStr s) out) ps)"
| "merge_patch out ((k, v) # ps) = merge_patch (put k v out) ps"

section \<open>The changed keys\<close>

lemma size_map_of:
  assumes "map_of m k = Some (JObj am)"
  shows "size_list (size_prod (\<lambda>_. 0) size) am < size_list (size_prod (\<lambda>_. 0) size) m"
  using assms by (induction m) (auto split: if_splits)

function diff_keys :: "string \<Rightarrow> jobj \<Rightarrow> jobj \<Rightarrow> string list" where
  "diff_keys pre a b =
     concat (map (\<lambda>k.
       let path = (if pre \<noteq> [] then pre @ ''.'' @ k else k) in
       (case (map_of a k, map_of b k) of
          (Some (JObj am), Some (JObj bm)) \<Rightarrow> diff_keys path am bm
        | (av, bv) \<Rightarrow> if av \<noteq> bv then [path] else []))
       (remdups (map fst a @ map fst b)))"
  by pat_completeness auto
termination
  by (relation "measure (\<lambda>(pre, a, b). size_list (size_prod (\<lambda>_. 0) size) a)")
    (auto intro: size_map_of)

declare diff_keys.simps [simp del]

section \<open>The store\<close>

record cfg_world = world +
  cw_path :: string
  cw_dir :: string
  cw_cur :: config
  cw_hook :: bool
  cw_notified :: "config list"

text \<open>\<open>json.MarshalIndent(c, "", "  ")\<close>: the struct's fields in their order of declaration.\<close>

definition json_escape :: "char \<Rightarrow> string" where
  "json_escape c =
     (let n = of_char c :: nat; bs = CHR 0x5C in
      if c = dquote \<or> c = bs then [bs, c]
      else if n = 8 then [bs, CHR ''b''] else if n = 9 then [bs, CHR ''t'']
      else if n = 10 then [bs, CHR ''n''] else if n = 12 then [bs, CHR ''f'']
      else if n = 13 then [bs, CHR ''r'']
      else if n < 32 \<or> c = CHR ''<'' \<or> c = CHR ''>'' \<or> c = CHR ''&''
      then bs # ''u00'' @ [hex_digit (n div 16), hex_digit (n mod 16)]
      else [c])"

definition json_string :: "string \<Rightarrow> string" where
  "json_string s = dquote # concat (map json_escape s) @ [dquote]"

definition json_bool :: "bool \<Rightarrow> string" where
  "json_bool b = (if b then ''true'' else ''false'')"

definition json_object :: "string \<Rightarrow> (string \<times> string) list \<Rightarrow> string" where
  "json_object ind kvs =
     ''{'' @ [newline] @
     join_with ('','' @ [newline]) (map (\<lambda>(k, v). ind @ ''  '' @ json_string k @ '': '' @ v) kvs) @
     [newline] @ ind @ ''}''"

definition config_text :: "config \<Rightarrow> string" where
  "config_text c =
     (let e = cf_expressvpn c; p = ev_protections e; u = cf_uplink c; s = ul_socks5 u in
      json_object []
        [(''expressvpn'', json_object ''  ''
            [(''location'', json_string (ev_location e)), (''protocol'', json_string (ev_protocol e)),
             (''autoconnect'', json_bool (ev_autoconnect e)),
             (''protections'', json_object ''    ''
                [(''ads'', json_bool (pt_ads p)), (''trackers'', json_bool (pt_trackers p)),
                 (''malicious'', json_bool (pt_malicious p)), (''adult'', json_bool (pt_adult p))])]),
         (''uplink'', json_object ''  ''
            [(''mode'', json_string (ul_mode u)),
             (''socks5'', json_object ''    ''
                [(''host'', json_string (sk_host s)), (''port'', int_str (sk_port s)),
                 (''username'', json_string (sk_username s)), (''password'', json_string (sk_password s)),
                 (''udp'', json_string (sk_udp s))])]),
         (''proxy'', json_object ''  ''
            [(''auth'', (case pc_auth (cf_proxy c) of
                None \<Rightarrow> ''null''
              | Some a \<Rightarrow> json_object ''    ''
                  [(''username'', json_string (pa_username a)), (''password'', json_string (pa_password a))]))])])"

text \<open>\<open>save\<close>: a fresh temporary file in the directory of the configuration, 0600 before the
  content is written, synced, closed, then renamed over the old file. The temporary name is
  removed on every path (\<open>defer os.Remove\<close>).\<close>

definition save :: "env \<Rightarrow> config \<Rightarrow> ('z cfg_world_scheme, go_error option) state" where
  "save E c = do {
     w \<leftarrow> getw;
     e \<leftarrow> do_fs E ''mkdir'' [cw_dir w, ''0700''];
     (case e of Some m \<Rightarrow> ret (Some (PlainError m)) | None \<Rightarrow> do {
       t \<leftarrow> do_mktemp E;
       (case t of Inl m \<Rightarrow> ret (Some (PlainError m)) | Inr tmp \<Rightarrow> do {
         r \<leftarrow> do {
           e \<leftarrow> do_fs E ''chmod'' [tmp, ''0600''];
           (case e of Some m \<Rightarrow> do { _ \<leftarrow> do_close E tmp; ret (Some (PlainError m)) } | None \<Rightarrow> do {
             e \<leftarrow> do_write E tmp (config_text c @ [newline]);
             (case e of Some m \<Rightarrow> do { _ \<leftarrow> do_close E tmp; ret (Some (PlainError m)) } | None \<Rightarrow> do {
               e \<leftarrow> do_fs E ''sync'' [tmp];
               (case e of Some m \<Rightarrow> do { _ \<leftarrow> do_close E tmp; ret (Some (PlainError m)) } | None \<Rightarrow> do {
                 e \<leftarrow> do_close E tmp;
                 (case e of Some m \<Rightarrow> ret (Some (PlainError m)) | None \<Rightarrow> do {
                   e \<leftarrow> do_fs E ''rename'' [tmp, cw_path w];
                   ret (map_option PlainError e) }) }) }) }) };
         _ \<leftarrow> do_remove tmp;
         ret r }) }) }"

definition body_error :: go_error where
  "body_error = FieldError [] ''body must be a JSON object''"

text \<open>The message of an error value (\<open>Error()\<close>).\<close>

fun err_text :: "go_error \<Rightarrow> string" where
  "err_text (PlainError m) = m"
| "err_text (FieldError f m) = f @ '': '' @ m"
| "err_text (CLIError c m x) = c @ '': '' @ m @ '' (exit '' @ int_str x @ '')''"
| "err_text (ActionError c m) = m"
| "err_text (ConflictError i) = ''conflicting operation '' @ i @ '' is running''"
| "err_text ContextDone = ''context canceled''"
| "err_text Throttled = ''too many attempts''"
| "err_text PasswordSet = ''password already set''"
| "err_text (Wrapped m e) = m @ err_text e"

text \<open>What the patch would make of a configuration: the merged object, the decoded and
  validated result and the changed keys.\<close>

definition patched :: "config \<Rightarrow> jobj \<Rightarrow> config res" where
  "patched c pm =
     (case decode_config True (JObj (merge_patch (config_obj c) pm)) zero_config of
        Inl e \<Rightarrow> Inl (FieldError [] (''unknown or mistyped field: '' @ err_text e))
      | Inr next \<Rightarrow> (case validate next of Some e \<Rightarrow> Inl e | None \<Rightarrow> Inr next))"

definition applied_keys :: "config \<Rightarrow> jobj \<Rightarrow> string list" where
  "applied_keys c pm = sort (diff_keys [] (config_obj c) (merge_patch (config_obj c) pm))"

text \<open>\<open>unmarshal\<close> is the parser of \<open>encoding/json\<close>: \<open>None\<close> for text that is not JSON.\<close>

definition apply_merge_patch ::
  "env \<Rightarrow> (string \<Rightarrow> json option) \<Rightarrow> string \<Rightarrow> ('z cfg_world_scheme, string list res) state" where
  "apply_merge_patch E unmarshal patch =
     (case unmarshal patch of
        Some (JObj pm) \<Rightarrow> do {
          w \<leftarrow> getw;
          (case patched (cw_cur w) pm of
             Inl e \<Rightarrow> ret (Inl e)
           | Inr next \<Rightarrow>
               (let applied = applied_keys (cw_cur w) pm in
                if applied = [] then ret (Inr applied)
                else do {
                  e \<leftarrow> save E next;
                  (case e of
                     Some err \<Rightarrow> ret (Inl err)
                   | None \<Rightarrow> do {
                       modify (\<lambda>w. w\<lparr>cw_cur := next,
                         cw_notified := (if cw_hook w then cw_notified w @ [next] else cw_notified w)\<rparr>);
                       ret (Inr applied) }) })) }
      | _ \<Rightarrow> ret (Inl body_error))"

text \<open>\<open>NewStore\<close>: a missing file gives the defaults, an unreadable, unparsable or invalid one
  an error. The file is decoded over the defaults, unknown keys are ignored.\<close>

datatype file_read = Missing | ReadError string | Content string

definition new_config_store :: "(string \<Rightarrow> json option) \<Rightarrow> string \<Rightarrow> file_read \<Rightarrow> config res" where
  "new_config_store unmarshal path f =
     (let loaded = (case f of
          Missing \<Rightarrow> Inr default_config
        | ReadError m \<Rightarrow> Inl (PlainError m)
        | Content raw \<Rightarrow>
            (case unmarshal raw of
               None \<Rightarrow> Inl (Wrapped (''parse '' @ path @ '': '') (PlainError ''invalid JSON''))
             | Some v \<Rightarrow>
                 (case decode_config False v default_config of
                    Inl e \<Rightarrow> Inl (Wrapped (''parse '' @ path @ '': '') e)
                  | Inr c \<Rightarrow> Inr c)))
      in (case loaded of
            Inl e \<Rightarrow> Inl e
          | Inr c \<Rightarrow> (case validate c of
                        Some e \<Rightarrow> Inl (Wrapped ''stored config invalid: '' e)
                      | None \<Rightarrow> Inr c)))"

section \<open>Facts: objects, decoding, merging\<close>


definition int64_ok :: "int \<Rightarrow> bool" where
  "int64_ok i \<longleftrightarrow> - (2 ^ 63) \<le> i \<and> i < 2 ^ 63"

definition cfg_inv :: "config \<Rightarrow> bool" where
  "cfg_inv c \<longleftrightarrow> valid_config c \<and> int64_ok (sk_port (ul_socks5 (cf_uplink c)))"

lemma keys_sorted_cfg [simp]:
  "keys_sorted [(''ads'', a), (''adult'', b), (''malicious'', c), (''trackers'', d)]"
  "keys_sorted [(''autoconnect'', a), (''location'', b), (''protections'', c), (''protocol'', d)]"
  "keys_sorted [(''host'', a), (''password'', b), (''port'', c), (''udp'', d), (''username'', e)]"
  "keys_sorted [(''mode'', a), (''socks5'', b)]"
  "keys_sorted [(''password'', a), (''username'', b)]"
  "keys_sorted [(''auth'', a)]"
  "keys_sorted [(''expressvpn'', a), (''proxy'', b), (''uplink'', c)]"
  by (simp_all add: less_char_def)

lemma wf_config_obj: "wf_json (JObj (config_obj c))"
  by (simp add: json_defs less_char_def split: option.splits)

lemma dec_protections: 
  "dec_struct s [''ads'', ''trackers'', ''malicious'', ''adult''] protections_field n (protections_json p) q = Inr p"
  by (simp add: decode_defs json_defs keys_sorted_cfg[simplified])

lemma dec_socks5: 
  "int64_ok (sk_port p) \<Longrightarrow> dec_struct s [''host'', ''port'', ''username'', ''password'', ''udp''] socks5_field n (socks5_json p) q = Inr p"
  by (simp add: decode_defs json_defs int64_ok_def keys_sorted_cfg[simplified])

lemma dec_expressvpn:
  "dec_struct s [''location'', ''protocol'', ''autoconnect'', ''protections''] (expressvpn_field s) n
     (expressvpn_json e) q = Inr e"
  by (simp add: dec_struct_def [of s "[''location'', ''protocol'', ''autoconnect'', ''protections'']"]
     dec_entry_def find_field_def expressvpn_json_def expressvpn_field_def dec_protections map_res_def
     dec_string_def dec_bool_def keys_sorted_cfg[simplified])

lemma dec_uplink:
  "int64_ok (sk_port (ul_socks5 u)) \<Longrightarrow>
   dec_struct s [''mode'', ''socks5''] (uplink_field s) n (uplink_json u) q = Inr u"
  by (simp add: dec_struct_def [of s "[''mode'', ''socks5'']"]
     dec_entry_def find_field_def uplink_json_def uplink_field_def dec_socks5 map_res_def
     dec_string_def keys_sorted_cfg[simplified])

lemma dec_proxy:
  "dec_struct s [''auth''] (proxy_field s) n (proxy_json p) q = Inr p"
  by (cases p; cases "pc_auth p") (simp_all add: decode_defs json_defs keys_sorted_cfg[simplified])

lemma dec_config:
  "int64_ok (sk_port (ul_socks5 (cf_uplink c))) \<Longrightarrow>
   decode_config s (JObj (config_obj c)) q = Inr c"
  by (simp add: decode_config_def dec_struct_def [of s "[''expressvpn'', ''uplink'', ''proxy'']"]
     dec_entry_def find_field_def config_obj_def config_field_def dec_expressvpn dec_uplink dec_proxy
     map_res_def keys_sorted_cfg[simplified])

lemma merge_redacted:
  "merge_patch (config_obj c) (config_obj (redacted c)) =
     (if pc_auth (cf_proxy c) = None then put ''proxy'' (JObj []) (config_obj c) else config_obj c)"
  by (cases c; cases "cf_proxy c")
    (simp add: json_defs redacted_def Let_def as_obj_def mask_password_def is_password_field_def
      less_char_def del_def mask_str_def split: option.splits)


lemma wf_obj_Nil [simp]: "wf_obj []"
  by (simp add: wf_obj_def)

lemma wf_obj_Cons: "wf_obj (x # xs) \<Longrightarrow> wf_json (snd x) \<and> wf_obj xs"
  by (simp add: wf_obj_def)

lemma wf_obj_lookup: "wf_obj m \<Longrightarrow> map_of m k = Some v \<Longrightarrow> wf_json v"
  unfolding wf_obj_def by (force dest: map_of_SomeD)

lemma wf_as_obj: "wf_obj m \<Longrightarrow> wf_obj (as_obj (map_of m k))"
  by (auto simp: as_obj_def wf_obj_def [of "[]"] split: option.splits json.splits
      dest!: wf_obj_lookup) (simp_all add: wf_obj_def)

lemma wf_del: "wf_obj m \<Longrightarrow> wf_obj (del k m)"
  using keys_sorted_del [of m k] by (auto simp: del_def wf_obj_def)

lemma wf_put: "wf_obj m \<Longrightarrow> wf_json v \<Longrightarrow> wf_obj (put k v m)"
  using keys_sorted_put [of m k v] entries_put [of k v m] by (auto simp: wf_obj_def)

lemma wf_merge_patch: "wf_obj out \<Longrightarrow> wf_obj ps \<Longrightarrow> wf_obj (merge_patch out ps)"
proof (induction out ps rule: merge_patch.induct)
  case (3 out k pm ps)
  have *: "wf_obj pm" "wf_obj ps" using wf_obj_Cons [OF "3.prems"(2)] by (simp_all add: wf_obj_def)
  have "wf_obj (merge_patch (as_obj (map_of out k)) pm)"
    by (rule "3.IH"(1)) (use "3.prems"(1) * wf_as_obj in auto)
  then have "wf_obj (put k (JObj (merge_patch (as_obj (map_of out k)) pm)) out)"
    using "3.prems"(1) wf_put by (simp add: wf_obj_def [of "merge_patch _ _"])
  with "3.IH"(2) * show ?case by simp
qed (auto dest!: wf_obj_Cons simp: wf_del wf_put)

lemma diff_keys_refl: "diff_keys pre a a = []"
proof -
  have "a = b \<Longrightarrow> diff_keys pre a b = []" for b
  proof (induction pre a b rule: diff_keys.induct)
    case (1 pre a b)
    have "(let path = (if pre \<noteq> [] then pre @ ''.'' @ k else k) in
       (case (map_of a k, map_of b k) of
          (Some (JObj am), Some (JObj bm)) \<Rightarrow> diff_keys path am bm
        | (av, bv) \<Rightarrow> if av \<noteq> bv then [path] else [])) = []"
      if "k \<in> set (remdups (map fst a @ map fst b))" for k
    proof (cases "\<exists>am. map_of a k = Some (JObj am)")
      case True
      then obtain am where am: "map_of a k = Some (JObj am)" by blast
      with "1.prems" have bm: "map_of b k = Some (JObj am)" by simp
      from "1.IH" [OF that refl refl am refl bm refl refl] show ?thesis
        by (simp add: am bm Let_def)
    next
      case False
      with "1.prems" show ?thesis
        by (cases "map_of b k"; cases "the (map_of b k)") auto
    qed
    then show ?case
      by (subst diff_keys.simps) (simp only: concat_eq_Nil_conv set_map ball_simps, blast)
  qed
  then show ?thesis by simp
qed

lemma diff_keys_Nil:
  "diff_keys pre a b = [] \<Longrightarrow> wf_obj a \<Longrightarrow> wf_obj b \<Longrightarrow> a = b"
proof (induction pre a b rule: diff_keys.induct)
  case (1 pre a b)
  have "map_of a k = map_of b k" for k
  proof (cases "k \<in> set (remdups (map fst a @ map fst b))")
    case False
    then show ?thesis by simp (metis map_of_eq_None_iff)
  next
    case True
    from "1.prems"(1) have entry: "(let path = (if pre \<noteq> [] then pre @ ''.'' @ k else k) in
       (case (map_of a k, map_of b k) of
          (Some (JObj am), Some (JObj bm)) \<Rightarrow> diff_keys path am bm
        | (av, bv) \<Rightarrow> if av \<noteq> bv then [path] else [])) = []"
      using True by (subst (asm) diff_keys.simps) (simp only: concat_eq_Nil_conv set_map ball_simps)
    show ?thesis
    proof (cases "\<exists>am bm. map_of a k = Some (JObj am) \<and> map_of b k = Some (JObj bm)")
      case True': True
      then obtain am bm where m: "map_of a k = Some (JObj am)" "map_of b k = Some (JObj bm)" by blast
      have "wf_obj am" "wf_obj bm"
        using wf_obj_lookup m "1.prems"(2,3) by (simp_all add: wf_obj_def [of am] wf_obj_def [of bm] del: wf_json.simps)
      with "1.IH" [OF True refl refl m(1) refl m(2) refl] entry m have "am = bm"
        by simp
      with m show ?thesis by simp
    next
      case False
      with entry show ?thesis
        by (auto simp: Let_def split: option.splits json.splits if_splits)
    qed
  qed
  then have "map_of a = map_of b" by blast
  with "1.prems"(2,3) show ?case
    by (intro keys_sorted_unique) (simp_all add: wf_obj_def)
qed


text \<open>The decoder keeps the port within Go's \<open>int\<close>.\<close>

lemma foldl_dec_inv:
  assumes "\<And>n v a a'. P a \<Longrightarrow> f n v a = Inr a' \<Longrightarrow> P a'"
    and "foldl (dec_entry s names f) r kvs = Inr a'" and "\<And>a. r = Inr a \<Longrightarrow> P a"
  shows "P a'"
  using assms(2,3)
proof (induction kvs arbitrary: r)
  case Nil
  then show ?case by simp
next
  case (Cons kv kvs)
  have "P b" if b: "dec_entry s names f r kv = Inr b" for b
  proof (cases r)
    case (Inl e)
    with b show ?thesis by (simp add: dec_entry_def)
  next
    case (Inr a)
    then have "P a" by (rule Cons.prems(2))
    with b Inr show ?thesis
      using assms(1) [of a _ "snd kv" b]
      by (auto simp: dec_entry_def split: option.splits if_splits)
  qed
  with Cons show ?case by simp
qed

lemma dec_struct_inv:
  assumes "\<And>n v a a'. P a \<Longrightarrow> f n v a = Inr a' \<Longrightarrow> P a'"
    and "dec_struct s names f k v old = Inr a'" and "P old"
  shows "P a'"
proof (cases v)
  case (JObj kvs)
  with assms(2) have "foldl (dec_entry s names f) (Inr old) (sort_key fst kvs) = Inr a'"
    by (simp add: dec_struct_def)
  then show ?thesis
    by (rule foldl_dec_inv [where P = P, OF assms(1), rotated 2]) (use assms(3) in auto)
qed (use assms(2,3) in \<open>auto simp: dec_struct_def\<close>)

lemma map_res_Inr: "map_res f r = Inr b \<longleftrightarrow> (\<exists>a. r = Inr a \<and> b = f a)"
  by (auto simp: map_res_def split: sum.splits)

lemma socks5_field_int64:
  "int64_ok (sk_port a) \<Longrightarrow> socks5_field n v a = Inr a' \<Longrightarrow> int64_ok (sk_port a')"
  by (auto simp: socks5_field_def map_res_Inr dec_int_def int64_ok_def split: if_splits json.splits)

lemmas socks5_struct_int64 =
  dec_struct_inv [where P = "\<lambda>x. int64_ok (sk_port x)", OF socks5_field_int64]

lemma uplink_field_int64:
  "int64_ok (sk_port (ul_socks5 a)) \<Longrightarrow> uplink_field s n v a = Inr a' \<Longrightarrow>
   int64_ok (sk_port (ul_socks5 a'))"
  by (auto simp: uplink_field_def map_res_Inr split: if_splits intro: socks5_struct_int64)

lemmas uplink_struct_int64 =
  dec_struct_inv [where P = "\<lambda>x. int64_ok (sk_port (ul_socks5 x))", OF uplink_field_int64]

lemma config_field_int64:
  "int64_ok (sk_port (ul_socks5 (cf_uplink a))) \<Longrightarrow> config_field s n v a = Inr a' \<Longrightarrow>
   int64_ok (sk_port (ul_socks5 (cf_uplink a')))"
  by (auto simp: config_field_def map_res_Inr split: if_splits intro: uplink_struct_int64)

lemma decode_int64:
  "decode_config s v old = Inr c \<Longrightarrow> int64_ok (sk_port (ul_socks5 (cf_uplink old))) \<Longrightarrow>
   int64_ok (sk_port (ul_socks5 (cf_uplink c)))"
  unfolding decode_config_def
  by (rule dec_struct_inv [where P = "\<lambda>x. int64_ok (sk_port (ul_socks5 (cf_uplink x)))",
        OF config_field_int64])

lemma validate_None [simp]: "valid_config c \<Longrightarrow> validate c = None"
  by (simp add: validate_iff)

lemma patched_inv: "patched c pm = Inr next \<Longrightarrow> cfg_inv next"
  by (auto simp: patched_def cfg_inv_def validate_iff int64_ok_def [of 0] zero_config_def zero_socks5_def
      intro: decode_int64 split: sum.splits option.splits)

lemma patched_error: "patched c pm = Inl e \<Longrightarrow> \<exists>f m. e = FieldError f m"
  by (auto simp: patched_def dest: validate_field_error split: sum.splits option.splits)

lemma patched_unchanged:
  assumes "cfg_inv c" "wf_obj pm" "applied_keys c pm = []"
  shows "patched c pm = Inr c"
proof -
  have "diff_keys [] (config_obj c) (merge_patch (config_obj c) pm) = []"
    using assms(3) by (metis applied_keys_def length_0_conv length_sort)
  then have "merge_patch (config_obj c) pm = config_obj c"
    using diff_keys_Nil assms(2) wf_config_obj wf_merge_patch wf_obj_def by metis
  then show ?thesis
    using assms(1) dec_config by (simp add: patched_def cfg_inv_def validate_iff)
qed

lemma patched_redacted:
  assumes "cfg_inv c"
  shows "patched c (config_obj (redacted c)) = Inr c"
proof -
  have "decode_config True (JObj (put ''proxy'' (JObj []) (config_obj c))) zero_config = Inr c"
    if "pc_auth (cf_proxy c) = None"
    using that assms
    by (cases c; cases "cf_proxy c")
      (simp add: config_obj_def less_char_def decode_config_def cfg_inv_def
        dec_struct_def [of True "[''expressvpn'', ''uplink'', ''proxy'']"]
        dec_struct_def [of True "[''auth'']"]
        dec_entry_def find_field_def config_field_def dec_expressvpn dec_uplink map_res_def zero_config_def)
  then show ?thesis
    using assms dec_config by (auto simp: patched_def merge_redacted cfg_inv_def validate_iff)
qed

lemma applied_redacted:
  "applied_keys c (config_obj (redacted c)) = (if pc_auth (cf_proxy c) = None then [''proxy.auth''] else [])"
proof -
  have "diff_keys [] (config_obj c) (put ''proxy'' (JObj []) (config_obj c)) = [''proxy.auth'']"
    if "pc_auth (cf_proxy c) = None"
    using that
    by (subst diff_keys.simps)
      (simp add: config_obj_def less_char_def Let_def proxy_json_def auth_json_def diff_keys_refl
        expressvpn_json_def uplink_json_def diff_keys.simps [of "''proxy''"])
  then show ?thesis
    by (simp add: applied_keys_def merge_redacted diff_keys_refl)
qed

definition location_patch :: "string \<Rightarrow> jobj" where
  "location_patch l = [(''expressvpn'', JObj [(''location'', JStr l)])]"

definition with_location :: "string \<Rightarrow> config \<Rightarrow> config" where
  "with_location l c = c\<lparr>cf_expressvpn := (cf_expressvpn c)\<lparr>ev_location := l\<rparr>\<rparr>"

lemma merge_location: "merge_patch (config_obj c) (location_patch l) = config_obj (with_location l c)"
  by (simp add: location_patch_def json_defs with_location_def as_obj_def is_password_field_def less_char_def)

lemma valid_with_location: "valid_config (with_location l c) = valid_config c"
  by (simp add: with_location_def valid_config_def)

lemma with_location_port [simp]: "cf_uplink (with_location l c) = cf_uplink c"
  by (simp add: with_location_def)

lemma patched_location:
  "cfg_inv c \<Longrightarrow> patched c (location_patch l) = Inr (with_location l c)"
  by (simp add: patched_def merge_location cfg_inv_def dec_config valid_with_location)

text \<open>The differences of two objects with the same keys are those of their values.\<close>

definition diff_val :: "string \<Rightarrow> json \<Rightarrow> json \<Rightarrow> string list" where
  "diff_val path v w =
     (case (v, w) of (JObj a, JObj b) \<Rightarrow> diff_keys path a b | _ \<Rightarrow> if v \<noteq> w then [path] else [])"

lemma diff_val_same [simp]: "diff_val path v v = []"
  by (cases v) (simp_all add: diff_val_def diff_keys_refl)

lemma diff_val_simps [simp]:
  "diff_val path (JObj a) (JObj b) = diff_keys path a b"
  "diff_val path (JStr x) (JStr y) = (if x = y then [] else [path])"
  by (simp_all add: diff_val_def)

lemma remdups_double: "set xs \<subseteq> set ys \<Longrightarrow> remdups (xs @ ys) = remdups ys"
  by (induction xs) auto

lemma diff_keys_same_keys:
  assumes "distinct (map fst a)" "map fst b = map fst a"
  shows "diff_keys pre a b =
    concat (map (\<lambda>k. diff_val (if pre \<noteq> [] then pre @ ''.'' @ k else k) (the (map_of a k)) (the (map_of b k)))
      (map fst a))"
proof -
  have ks: "remdups (map fst a @ map fst b) = map fst a"
    using assms remdups_double [of "map fst a" "map fst a"] by (simp add: distinct_remdups_id)
  show ?thesis
    unfolding diff_keys.simps [of pre a b] ks
  proof (intro arg_cong [where f = concat] map_cong refl)
    fix k assume k: "k \<in> set (map fst a)"
    then obtain v w where "map_of a k = Some v" "map_of b k = Some w"
      using assms(2) by (metis map_of_eq_None_iff not_None_eq set_map)
    then show "(let path = (if pre \<noteq> [] then pre @ ''.'' @ k else k) in
       (case (map_of a k, map_of b k) of
          (Some (JObj am), Some (JObj bm)) \<Rightarrow> diff_keys path am bm
        | (av, bv) \<Rightarrow> if av \<noteq> bv then [path] else [])) =
       diff_val (if pre \<noteq> [] then pre @ ''.'' @ k else k) (the (map_of a k)) (the (map_of b k))"
      by (cases v; cases w) (simp_all add: diff_val_def Let_def)
  qed
qed

lemma applied_location:
  "applied_keys c (location_patch l) =
     (if ev_location (cf_expressvpn c) = l then [] else [''expressvpn.location''])"
  unfolding applied_keys_def merge_location
  by (simp add: diff_keys_same_keys config_obj_def with_location_def expressvpn_json_def)

section \<open>Facts: saving and applying\<close>

text \<open>Whether a piece of the trace (after \<open>tr\<close>) replaced the file at \<open>path\<close>: a rename onto it
  that succeeded.\<close>

fun replaced :: "env \<Rightarrow> string \<Rightarrow> event list \<Rightarrow> event list \<Rightarrow> bool" where
  "replaced E path tr [] = False"
| "replaced E path tr (e # es) =
     ((case e of
         FsOp op args \<Rightarrow> op = ''rename'' \<and> drop 1 args = [path] \<and> env_fs E tr op args = None
       | _ \<Rightarrow> False)
      \<or> replaced E path (tr @ [e]) es)"

definition save_events :: "config \<Rightarrow> string \<Rightarrow> string \<Rightarrow> string \<Rightarrow> event list" where
  "save_events c dir path tmp =
     [FsOp ''mkdir'' [dir, ''0700''], MkTemp, FsOp ''chmod'' [tmp, ''0600''],
      WriteFile tmp (config_text c @ [newline]), FsOp ''sync'' [tmp], CloseFile tmp,
      FsOp ''rename'' [tmp, path], RemoveFile tmp]"

lemma save_ok:
  assumes "run_state (save E c) w = (None, w')"
  shows "\<exists>tmp. w' = w\<lparr>trace := trace w @ save_events c (cw_dir w) (cw_path w) tmp\<rparr> \<and>
    replaced E (cw_path w) (trace w) (save_events c (cw_dir w) (cw_path w) tmp)"
  using assms by (auto simp: save_def save_events_def split: option.splits sum.splits)

lemma save_fails:
  assumes "run_state (save E c) w = (Some e, w')"
  shows "\<exists>es. w' = w\<lparr>trace := trace w @ es\<rparr> \<and> \<not> replaced E (cw_path w) (trace w) es"
  using assms by (auto simp: save_def split: option.splits sum.splits)

lemma save_extends: "\<exists>es. trace (snd (run_state (save E c) w)) = trace w @ es"
  by (cases "run_state (save E c) w"; cases "fst (run_state (save E c) w)")
    (auto dest: save_ok save_fails)

interpretation save_eff: effectful "save E c" for E c
  by unfold_locales (rule save_extends)

lemma no_effects [simp]: "\<exists>es. w = w\<lparr>trace := trace w @ es\<rparr> \<and> \<not> replaced E p tr es"
  by (rule exI [of _ "[]"]) simp

lemma apply_merge_patch_run:
  assumes "run_state (apply_merge_patch E unmarshal patch) w = (r, w')"
  shows "case r of
      Inl e \<Rightarrow> \<exists>es. w' = w\<lparr>trace := trace w @ es\<rparr> \<and> \<not> replaced E (cw_path w) (trace w) es
    | Inr keys \<Rightarrow> \<exists>pm next. unmarshal patch = Some (JObj pm) \<and> patched (cw_cur w) pm = Inr next \<and>
        keys = applied_keys (cw_cur w) pm \<and>
        (if keys = [] then w' = w
         else \<exists>tmp. w' = w\<lparr>trace := trace w @ save_events next (cw_dir w) (cw_path w) tmp,
                cw_cur := next,
                cw_notified := cw_notified w @ (if cw_hook w then [next] else [])\<rparr> \<and>
              replaced E (cw_path w) (trace w) (save_events next (cw_dir w) (cw_path w) tmp))"
  using assms
  by (auto simp: apply_merge_patch_def Let_def split: option.splits json.splits sum.splits
      prod.splits if_splits dest!: save_ok save_fails)

lemma apply_merge_patch_inv [inv_intros]:
  assumes "run_state (apply_merge_patch E unmarshal patch) w = (r, w')" and "cfg_inv (cw_cur w)"
  shows "cfg_inv (cw_cur w')"
  using apply_merge_patch_run [OF assms(1)] assms(2)
  by (auto dest!: patched_inv split: sum.splits if_splits)

lemma apply_merge_patch_extends:
  "\<exists>es. trace (snd (run_state (apply_merge_patch E unmarshal patch) w)) = trace w @ es"
proof -
  obtain r w' where r: "run_state (apply_merge_patch E unmarshal patch) w = (r, w')" by force
  from apply_merge_patch_run [OF r] show ?thesis
    by (auto simp: r split: sum.splits if_splits)
qed

interpretation patch_eff: effectful "apply_merge_patch E unmarshal patch" for E unmarshal patch
  by unfold_locales (rule apply_merge_patch_extends)

lemma new_config_store_inv:
  "new_config_store unmarshal path f = Inr c \<Longrightarrow> cfg_inv c"
  by (auto simp: new_config_store_def Let_def cfg_inv_def validate_iff default_config_def zero_socks5_def
      int64_ok_def split: file_read.splits option.splits sum.splits
      dest!: decode_int64)

lemma cfg_inv_default: "cfg_inv default_config"
  using valid_default by (simp add: cfg_inv_def int64_ok_def default_config_def zero_socks5_def)

section \<open>Properties\<close>

text \<open>C26: A configuration patch is all or nothing. An error of any kind (not an object, unknown
  or mistyped field, invalid result, a failed write) leaves the configuration, the subscribers
  and the file in place. A success with no changed keys has no effect at all; with changed
  keys the new configuration is written to a temporary file with mode 0600 which replaces the
  file by a successful rename before the memory copy changes and the hook runs.\<close>

theorem patch_all_or_nothing:
  "case run_state (apply_merge_patch E unmarshal patch) w of
     (Inl e, v) \<Rightarrow> \<exists>es. v = w\<lparr>trace := trace w @ es\<rparr> \<and> \<not> replaced E (cw_path w) (trace w) es
   | (Inr keys, v) \<Rightarrow> \<exists>pm next. unmarshal patch = Some (JObj pm) \<and> patched (cw_cur w) pm = Inr next \<and>
        keys = applied_keys (cw_cur w) pm \<and>
        (if keys = [] then v = w
         else \<exists>tmp. v = w\<lparr>trace := trace w @ save_events next (cw_dir w) (cw_path w) tmp,
                cw_cur := next,
                cw_notified := cw_notified w @ (if cw_hook w then [next] else [])\<rparr> \<and>
              replaced E (cw_path w) (trace w) (save_events next (cw_dir w) (cw_path w) tmp))"
proof (cases "run_state (apply_merge_patch E unmarshal patch) w")
  case (Pair r v)
  from apply_merge_patch_run [OF Pair] show ?thesis
    by (simp add: Pair split: sum.splits)
qed

text \<open>C27: The configuration in memory is always valid: loaded at the start from any file, and
  changed by any sequence of patch bodies, with file operations failing anywhere, it satisfies
  what \<open>Validate\<close> checks, and its port is an \<open>int\<close>.\<close>

theorem config_always_valid:
  assumes "new_config_store unmarshal path f = Inr (cw_cur w)"
  shows "validate (cw_cur (snd (run_state (for_each (apply_merge_patch E unmarshal) patches) w))) = None"
proof -
  have "cfg_inv (cw_cur (snd (run_state (for_each (apply_merge_patch E unmarshal) patches) w)))"
    using new_config_store_inv [OF assms]
    by (rule for_each_inv [where P = "\<lambda>w. cfg_inv (cw_cur w)", rotated])
      (auto intro: apply_merge_patch_inv [OF surjective_pairing])
  then show ?thesis by (simp add: cfg_inv_def)
qed

theorem config_always_valid_witness:
  "validate (cw_cur (snd (run_state (for_each
      (apply_merge_patch ok_env (\<lambda>s. if s = ''p'' then Some (JObj (location_patch ''de'')) else None)) [''p'', ''x''])
      \<lparr>trace = [], cw_path = ''/c'', cw_dir = ''/'', cw_cur = default_config, cw_hook = True, cw_notified = []\<rparr>))) = None"
  by (rule config_always_valid [where path = "''/c''" and f = Missing])
    (simp add: new_config_store_def valid_default)



text \<open>Also: The keys reported as applied are exact in one direction: if none is reported, the
  configuration the patch asks for is the present one.\<close>

theorem no_keys_no_change:
  assumes "cfg_inv c" and "wf_obj pm" and "applied_keys c pm = []"
  shows "patched c pm = Inr c"
  using assms by (rule patched_unchanged)

theorem no_keys_no_change_witness: "patched default_config (location_patch []) = Inr default_config"
proof (rule no_keys_no_change [OF cfg_inv_default])
  show "wf_obj (location_patch [])" by (simp add: wf_obj_def location_patch_def)
  show "applied_keys default_config (location_patch []) = []"
    by (simp add: applied_location) (simp add: default_config_def)
qed

text \<open>Also: A patch of the location changes the location and nothing else, and reports exactly
  \<open>expressvpn.location\<close>, or nothing when the location is already the wanted one.\<close>

theorem location_patch_exact:
  assumes "cfg_inv c"
  shows "patched c (location_patch l) = Inr (with_location l c) \<and>
    applied_keys c (location_patch l) =
      (if ev_location (cf_expressvpn c) = l then [] else [''expressvpn.location''])"
  using assms by (simp add: patched_location applied_location)

theorem location_patch_exact_witness:
  "applied_keys default_config (location_patch ''usa'') = [''expressvpn.location'']"
  using location_patch_exact [OF cfg_inv_default, of "''usa''"]
  by (simp add: default_config_def)

end
