(* ===== verification/Killswitch.thy ===== *)
theory Killswitch
  imports Config_Store State_Store Netx
begin

text \<open>
  The kill switch (\<open>internal/killswitch\<close>): the two rule generators (\<open>ruleset.go\<close> for
  nftables, \<open>iptables.go\<close> for kernels without it), as text and as the rule chains the texts
  render, the meaning of a chain (the first rule that matches decides, the policy accepts),
  and the manager that loads the rules and reads the drop counters (\<open>manager.go\<close>).
\<close>

section \<open>Parameters\<close>

definition Mark :: nat where
  "Mark = 0x5050"

record params =
  p_Mode :: string
  p_TunIface :: string
  p_UplinkIface :: string
  p_EthIface :: string
  p_DockerSubnet :: string
  p_ProxyIP :: string
  p_ProxyPort :: int

definition ks_defaults :: params where
  "ks_defaults = \<lparr>p_Mode = [], p_TunIface = ''tun0'', p_UplinkIface = ''xup0'', p_EthIface = ''eth0'',
     p_DockerSubnet = [], p_ProxyIP = [], p_ProxyPort = 0\<rparr>"

definition legacyChain :: string where
  "legacyChain = ''DETOUR_OUT''"

text \<open>The verbs \<open>0x%04x\<close> and \<open>\"%s\"\<close>.\<close>

definition hex4 :: "nat \<Rightarrow> string" where
  "hex4 n = ''0x'' @ map hex_digit [n div 4096 mod 16, n div 256 mod 16, n div 16 mod 16, n mod 16]"

definition quoted :: "string \<Rightarrow> string" where
  "quoted s = dquote # s @ [dquote]"

definition unlines :: "string list \<Rightarrow> string" where
  "unlines ls = concat (map (\<lambda>l. l @ [newline]) ls)"

section \<open>The generated texts\<close>

definition nft_lines :: "params \<Rightarrow> string list" where
  "nft_lines p =
     [''# generated by detour-agent; mode='' @ p_Mode p,
      ''add table inet detour'',
      ''flush table inet detour'',
      [],
      ''table inet detour {'',
      ''  counter dropped_marked {}''] @
     (if p_Mode p = ''socks5'' then [''  counter dropped_egress {}''] else []) @
     [[],
      ''  chain output {'',
      ''    type filter hook output priority filter; policy accept;'',
      ''    oifname '' @ quoted ''lo'' @ '' accept''] @
     (if p_DockerSubnet p \<noteq> [] then
        [''    meta mark '' @ hex4 Mark @ '' oifname '' @ quoted (p_EthIface p) @ '' ip daddr '' @
           p_DockerSubnet p @ '' accept''] else []) @
     [''    meta mark '' @ hex4 Mark @ '' oifname '' @ quoted (p_TunIface p) @ '' accept'',
      ''    meta mark '' @ hex4 Mark @ '' counter name dropped_marked drop''] @
     (if p_Mode p = ''socks5'' then
        (if p_ProxyIP p \<noteq> [] then
           [''    oifname '' @ quoted (p_EthIface p) @ '' ip daddr '' @ p_ProxyIP p @ '' accept''] else []) @
        (if p_DockerSubnet p \<noteq> [] then
           [''    oifname '' @ quoted (p_EthIface p) @ '' ip daddr '' @ p_DockerSubnet p @ '' accept''] else []) @
        [''    oifname '' @ quoted (p_EthIface p) @ '' counter name dropped_egress drop'']
      else []) @
     [''  }'', ''}'']"

definition ruleset :: "params \<Rightarrow> string" where
  "ruleset p = unlines (nft_lines p)"

definition ipt_lines :: "params \<Rightarrow> string list" where
  "ipt_lines p =
     [''*filter'',
      '':'' @ legacyChain @ '' - [0:0]'',
      ''-F '' @ legacyChain,
      ''-A '' @ legacyChain @ '' -o lo -j ACCEPT''] @
     (if p_DockerSubnet p \<noteq> [] then
        [''-A '' @ legacyChain @ '' -m mark --mark '' @ hex4 Mark @ '' -o '' @ p_EthIface p @ '' -d '' @
           p_DockerSubnet p @ '' -j ACCEPT''] else []) @
     [''-A '' @ legacyChain @ '' -m mark --mark '' @ hex4 Mark @ '' -o '' @ p_TunIface p @ '' -j ACCEPT'',
      ''-A '' @ legacyChain @ '' -m mark --mark '' @ hex4 Mark @ '' -j DROP''] @
     (if p_Mode p = ''socks5'' then
        (if p_ProxyIP p \<noteq> [] then
           [''-A '' @ legacyChain @ '' -o '' @ p_EthIface p @ '' -d '' @ p_ProxyIP p @ '' -j ACCEPT''] else []) @
        (if p_DockerSubnet p \<noteq> [] then
           [''-A '' @ legacyChain @ '' -o '' @ p_EthIface p @ '' -d '' @ p_DockerSubnet p @ '' -j ACCEPT''] else []) @
        [''-A '' @ legacyChain @ '' -o '' @ p_EthIface p @ '' -j DROP'']
      else []) @
     [''COMMIT'']"

definition iptables_ruleset :: "params \<Rightarrow> string" where
  "iptables_ruleset p = unlines (ipt_lines p)"

section \<open>Rule chains and their meaning\<close>

text \<open>
  A rule is a list of matches and an action, as both tools have them. How an address
  expression (an address or a CIDR network) matches a destination is the tool's own; it is
  the parameter \<open>net\<close>.
\<close>

datatype fw_match = MarkIs nat | OutIface string | DstNet string

datatype fw_action = Accept | Drop

datatype fw_rule = Rule "fw_match list" fw_action

record 'ip packet =
  pk_mark :: nat
  pk_oif :: string
  pk_dst :: 'ip

fun fw_match_pkt :: "(string \<Rightarrow> 'ip \<Rightarrow> bool) \<Rightarrow> 'ip packet \<Rightarrow> fw_match \<Rightarrow> bool" where
  "fw_match_pkt net pk (MarkIs m) = (pk_mark pk = m)"
| "fw_match_pkt net pk (OutIface i) = (pk_oif pk = i)"
| "fw_match_pkt net pk (DstNet a) = net a (pk_dst pk)"

fun chain_verdict :: "(string \<Rightarrow> 'ip \<Rightarrow> bool) \<Rightarrow> fw_rule list \<Rightarrow> 'ip packet \<Rightarrow> fw_action" where
  "chain_verdict net [] pk = Accept"
| "chain_verdict net (Rule ms a # rs) pk =
     (if list_all (fw_match_pkt net pk) ms then a else chain_verdict net rs pk)"

text \<open>The chain that \<open>Ruleset\<close> writes, statement by statement.\<close>

definition nft_rules :: "params \<Rightarrow> fw_rule list" where
  "nft_rules p =
     [Rule [OutIface ''lo''] Accept] @
     (if p_DockerSubnet p \<noteq> [] then
        [Rule [MarkIs Mark, OutIface (p_EthIface p), DstNet (p_DockerSubnet p)] Accept] else []) @
     [Rule [MarkIs Mark, OutIface (p_TunIface p)] Accept, Rule [MarkIs Mark] Drop] @
     (if p_Mode p = ''socks5'' then
        (if p_ProxyIP p \<noteq> [] then [Rule [OutIface (p_EthIface p), DstNet (p_ProxyIP p)] Accept] else []) @
        (if p_DockerSubnet p \<noteq> [] then [Rule [OutIface (p_EthIface p), DstNet (p_DockerSubnet p)] Accept]
         else []) @
        [Rule [OutIface (p_EthIface p)] Drop]
      else [])"

text \<open>The chain that \<open>IptablesRuleset\<close> writes.\<close>

definition ipt_rules :: "params \<Rightarrow> fw_rule list" where
  "ipt_rules p =
     [Rule [OutIface ''lo''] Accept] @
     (if p_DockerSubnet p \<noteq> [] then
        [Rule [MarkIs Mark, OutIface (p_EthIface p), DstNet (p_DockerSubnet p)] Accept] else []) @
     [Rule [MarkIs Mark, OutIface (p_TunIface p)] Accept, Rule [MarkIs Mark] Drop] @
     (if p_Mode p = ''socks5'' then
        (if p_ProxyIP p \<noteq> [] then [Rule [OutIface (p_EthIface p), DstNet (p_ProxyIP p)] Accept] else []) @
        (if p_DockerSubnet p \<noteq> [] then [Rule [OutIface (p_EthIface p), DstNet (p_DockerSubnet p)] Accept]
         else []) @
        [Rule [OutIface (p_EthIface p)] Drop]
      else [])"

text \<open>The syntax of one rule in each tool; a dropping nftables rule names its counter.\<close>

fun nft_match :: "fw_match \<Rightarrow> string" where
  "nft_match (MarkIs m) = ''meta mark '' @ hex4 m @ '' ''"
| "nft_match (OutIface i) = ''oifname '' @ quoted i @ '' ''"
| "nft_match (DstNet a) = ''ip daddr '' @ a @ '' ''"

fun nft_rule :: "fw_rule \<Rightarrow> string" where
  "nft_rule (Rule ms Accept) = ''    '' @ concat (map nft_match ms) @ ''accept''"
| "nft_rule (Rule ms Drop) = ''    '' @ concat (map nft_match ms) @ ''counter name '' @
     (if ms = [MarkIs Mark] then ''dropped_marked'' else ''dropped_egress'') @ '' drop''"

fun ipt_match :: "fw_match \<Rightarrow> string" where
  "ipt_match (MarkIs m) = ''-m mark --mark '' @ hex4 m @ '' ''"
| "ipt_match (OutIface i) = ''-o '' @ i @ '' ''"
| "ipt_match (DstNet a) = ''-d '' @ a @ '' ''"

fun ipt_rule :: "fw_rule \<Rightarrow> string" where
  "ipt_rule (Rule ms a) = ''-A '' @ legacyChain @ '' '' @ concat (map ipt_match ms) @ ''-j '' @
     (case a of Accept \<Rightarrow> ''ACCEPT'' | Drop \<Rightarrow> ''DROP'')"

definition nft_header :: "params \<Rightarrow> string list" where
  "nft_header p =
     [''# generated by detour-agent; mode='' @ p_Mode p, ''add table inet detour'',
      ''flush table inet detour'', [], ''table inet detour {'', ''  counter dropped_marked {}''] @
     (if p_Mode p = ''socks5'' then [''  counter dropped_egress {}''] else []) @
     [[], ''  chain output {'', ''    type filter hook output priority filter; policy accept;'']"

lemma nft_lines_render: "nft_lines p = nft_header p @ map nft_rule (nft_rules p) @ [''  }'', ''}'']"
  by (simp add: nft_lines_def nft_header_def nft_rules_def)

lemma ipt_lines_render:
  "ipt_lines p =
     [''*filter'', '':'' @ legacyChain @ '' - [0:0]'', ''-F '' @ legacyChain] @
     map ipt_rule (ipt_rules p) @ [''COMMIT'']"
  by (simp add: ipt_lines_def ipt_rules_def)

definition nft_verdict :: "(string \<Rightarrow> 'ip \<Rightarrow> bool) \<Rightarrow> params \<Rightarrow> 'ip packet \<Rightarrow> fw_action" where
  "nft_verdict net p pk = chain_verdict net (nft_rules p) pk"

definition ipt_verdict :: "(string \<Rightarrow> 'ip \<Rightarrow> bool) \<Rightarrow> params \<Rightarrow> 'ip packet \<Rightarrow> fw_action" where
  "ipt_verdict net p pk = chain_verdict net (ipt_rules p) pk"

section \<open>What a packet filter promises\<close>

text \<open>
  The contract of the kill switch, whatever the tool: loopback is free; a marked packet
  leaves only through the tunnel, or to the Docker subnet through the container's interface;
  with a SOCKS5 uplink, an unmarked one leaves through the container's interface only to the
  proxy or to the Docker subnet; everything else passes.
\<close>

definition to_docker :: "(string \<Rightarrow> 'ip \<Rightarrow> bool) \<Rightarrow> params \<Rightarrow> 'ip packet \<Rightarrow> bool" where
  "to_docker net p pk \<longleftrightarrow>
     p_DockerSubnet p \<noteq> [] \<and> pk_oif pk = p_EthIface p \<and> net (p_DockerSubnet p) (pk_dst pk)"

definition to_proxy :: "(string \<Rightarrow> 'ip \<Rightarrow> bool) \<Rightarrow> params \<Rightarrow> 'ip packet \<Rightarrow> bool" where
  "to_proxy net p pk \<longleftrightarrow>
     p_ProxyIP p \<noteq> [] \<and> pk_oif pk = p_EthIface p \<and> net (p_ProxyIP p) (pk_dst pk)"

definition policy :: "(string \<Rightarrow> 'ip \<Rightarrow> bool) \<Rightarrow> params \<Rightarrow> 'ip packet \<Rightarrow> fw_action" where
  "policy net p pk =
     (if pk_oif pk = ''lo'' then Accept
      else if pk_mark pk = Mark then
        (if pk_oif pk = p_TunIface p \<or> to_docker net p pk then Accept else Drop)
      else if p_Mode p = ''socks5'' \<and> pk_oif pk = p_EthIface p then
        (if to_proxy net p pk \<or> to_docker net p pk then Accept else Drop)
      else Accept)"

locale packet_filter =
  fixes verdict :: "(string \<Rightarrow> 'ip \<Rightarrow> bool) \<Rightarrow> params \<Rightarrow> 'ip packet \<Rightarrow> fw_action"
  assumes loopback: "pk_oif pk = ''lo'' \<Longrightarrow> verdict net p pk = Accept"
    and marked: "pk_oif pk \<noteq> ''lo'' \<Longrightarrow> pk_mark pk = Mark \<Longrightarrow>
      verdict net p pk = Accept \<longleftrightarrow> pk_oif pk = p_TunIface p \<or> to_docker net p pk"
    and egress: "pk_oif pk \<noteq> ''lo'' \<Longrightarrow> pk_mark pk \<noteq> Mark \<Longrightarrow>
      verdict net p pk = Accept \<longleftrightarrow> (p_Mode p = ''socks5'' \<and> pk_oif pk = p_EthIface p \<longrightarrow>
        to_proxy net p pk \<or> to_docker net p pk)"
begin

lemma is_policy: "verdict net p pk = policy net p pk"
  using loopback [of pk net p] marked [of pk net p] egress [of pk net p]
  by (cases "verdict net p pk") (auto simp: policy_def)

lemma no_leak:
  "verdict net p pk = Accept \<Longrightarrow> pk_mark pk = Mark \<Longrightarrow>
   pk_oif pk = ''lo'' \<or> pk_oif pk = p_TunIface p \<or>
   (pk_oif pk = p_EthIface p \<and> net (p_DockerSubnet p) (pk_dst pk))"
  using marked [of pk net p] by (auto simp: to_docker_def)

lemma proxy_only:
  "verdict net p pk = Accept \<Longrightarrow> p_Mode p = ''socks5'' \<Longrightarrow> pk_oif pk = p_EthIface p \<Longrightarrow>
   p_EthIface p \<noteq> ''lo'' \<Longrightarrow> p_EthIface p \<noteq> p_TunIface p \<Longrightarrow>
   to_proxy net p pk \<or> to_docker net p pk"
  using marked [of pk net p] egress [of pk net p] by (cases "pk_mark pk = Mark") auto

end

lemma nft_is_ipt: "nft_rules p = ipt_rules p"
  by (simp add: nft_rules_def ipt_rules_def)

lemma chain_policy: "chain_verdict net (nft_rules p) pk = policy net p pk"
  by (auto simp: nft_rules_def policy_def to_docker_def to_proxy_def)

interpretation nft: packet_filter nft_verdict
  by unfold_locales (simp_all add: nft_verdict_def chain_policy policy_def)

interpretation ipt: packet_filter ipt_verdict
  by unfold_locales (simp_all add: ipt_verdict_def nft_is_ipt [symmetric] chain_policy policy_def)

section \<open>The manager\<close>

record ks_world = net_world +
  ks_params :: params
  ks_backend :: string
  ks_legacyLogged :: bool

definition octets :: "32 word \<Rightarrow> ip" where
  "octets a = map (\<lambda>i. ucast (drop_bit i a)) [24, 16, 8, 0]"

definition network_of :: "32 word \<Rightarrow> nat \<Rightarrow> 32 word" where
  "network_of a n = and a (push_bit (32 - n) (mask n))"

fun subnet_of :: "if_addr list \<Rightarrow> string option" where
  "subnet_of [] = None"
| "subnet_of (IPv4Net a n # r) = Some (dotted (octets (network_of a n)) @ ''/'' @ nat_digits n)"
| "subnet_of (OtherAddr # r) = subnet_of r"

definition dockerSubnet :: "env \<Rightarrow> string \<Rightarrow> ('z world_scheme, string res) state" where
  "dockerSubnet E iface = do {
     r \<leftarrow> do_addrs E iface;
     ret (case r of Inl e \<Rightarrow> Inl (PlainError e)
        | Inr as \<Rightarrow> (case subnet_of as of Some s \<Rightarrow> Inr s
            | None \<Rightarrow> Inl (PlainError (''no IPv4 address on '' @ iface))))
   }"

text \<open>The frame of \<open>applyNFT\<close> and \<open>applyIptables\<close>: a temporary file is written and closed,
  the tool loads it, the file is removed in every case.\<close>

definition with_temp_file ::
  "env \<Rightarrow> string \<Rightarrow> (string \<Rightarrow> ('z world_scheme, go_error option) state) \<Rightarrow>
   ('z world_scheme, go_error option) state" where
  "with_temp_file E content load = do {
     t \<leftarrow> do_mktemp E;
     (case t of Inl e \<Rightarrow> ret (Some (PlainError e))
      | Inr name \<Rightarrow> do {
          we \<leftarrow> do_write E name content;
          r \<leftarrow> (case we of
                 Some e \<Rightarrow> do { _ \<leftarrow> do_close E name; ret (Some (PlainError e)) }
               | None \<Rightarrow> do {
                   ce \<leftarrow> do_close E name;
                   (case ce of Some e \<Rightarrow> ret (Some (PlainError e)) | None \<Rightarrow> load name)
                 });
          do_remove name;
          ret r
        })
   }"

definition applyNFT :: "env \<Rightarrow> params \<Rightarrow> ('z world_scheme, go_error option) state" where
  "applyNFT E p = with_temp_file E (ruleset p) (\<lambda>name. do {
     r \<leftarrow> do_exec E ''nft'' [''-f'', name];
     ret (case rr_err r of
         Some e \<Rightarrow> Some (Wrapped ''run nft: '' (PlainError e))
       | None \<Rightarrow> if rr_exit r \<noteq> 0
           then Some (PlainError (''nft -f failed (exit '' @ int_str (rr_exit r) @ ''): '' @ trim_space (rr_out r)))
           else None)
   })"

definition insertJump :: "env \<Rightarrow> ('z world_scheme, go_error option) state" where
  "insertJump E = do {
     r \<leftarrow> do_exec E ''iptables-legacy'' [''-C'', ''OUTPUT'', ''-j'', legacyChain];
     (case rr_err r of
        Some e \<Rightarrow> ret (Some (PlainError e))
      | None \<Rightarrow>
          if rr_exit r \<noteq> 0 then do {
            q \<leftarrow> do_exec E ''iptables-legacy'' [''-I'', ''OUTPUT'', ''1'', ''-j'', legacyChain];
            ret (if rr_err q \<noteq> None \<or> rr_exit q \<noteq> 0
                 then Some (PlainError (''insert OUTPUT jump failed (exit '' @ int_str (rr_exit q) @ ''): '' @
                   trim_space (rr_out q) @ '', '' @ (case rr_err q of None \<Rightarrow> ''<nil>'' | Some e \<Rightarrow> e)))
                 else None)
          } else ret None)
   }"

definition applyIptables :: "env \<Rightarrow> params \<Rightarrow> ('z world_scheme, go_error option) state" where
  "applyIptables E p = with_temp_file E (iptables_ruleset p) (\<lambda>name. do {
     r \<leftarrow> do_exec E ''iptables-legacy-restore'' [''--noflush'', name];
     (case rr_err r of
         Some e \<Rightarrow> ret (Some (Wrapped ''run iptables-legacy-restore: '' (PlainError e)))
       | None \<Rightarrow> if rr_exit r \<noteq> 0
           then ret (Some (PlainError (''iptables-legacy-restore failed (exit '' @ int_str (rr_exit r) @
             ''): '' @ trim_space (rr_out r))))
           else insertJump E)
   })"

definition apply_failed :: "go_error \<Rightarrow> go_error \<Rightarrow> go_error" where
  "apply_failed e le = Wrapped (''nft failed ('' @ err_text e @ ''); iptables fallback failed: '') le"

text \<open>The second half of \<open>Apply\<close>: nftables, else the fallback; only a success is recorded.\<close>

definition load_params :: "env \<Rightarrow> params \<Rightarrow> ('z ks_world_scheme, go_error option) state" where
  "load_params E p = do {
          ne \<leftarrow> applyNFT E p;
          (case ne of
             None \<Rightarrow> do {
               modify (\<lambda>w. w\<lparr>ks_backend := ''nft'', ks_params := p\<rparr>);
               ret None
             }
           | Some e \<Rightarrow> do {
               le \<leftarrow> applyIptables E p;
               (case le of
                  Some l \<Rightarrow> ret (Some (apply_failed e l))
                | None \<Rightarrow> do {
                    modify (\<lambda>w. w\<lparr>ks_legacyLogged := True, ks_backend := ''iptables'', ks_params := p\<rparr>);
                    ret None
                  })
             })
        }"

definition ks_apply ::
  "env \<Rightarrow> (string \<Rightarrow> ('z ks_world_scheme, string res) state) \<Rightarrow> uplink_cfg \<Rightarrow>
   ('z ks_world_scheme, go_error option) state" where
  "ks_apply E resolve cfg = do {
     w \<leftarrow> getw;
     sub \<leftarrow> dockerSubnet E (p_EthIface (ks_params w));
     let p = (ks_params w)\<lparr>p_Mode := ul_mode cfg\<rparr>;
     let p = (case sub of Inr s \<Rightarrow> p\<lparr>p_DockerSubnet := s\<rparr> | Inl _ \<Rightarrow> p);
     r \<leftarrow> (if ul_mode cfg = ''socks5'' then do {
              ip \<leftarrow> resolve (sk_host (ul_socks5 cfg));
              ret (case ip of
                  Inl e \<Rightarrow> Inl (Wrapped (''resolve proxy host '' @ go_quote (sk_host (ul_socks5 cfg)) @ '': '') e)
                | Inr a \<Rightarrow> Inr (p\<lparr>p_ProxyIP := a, p_ProxyPort := sk_port (ul_socks5 cfg)\<rparr>))
            } else ret (Inr p));
     (case r of Inl e \<Rightarrow> ret (Some e) | Inr p \<Rightarrow> load_params E p)
   }"

section \<open>The drop counters\<close>

text \<open>\<open>FindAllStringSubmatch\<close> of \<open>packets\s+(\d+)\<close>: the digits of each match, from left to
  right, without overlaps.\<close>

definition re_space :: "char \<Rightarrow> bool" where
  "re_space c \<longleftrightarrow> c \<in> {CHR 0x09, CHR 0x0A, CHR 0x0C, CHR 0x0D, CHR '' ''}"

definition match_count :: "string \<Rightarrow> (string \<times> string) option" where
  "match_count s = (case cut_prefix ''packets'' s of
     None \<Rightarrow> None
   | Some r \<Rightarrow> (let t = dropWhile re_space r; ds = takeWhile is_digit t in
       if t = r \<or> ds = [] then None else Some (ds, dropWhile is_digit t)))"

lemma match_count_shorter:
  assumes "match_count s = Some (ds, r)" shows "length r < length s"
proof -
  from assms obtain u where u: "cut_prefix ''packets'' s = Some u"
    and r: "r = dropWhile is_digit (dropWhile re_space u)"
    by (auto simp: match_count_def Let_def split: option.splits if_splits)
  from u have "length u < length s"
    by (auto simp: cut_prefix_def prefix_def split: if_splits)
  moreover have "length r \<le> length u"
    unfolding r by (meson le_trans length_dropWhile_le)
  ultimately show ?thesis by simp
qed

function find_counts :: "string \<Rightarrow> string list" where
  "find_counts [] = []"
| "find_counts (c # s) = (case match_count (c # s) of
     Some (ds, r) \<Rightarrow> ds # find_counts r
   | None \<Rightarrow> find_counts s)"
  by pat_completeness auto
termination
  by (relation "measure length") (auto dest: match_count_shorter)

text \<open>\<open>n, _ := strconv.ParseInt(s, 10, 64)\<close> on digits: out of range gives the largest value.\<close>

definition saturated :: "string \<Rightarrow> 64 word" where
  "saturated ds = (case parse_int ds of Some n \<Rightarrow> of_int n | None \<Rightarrow> of_int (2 ^ 63 - 1))"

definition droppedIptables :: "env \<Rightarrow> ('z world_scheme, 64 word res) state" where
  "droppedIptables E = do {
     r \<leftarrow> do_exec E ''iptables-legacy'' [''-L'', legacyChain, ''-v'', ''-x'', ''-n''];
     ret (if rr_err r \<noteq> None \<or> rr_exit r \<noteq> 0
       then Inl (PlainError (''iptables -L: exit '' @ int_str (rr_exit r) @ '', '' @
         (case rr_err r of None \<Rightarrow> ''<nil>'' | Some e \<Rightarrow> e)))
       else Inr (foldl (\<lambda>total line. let f = str_fields line in
           if 3 \<le> length f \<and> f ! 2 = ''DROP''
           then (case parse_int (f ! 0) of Some n \<Rightarrow> total + of_int n | None \<Rightarrow> total)
           else total) 0 (split_on newline (rr_out r))))
   }"

definition dropped :: "env \<Rightarrow> ('z ks_world_scheme, 64 word res) state" where
  "dropped E = do {
     w \<leftarrow> getw;
     (if ks_backend w = ''iptables'' then droppedIptables E
      else do {
        r \<leftarrow> do_exec E ''nft'' [''list'', ''counters'', ''table'', ''inet'', ''detour''];
        ret (if rr_err r \<noteq> None \<or> rr_exit r \<noteq> 0
          then Inl (PlainError (''nft list counters: exit '' @ int_str (rr_exit r) @ '', '' @
            (case rr_err r of None \<Rightarrow> ''<nil>'' | Some e \<Rightarrow> e)))
          else Inr (foldl (\<lambda>total ds. total + saturated ds) 0 (find_counts (rr_out r))))
      })
   }"

text \<open>\<open>PollCounters\<close>, at most \<open>n\<close> ticks: the loop ends when the context does.\<close>

fun pollCounters ::
  "nat \<Rightarrow> env \<Rightarrow> int \<Rightarrow> snapshot store \<Rightarrow> ('z ks_world_scheme, snapshot store) state" where
  "pollCounters 0 E interval st = ret st"
| "pollCounters (Suc n) E interval st = do {
     over \<leftarrow> do_sleep E interval;
     (if over then ret st
      else if \<not> k_active (s_killswitch (store_get st)) then pollCounters n E interval st
      else do {
        r \<leftarrow> dropped E;
        pollCounters n E interval (case r of
            Inr d \<Rightarrow> update (\<lambda>s. s\<lparr>s_killswitch := (s_killswitch s)\<lparr>k_dropped := d\<rparr>\<rparr>) st
          | Inl _ \<Rightarrow> st)
      })
   }"

section \<open>What loading the rules does\<close>

definition nft_load :: "string \<Rightarrow> params \<Rightarrow> event list" where
  "nft_load name p = [MkTemp, WriteFile name (ruleset p), CloseFile name]"

definition ipt_load :: "string \<Rightarrow> params \<Rightarrow> event list" where
  "ipt_load name p = [MkTemp, WriteFile name (iptables_ruleset p), CloseFile name]"


lemma with_temp_file_only [ext_intros]:
  "(\<And>n. only_effects (load n)) \<Longrightarrow> only_effects (with_temp_file E c load)"
  unfolding with_temp_file_def by (intro ext_intros)

lemma applyNFT_only [ext_intros]: "only_effects (applyNFT E p)"
  unfolding applyNFT_def by (intro ext_intros)

lemma insertJump_only [ext_intros]: "only_effects (insertJump E)"
  unfolding insertJump_def by (intro ext_intros)

lemma applyIptables_only [ext_intros]: "only_effects (applyIptables E p)"
  unfolding applyIptables_def by (intro ext_intros)

lemma dockerSubnet_only [ext_intros]: "only_effects (dockerSubnet E i)"
  unfolding dockerSubnet_def by (intro ext_intros)

lemma applyNFT_ok:
  assumes "run_state (applyNFT E p) w = (None, v)"
  shows "\<exists>name. exec_took E (trace w @ nft_load name p) (Exec ''nft'' [''-f'', name]) \<and>
    v = w\<lparr>trace := trace w @ nft_load name p @ [Exec ''nft'' [''-f'', name], RemoveFile name]\<rparr>"
  using assms
  by (auto simp: applyNFT_def with_temp_file_def nft_load_def
      split: sum.splits option.splits if_splits)

definition jump_check :: event where
  "jump_check = Exec ''iptables-legacy'' [''-C'', ''OUTPUT'', ''-j'', legacyChain]"

definition jump_insert :: event where
  "jump_insert = Exec ''iptables-legacy'' [''-I'', ''OUTPUT'', ''1'', ''-j'', legacyChain]"

definition hooked :: "env \<Rightarrow> event list \<Rightarrow> event list \<Rightarrow> bool" where
  "hooked E h es \<longleftrightarrow> es = [jump_check] \<and> exec_took E h jump_check \<or>
     es = [jump_check, jump_insert] \<and> exec_took E (h @ [jump_check]) jump_insert"

lemma insertJump_ok:
  assumes "run_state (insertJump E) w = (None, v)"
  shows "\<exists>es. v = w\<lparr>trace := trace w @ es\<rparr> \<and> hooked E (trace w) es"
proof (cases "exec_took E (trace w) jump_check")
  case True
  with assms show ?thesis
    by (intro exI [of _ "[jump_check]"]) (simp add: insertJump_def jump_check_def hooked_def)
next
  case False
  with assms show ?thesis
    by (intro exI [of _ "[jump_check, jump_insert]"])
      (auto simp: insertJump_def jump_check_def jump_insert_def hooked_def split: option.splits if_splits)
qed

lemma applyIptables_ok:
  assumes "run_state (applyIptables E p) w = (None, v)"
  shows "\<exists>name es. exec_took E (trace w @ ipt_load name p) (Exec ''iptables-legacy-restore'' [''--noflush'', name]) \<and>
    hooked E (trace w @ ipt_load name p @ [Exec ''iptables-legacy-restore'' [''--noflush'', name]]) es \<and>
    v = w\<lparr>trace := trace w @ ipt_load name p @ Exec ''iptables-legacy-restore'' [''--noflush'', name] # es @
      [RemoveFile name]\<rparr>"
proof -
  obtain name where name: "env_mktemp E (trace w) = Inr name"
    using assms by (auto simp: applyIptables_def with_temp_file_def split: sum.splits)
  let ?w = "w\<lparr>trace := trace w @ ipt_load name p @ [Exec ''iptables-legacy-restore'' [''--noflush'', name]]\<rparr>"
  obtain u where "run_state (insertJump E) ?w = (None, u)"
    and v: "v = u\<lparr>trace := trace u @ [RemoveFile name]\<rparr>"
    and "exec_took E (trace w @ ipt_load name p) (Exec ''iptables-legacy-restore'' [''--noflush'', name])"
    using assms name
    by (auto simp: applyIptables_def with_temp_file_def ipt_load_def
        split: sum.splits option.splits if_splits prod.splits)
  with insertJump_ok [of E ?w u] show ?thesis
    by (intro exI [of _ name]) auto
qed

definition loaded :: "env \<Rightarrow> params \<Rightarrow> string \<Rightarrow> event list \<Rightarrow> bool" where
  "loaded E p backend tr \<longleftrightarrow>
     (if backend = ''nft'' then \<exists>h name. exec_took E (h @ nft_load name p) (Exec ''nft'' [''-f'', name]) \<and>
         tr = h @ nft_load name p @ [Exec ''nft'' [''-f'', name], RemoveFile name]
      else \<exists>h name es. backend = ''iptables'' \<and>
         exec_took E (h @ ipt_load name p) (Exec ''iptables-legacy-restore'' [''--noflush'', name]) \<and>
         hooked E (h @ ipt_load name p @ [Exec ''iptables-legacy-restore'' [''--noflush'', name]]) es \<and>
         tr = h @ ipt_load name p @ Exec ''iptables-legacy-restore'' [''--noflush'', name] # es @ [RemoveFile name])"

definition params_for :: "uplink_cfg \<Rightarrow> params \<Rightarrow> params \<Rightarrow> bool" where
  "params_for cfg p p' \<longleftrightarrow> p_Mode p' = ul_mode cfg \<and> p_TunIface p' = p_TunIface p \<and>
     p_EthIface p' = p_EthIface p \<and> p_UplinkIface p' = p_UplinkIface p \<and>
     (ul_mode cfg = ''socks5'' \<longrightarrow> p_ProxyPort p' = sk_port (ul_socks5 cfg))"

lemma load_params_run:
  assumes "run_state (load_params E p) w = (r, v)"
  shows "(case r of None \<Rightarrow> ks_params v = p \<and> loaded E p (ks_backend v) (trace v)
     | Some e \<Rightarrow> \<exists>es. v = w\<lparr>trace := trace w @ es\<rparr>)"
proof -
  obtain ne u where nft: "run_state (applyNFT E p) w = (ne, u)" by (cases "run_state (applyNFT E p) w")
  obtain es where u: "u = w\<lparr>trace := trace w @ es\<rparr>"
    using applyNFT_only nft by (rule only_run)
  show ?thesis
  proof (cases ne)
    case None
    with applyNFT_ok [of E p w u] nft assms show ?thesis
      by (auto simp: load_params_def loaded_def)
  next
    case (Some e)
    obtain le t where ipt: "run_state (applyIptables E p) u = (le, t)" by (cases "run_state (applyIptables E p) u")
    obtain fs where t: "t = u\<lparr>trace := trace u @ fs\<rparr>"
      using applyIptables_only ipt by (rule only_run)
    show ?thesis
    proof (cases le)
      case None
      with applyIptables_ok [of E p u t] nft ipt assms Some show ?thesis
        by (auto simp: load_params_def loaded_def) blast
    next
      case (Some l)
      with assms nft ipt \<open>ne = Some e\<close> u t show ?thesis
        by (auto simp: load_params_def intro: exI [of _ "es @ fs"])
    qed
  qed
qed

lemma ks_apply_run:
  assumes run: "run_state (ks_apply E resolve cfg) w = (r, v)"
    and only: "\<And>h. only_effects (resolve h)"
  shows "(case r of
       None \<Rightarrow> params_for cfg (ks_params w) (ks_params v) \<and> loaded E (ks_params v) (ks_backend v) (trace v)
     | Some e \<Rightarrow> \<exists>es. v = w\<lparr>trace := trace w @ es\<rparr>)"
proof -
  let ?eth = "p_EthIface (ks_params w)"
  obtain sub u where sub: "run_state (dockerSubnet E ?eth) w = (sub, u)"
    by (cases "run_state (dockerSubnet E ?eth) w")
  obtain es where u: "u = w\<lparr>trace := trace w @ es\<rparr>"
    using dockerSubnet_only sub by (rule only_run)
  define p where "p = (let p = (ks_params w)\<lparr>p_Mode := ul_mode cfg\<rparr> in
    (case sub of Inr s \<Rightarrow> p\<lparr>p_DockerSubnet := s\<rparr> | Inl _ \<Rightarrow> p))"
  obtain ip t where ip: "run_state (resolve (sk_host (ul_socks5 cfg))) u = (ip, t)"
    by (cases "run_state (resolve (sk_host (ul_socks5 cfg))) u")
  obtain fs where t: "t = u\<lparr>trace := trace u @ fs\<rparr>"
    using only ip by (rule only_run)
  define q where "q = (if ul_mode cfg = ''socks5'' then (case ip of
                  Inl e \<Rightarrow> Inl (Wrapped (''resolve proxy host '' @ go_quote (sk_host (ul_socks5 cfg)) @ '': '') e)
                | Inr a \<Rightarrow> Inr (p\<lparr>p_ProxyIP := a, p_ProxyPort := sk_port (ul_socks5 cfg)\<rparr>)) else Inr p)"
  define s where "s = (if ul_mode cfg = ''socks5'' then t else u)"
  have s: "\<exists>es. s = w\<lparr>trace := trace w @ es\<rparr>"
    by (auto simp: s_def u t)
  have ks: "run_state (case q of Inl e \<Rightarrow> ret (Some e) | Inr p \<Rightarrow> load_params E p) s = (r, v)"
    using run sub ip unfolding p_def q_def s_def ks_apply_def Let_def by (simp split: if_splits)
  show ?thesis
  proof (cases q)
    case (Inl e)
    with ks s show ?thesis by auto
  next
    case (Inr p')
    have "params_for cfg (ks_params w) p'"
      using Inr by (auto simp: q_def p_def params_for_def Let_def split: sum.splits if_splits)
    with load_params_run [of E p' s r v] ks Inr s show ?thesis
      by (auto split: option.splits)
  qed
qed

lemma dropped_only [ext_intros]: "only_effects (dropped E)"
  unfolding dropped_def droppedIptables_def by (intro ext_intros)

definition poll_kept :: "snapshot store \<Rightarrow> snapshot store \<Rightarrow> bool" where
  "poll_kept st st' \<longleftrightarrow> (store_inv st \<longrightarrow> store_inv st') \<and>
     (\<exists>k. store_get st' = store_get st\<lparr>s_killswitch := (s_killswitch (store_get st))\<lparr>k_dropped := k\<rparr>\<rparr>) \<and>
     (\<not> k_active (s_killswitch (store_get st)) \<longrightarrow> st' = st)"

lemma poll_kept_refl: "poll_kept st st"
  by (auto simp: poll_kept_def intro: exI [of _ "k_dropped (s_killswitch (store_get st))"])

lemma poll_kept_update:
  assumes "k_active (s_killswitch (store_get st))"
    and "poll_kept (update (\<lambda>s. s\<lparr>s_killswitch := (s_killswitch s)\<lparr>k_dropped := d\<rparr>\<rparr>) st) st'"
  shows "poll_kept st st'"
  using assms by (auto simp: poll_kept_def store_get_def intro: store_inv_update)

lemma poll_keeps: "poll_kept st (fst (run_state (pollCounters n E d st) w))"
proof (induction n arbitrary: st w)
  case (Suc n)
  show ?case
    using Suc.IH poll_kept_update [of st]
    by (auto simp: poll_kept_refl split: prod.split sum.split)
qed (simp add: poll_kept_refl)

section \<open>Properties\<close>

text \<open>C3: The kill switch does not leak. Whichever backend loaded the rules, a packet with the
  proxy's mark that the chain accepts leaves over loopback, through the VPN tunnel, or to the
  Docker subnet through the container's interface.\<close>

theorem killswitch_no_leak:
  assumes "nft_verdict net p pk = Accept \<or> ipt_verdict net p pk = Accept" and "pk_mark pk = Mark"
  shows "pk_oif pk = ''lo'' \<or> pk_oif pk = p_TunIface p \<or>
    (pk_oif pk = p_EthIface p \<and> net (p_DockerSubnet p) (pk_dst pk))"
  using assms nft.no_leak ipt.no_leak by blast

theorem killswitch_no_leak_witness:
  "pk_oif \<lparr>pk_mark = Mark, pk_oif = ''tun0'', pk_dst = (0::nat)\<rparr> = p_TunIface ks_defaults"
  using killswitch_no_leak [of "\<lambda>_ _. False" ks_defaults "\<lparr>pk_mark = Mark, pk_oif = ''tun0'', pk_dst = (0::nat)\<rparr>"]
  by (simp add: nft_verdict_def nft_rules_def ks_defaults_def)

text \<open>Also: With a SOCKS5 uplink nothing, marked or not, leaves through the container's interface
  except to the configured proxy or to the Docker subnet, under either backend.\<close>

theorem killswitch_proxy_only:
  assumes "nft_verdict net p pk = Accept \<or> ipt_verdict net p pk = Accept"
    and "p_Mode p = ''socks5''" and "pk_oif pk = p_EthIface p"
    and "p_EthIface p \<noteq> ''lo''" and "p_EthIface p \<noteq> p_TunIface p"
  shows "(p_ProxyIP p \<noteq> [] \<and> net (p_ProxyIP p) (pk_dst pk)) \<or>
    (p_DockerSubnet p \<noteq> [] \<and> net (p_DockerSubnet p) (pk_dst pk))"
  using assms nft.proxy_only [of net p pk] ipt.proxy_only [of net p pk]
  by (auto simp: to_proxy_def to_docker_def)

definition socks_params :: params where
  "socks_params = ks_defaults\<lparr>p_Mode := ''socks5'', p_ProxyIP := ''10.0.0.9''\<rparr>"

theorem killswitch_proxy_only_witness:
  "p_ProxyIP socks_params \<noteq> [] \<and> (''10.0.0.9'' = p_ProxyIP socks_params)"
  using killswitch_proxy_only [of "(=)" socks_params
      "\<lparr>pk_mark = 0, pk_oif = ''eth0'', pk_dst = ''10.0.0.9''\<rparr>"]
  by (simp add: nft_verdict_def nft_rules_def socks_params_def ks_defaults_def Mark_def)

text \<open>C33: The two backends enforce the same policy: every packet gets the same verdict from the
  nftables chain and from the iptables chain, the one of the abstract policy.\<close>

theorem backends_agree: "nft_verdict net p pk = policy net p pk \<and> ipt_verdict net p pk = policy net p pk"
  by (simp add: nft.is_policy ipt.is_policy)

text \<open>Also: The generated texts say what the chains mean: line by line, \<open>Ruleset\<close> is the header
  that replaces the table atomically, the rules of the chain in nft's syntax and the closing
  braces; \<open>IptablesRuleset\<close> is the same for \<open>iptables-restore\<close>.\<close>

theorem rulesets_render:
  "ruleset p = unlines (nft_header p @ map nft_rule (nft_rules p) @ [''  }'', ''}'']) \<and>
   iptables_ruleset p = unlines ([''*filter'', '':'' @ legacyChain @ '' - [0:0]'', ''-F '' @ legacyChain] @
     map ipt_rule (ipt_rules p) @ [''COMMIT''])"
  by (simp only: ruleset_def iptables_ruleset_def nft_lines_render ipt_lines_render)

text \<open>C28: \<open>Apply\<close> is honest about what is loaded. If it returns no error, the manager's
  parameters are those of the new uplink and the last thing done was the successful load of
  exactly their rule set, by nft, or by iptables-legacy-restore followed by a jump from
  OUTPUT; if it fails, parameters, backend and log flag are as before.\<close>

theorem apply_loads_rules:
  "case run_state (ks_apply E (resolveIPv4 E) cfg) w of
     (None, v) \<Rightarrow> params_for cfg (ks_params w) (ks_params v) \<and>
       loaded E (ks_params v) (ks_backend v) (trace v)
   | (Some e, v) \<Rightarrow> \<exists>es. v = w\<lparr>trace := trace w @ es\<rparr>"
proof (cases "run_state (ks_apply E (resolveIPv4 E) cfg) w")
  case (Pair r v)
  from ks_apply_run [OF Pair resolve_only] show ?thesis
    by (simp add: Pair split: option.splits)
qed

end
