(* ===== verification/Socks5.thy ===== *)
theory Socks5
  imports Resolver Config Killswitch
begin

text \<open>
  The SOCKS5 server's side of one TCP connection (\<open>internal/proxy/socks5.go\<close> and the
  \<open>handle\<close> functions of \<open>server.go\<close>): method selection, RFC 1929 authentication, the request,
  the reply, \<open>CONNECT\<close> and \<open>UDP ASSOCIATE\<close>; the marked dialer and the tunnel's resolver.
  A connection is the bytes the client sends before it closes or the deadline passes, the
  bytes written so far, and how many further writes succeed.
\<close>

section \<open>Constants and addresses\<close>

definition repSuccess :: byte where "repSuccess = 0x00"
definition repGeneralFailure :: byte where "repGeneralFailure = 0x01"
definition repNetworkUnreachable :: byte where "repNetworkUnreachable = 0x03"
definition repHostUnreachable :: byte where "repHostUnreachable = 0x04"
definition repCommandUnsupported :: byte where "repCommandUnsupported = 0x07"
definition repAddrUnsupported :: byte where "repAddrUnsupported = 0x08"
definition cmdConnect :: byte where "cmdConnect = 0x01"
definition cmdUDPAssociate :: byte where "cmdUDPAssociate = 0x03"
definition atypIPv4 :: byte where "atypIPv4 = 0x01"
definition atypDomain :: byte where "atypDomain = 0x03"
definition atypIPv6 :: byte where "atypIPv6 = 0x04"
definition methodNoAuth :: byte where "methodNoAuth = 0x00"
definition methodUserPass :: byte where "methodUserPass = 0x02"
definition methodUnacceptable :: byte where "methodUnacceptable = 0xFF"

lemmas socks_consts = repSuccess_def repGeneralFailure_def repNetworkUnreachable_def
  repHostUnreachable_def repCommandUnsupported_def repAddrUnsupported_def cmdConnect_def
  cmdUDPAssociate_def atypIPv4_def atypDomain_def atypIPv6_def methodNoAuth_def
  methodUserPass_def methodUnacceptable_def

record addrSpec =
  a_Host :: string
  a_IP :: ip
  a_Port :: nat

definition addr_string :: "addrSpec \<Rightarrow> string" where
  "addr_string a = join_host_port (if a_Host a = [] then ip_string (a_IP a) else a_Host a)
     (nat_digits (a_Port a))"

text \<open>Go strings are their bytes.\<close>

definition bytes_of :: "string \<Rightarrow> byte list" where
  "bytes_of s = map (\<lambda>c. of_nat (of_char c)) s"

definition string_of :: "byte list \<Rightarrow> string" where
  "string_of bs = map (\<lambda>b. char_of (unat b)) bs"

definition be16 :: "byte list \<Rightarrow> nat" where
  "be16 bs = 256 * unat (bs ! 0) + unat (bs ! 1)"

definition put_be16 :: "nat \<Rightarrow> byte list" where
  "put_be16 n = [of_nat (n div 256 mod 256), of_nat (n mod 256)]"

section \<open>The connection\<close>

text \<open>The server's counters (\<open>atomic.Int64\<close>) are shared by its connections.\<close>

record srv_world = tr_world +
  sv_active :: "64 word"
  sv_bytesIn :: "64 word"
  sv_bytesOut :: "64 word"
  sv_dirty :: bool

record socks_world = srv_world +
  sw_in :: "byte list"
  sw_out :: "byte list"
  sw_writes :: nat

definition eof :: go_error where
  "eof = PlainError ''EOF''"

definition read_full :: "nat \<Rightarrow> ('z socks_world_scheme, byte list res) state" where
  "read_full n = do {
     w \<leftarrow> getw;
     (if n \<le> length (sw_in w)
      then do { modify (\<lambda>w. w\<lparr>sw_in := drop n (sw_in w)\<rparr>); ret (Inr (take n (sw_in w))) }
      else do { modify (\<lambda>w. w\<lparr>sw_in := []\<rparr>); ret (Inl eof) })
   }"

definition conn_write :: "byte list \<Rightarrow> ('z socks_world_scheme, unit res) state" where
  "conn_write bs = do {
     w \<leftarrow> getw;
     (case sw_writes w of
        0 \<Rightarrow> ret (Inl (PlainError ''broken pipe''))
      | Suc k \<Rightarrow> do { modify (\<lambda>w. w\<lparr>sw_out := sw_out w @ bs, sw_writes := k\<rparr>); ret (Inr ()) })
   }"

section \<open>Handshake\<close>

definition verifyUserPass :: "string \<Rightarrow> string \<Rightarrow> ('z socks_world_scheme, unit res) state" where
  "verifyUserPass username password =
     attempt (read_full 2) (\<lambda>hdr.
     if hdr ! 0 \<noteq> 0x01 then ret (Inl (PlainError (''bad userpass version '' @ nat_digits (unat (hdr ! 0)))))
     else
     attempt (read_full (unat (hdr ! 1))) (\<lambda>uname.
     attempt (read_full 1) (\<lambda>plen.
     attempt (read_full (unat (plen ! 0))) (\<lambda>passwd.
     if string_of uname \<noteq> username \<or> string_of passwd \<noteq> password
     then do { _ \<leftarrow> conn_write [0x01, 0x01]; ret (Inl (PlainError ''bad credentials'')) }
     else conn_write [0x01, 0x00]))))"

definition readHandshake :: "proxy_auth option \<Rightarrow> ('z socks_world_scheme, unit res) state" where
  "readHandshake auth =
     attempt (read_full 2) (\<lambda>hdr.
     if hdr ! 0 \<noteq> 0x05
     then ret (Inl (PlainError (''not a SOCKS5 client (ver='' @ nat_digits (unat (hdr ! 0)) @ '')'')))
     else
     attempt (read_full (unat (hdr ! 1))) (\<lambda>methods.
     let want = (if auth \<noteq> None then methodUserPass else methodNoAuth) in
     if want \<in> set methods then
       attempt (conn_write [0x05, want]) (\<lambda>_.
         (case auth of Some a \<Rightarrow> verifyUserPass (pa_username a) (pa_password a) | None \<Rightarrow> ret (Inr ())))
     else do {
       _ \<leftarrow> conn_write [0x05, methodUnacceptable];
       ret (Inl (PlainError ''no acceptable auth methods''))
     }))"

section \<open>Request and reply\<close>

definition errUnsupportedAddr :: go_error where
  "errUnsupportedAddr = PlainError ''unsupported address type''"

definition readAddr :: "byte \<Rightarrow> ('z socks_world_scheme, addrSpec res) state" where
  "readAddr atyp =
     (if atyp = atypIPv4 then
        attempt (read_full 6) (\<lambda>buf. ret (Inr \<lparr>a_Host = [], a_IP = take 4 buf, a_Port = be16 (drop 4 buf)\<rparr>))
      else if atyp = atypIPv6 then
        attempt (read_full 18) (\<lambda>buf. ret (Inr \<lparr>a_Host = [], a_IP = take 16 buf, a_Port = be16 (drop 16 buf)\<rparr>))
      else if atyp = atypDomain then
        attempt (read_full 1) (\<lambda>l.
        attempt (read_full (unat (l ! 0) + 2)) (\<lambda>buf.
          ret (Inr \<lparr>a_Host = string_of (take (unat (l ! 0)) buf), a_IP = [],
                   a_Port = be16 (drop (unat (l ! 0)) buf)\<rparr>)))
      else ret (Inl errUnsupportedAddr))"

definition readRequest :: "('z socks_world_scheme, (byte \<times> addrSpec) res) state" where
  "readRequest =
     attempt (read_full 4) (\<lambda>hdr.
     if hdr ! 0 \<noteq> 0x05
     then ret (Inl (PlainError (''bad request version '' @ nat_digits (unat (hdr ! 0)))))
     else attempt (readAddr (hdr ! 3)) (\<lambda>addr. ret (Inr (hdr ! 1, addr))))"

text \<open>\<open>bnd\<close> is the bound address, \<open>None\<close> for \<open>nil\<close>; an IP that is neither of 4 nor of 16 bytes
  has no \<open>To16\<close> and is written as nothing.\<close>

definition reply_bytes :: "byte \<Rightarrow> (ip \<times> nat) option \<Rightarrow> byte list" where
  "reply_bytes rep bnd =
     (let (ip, port) = (case bnd of Some (i, p) \<Rightarrow> (i, p) | None \<Rightarrow> (v4_prefix @ [0, 0, 0, 0], 0)) in
      (case to4 ip of
         Some raw \<Rightarrow> [0x05, rep, 0x00, atypIPv4] @ raw
       | None \<Rightarrow> [0x05, rep, 0x00, atypIPv6] @ (case to16 ip of Some raw \<Rightarrow> raw | None \<Rightarrow> []))
      @ put_be16 port)"

definition writeReply :: "byte \<Rightarrow> (ip \<times> nat) option \<Rightarrow> ('z socks_world_scheme, unit res) state" where
  "writeReply rep bnd = conn_write (reply_bytes rep bnd)"

section \<open>Serving a connection\<close>

definition srv_resolve ::
  "(string \<Rightarrow> ('z, ip res) state) \<Rightarrow> addrSpec \<Rightarrow> ('z, string res) state" where
  "srv_resolve resolver a =
     (if a_Host a = [] then ret (Inr (addr_string a))
      else attempt (resolver (a_Host a)) (\<lambda>ip.
        ret (Inr (join_host_port (ip_string ip) (nat_digits (a_Port a))))))"

text \<open>\<open>copyCount(out, conn)\<close>: of what the client still sends, the target takes \<open>n\<close> bytes.\<close>

definition copy_in :: "nat \<Rightarrow> ('z socks_world_scheme, unit) state" where
  "copy_in n = modify (\<lambda>w. w\<lparr>sw_in := [],
     sv_bytesIn := sv_bytesIn w + of_nat (min n (length (sw_in w))), sv_dirty := True\<rparr>)"

text \<open>\<open>copyCount(conn, out)\<close>: the target's data in the chunks of \<open>io.Copy\<close>, until a write to the
  client fails.\<close>

fun copy_chunks :: "byte list list \<Rightarrow> ('z socks_world_scheme, nat) state" where
  "copy_chunks [] = ret 0"
| "copy_chunks (c # cs) = do {
     r \<leftarrow> conn_write c;
     (case r of Inl _ \<Rightarrow> ret 0
      | Inr _ \<Rightarrow> do { n \<leftarrow> copy_chunks cs; ret (length c + n) })
   }"

definition copy_out :: "byte list list \<Rightarrow> ('z socks_world_scheme, unit) state" where
  "copy_out chunks = do {
     n \<leftarrow> copy_chunks chunks;
     modify (\<lambda>w. w\<lparr>sv_bytesOut := sv_bytesOut w + of_nat n, sv_dirty := True\<rparr>)
   }"

text \<open>The settings and the surroundings of one connection: what \<open>authFn\<close> and \<open>gate\<close> return,
  the mark of the dialer, the relay's port if it runs, the published port, and the peer of a
  proxied connection.\<close>

record server_cfg =
  sc_auth :: "proxy_auth option"
  sc_gate :: bool
  sc_mark :: nat
  sc_udpPort :: "nat option"
  sc_publishedPort :: nat
  sc_accepts :: nat
  sc_sends :: "byte list list"

definition handleConnect :: "env \<Rightarrow> server_cfg \<Rightarrow> addrSpec \<Rightarrow> ('z socks_world_scheme, unit) state" where
  "handleConnect E S addr =
     (if \<not> sc_gate S then do { _ \<leftarrow> writeReply repNetworkUnreachable None; ret () }
      else do {
        t \<leftarrow> srv_resolve (tr_resolve E (sc_mark S)) addr;
        (case t of
           Inl _ \<Rightarrow> do { _ \<leftarrow> writeReply repHostUnreachable None; ret () }
         | Inr target \<Rightarrow> do {
             d \<leftarrow> do_mdial E (sc_mark S) ''tcp'' target;
             (case d of
                Inl _ \<Rightarrow> do { _ \<leftarrow> writeReply repNetworkUnreachable None; ret () }
              | Inr local \<Rightarrow> do {
                  r \<leftarrow> writeReply repSuccess (Some local);
                  (case r of
                     Inl _ \<Rightarrow> ret ()
                   | Inr _ \<Rightarrow> do {
                       modify (\<lambda>w. w\<lparr>sv_active := sv_active w + 1, sv_dirty := True\<rparr>);
                       copy_in (sc_accepts S);
                       copy_out (sc_sends S);
                       modify (\<lambda>w. w\<lparr>sv_active := sv_active w - 1, sv_dirty := True\<rparr>)
                     })
                })
           })
      })"

definition handleUDPAssociate :: "server_cfg \<Rightarrow> ('z socks_world_scheme, unit) state" where
  "handleUDPAssociate S =
     (if \<not> sc_gate S then do { _ \<leftarrow> writeReply repNetworkUnreachable None; ret () }
      else (case sc_udpPort S of
          None \<Rightarrow> do { _ \<leftarrow> writeReply repGeneralFailure None; ret () }
        | Some own \<Rightarrow> do {
            r \<leftarrow> writeReply repSuccess (Some (v4_prefix @ [0, 0, 0, 0],
              if sc_publishedPort S = 0 then own else sc_publishedPort S));
            (case r of
               Inl _ \<Rightarrow> ret ()
             | Inr _ \<Rightarrow> modify (\<lambda>w. w\<lparr>sw_in := []\<rparr>))
          }))"

definition handle :: "env \<Rightarrow> server_cfg \<Rightarrow> ('z socks_world_scheme, unit) state" where
  "handle E S = do {
     h \<leftarrow> readHandshake (sc_auth S);
     (case h of
        Inl _ \<Rightarrow> ret ()
      | Inr _ \<Rightarrow> do {
          q \<leftarrow> readRequest;
          (case q of
             Inl e \<Rightarrow> if e = errUnsupportedAddr
                 then do { _ \<leftarrow> writeReply repAddrUnsupported None; ret () } else ret ()
           | Inr (cmd, addr) \<Rightarrow>
               if cmd = cmdConnect then handleConnect E S addr
               else if cmd = cmdUDPAssociate then handleUDPAssociate S
               else do { _ \<leftarrow> writeReply repCommandUnsupported None; ret () })
        })
   }"

section \<open>Publishing the counters\<close>

text \<open>\<open>publishStats\<close>, at most \<open>n\<close> ticks of a second; \<open>dirty.Swap(false)\<close> makes an unchanged tick
  silent.\<close>

fun publishStats :: "nat \<Rightarrow> env \<Rightarrow> snapshot store \<Rightarrow> ('z srv_world_scheme, snapshot store) state" where
  "publishStats 0 E st = ret st"
| "publishStats (Suc n) E st = do {
     over \<leftarrow> do_sleep E 1000000000;
     (if over then ret st
      else do {
        w \<leftarrow> getw;
        modify (\<lambda>w. w\<lparr>sv_dirty := False\<rparr>);
        (if \<not> sv_dirty w then publishStats n E st
         else publishStats n E (update (\<lambda>s. s\<lparr>s_proxy := (s_proxy s)\<lparr>px_bytesIn := sv_bytesIn w,
           px_bytesOut := sv_bytesOut w, px_activeConns := sv_active w\<rparr>\<rparr>) st))
      })
   }"

section \<open>Facts\<close>

lemma read_full_ok:
  "run_state (read_full n) w = (Inr bs, v) \<longleftrightarrow>
     length bs = n \<and> (\<exists>rest. sw_in w = bs @ rest \<and> v = w\<lparr>sw_in := rest\<rparr>)"
  by (auto simp: read_full_def) (metis append_take_drop_id)

lemma read_full_err:
  "run_state (read_full n) w = (Inl e, v) \<longleftrightarrow> length (sw_in w) < n \<and> e = eof \<and> v = w\<lparr>sw_in := []\<rparr>"
  by (auto simp: read_full_def)

lemma read_full_app [simp]:
  "n \<le> length (sw_in w) \<Longrightarrow> run_state (read_full n) w = (Inr (take n (sw_in w)), w\<lparr>sw_in := drop n (sw_in w)\<rparr>)"
  by (simp add: read_full_def)

lemma conn_write_run:
  "run_state (conn_write bs) w = (case sw_writes w of
     0 \<Rightarrow> (Inl (PlainError ''broken pipe''), w)
   | Suc k \<Rightarrow> (Inr (), w\<lparr>sw_out := sw_out w @ bs, sw_writes := k\<rparr>))"
  by (simp add: conn_write_def split: nat.split)

lemma conn_write_Suc [simp]:
  "sw_writes w = Suc k \<Longrightarrow> run_state (conn_write bs) w = (Inr (), w\<lparr>sw_out := sw_out w @ bs, sw_writes := k\<rparr>)"
  by (simp add: conn_write_run)

definition hello :: "byte list \<Rightarrow> byte list" where
  "hello ms = 0x05 # of_nat (length ms) # ms"

definition userpass :: "byte list \<Rightarrow> byte list \<Rightarrow> byte list" where
  "userpass u p = [0x01, of_nat (length u)] @ u @ of_nat (length p) # p"

lemma pair_list: "length xs = 2 \<Longrightarrow> xs = [xs ! 0, xs ! 1]"
  by (cases xs; cases "tl xs") auto

lemma single_list: "length xs = 1 \<Longrightarrow> xs = [xs ! 0]"
  by (cases xs) auto

lemma of_nat_unat_byte [simp]: "(of_nat (unat b) :: byte) = b"
  by simp

lemma conn_write_ok: "run_state (conn_write bs) w = (Inr (), v) \<longleftrightarrow>
   (\<exists>k. sw_writes w = Suc k \<and> v = w\<lparr>sw_out := sw_out w @ bs, sw_writes := k\<rparr>)"
  by (auto simp: conn_write_run split: nat.splits)

lemma conn_write_kept:
  "run_state (conn_write bs) w = (r, v) \<Longrightarrow> sw_in v = sw_in w"
  "run_state (conn_write bs) w = (r, v) \<Longrightarrow> trace v = trace w"
  by (auto simp: conn_write_run split: nat.splits)

lemma byte_less [simp]: "unat (b :: byte) < 256"
  using unsigned_less [of b, where ?'a = nat] by simp

lemma verifyUserPass_ok:
  assumes "run_state (verifyUserPass un pw) w = (Inr (), v)"
  shows "\<exists>u p rest. sw_in w = userpass u p @ rest \<and> length u < 256 \<and> length p < 256 \<and> string_of u = un \<and> string_of p = pw \<and>
    sw_in v = rest \<and> trace v = trace w"
proof -
  from assms obtain hdr uname plen passwd rest where
    "sw_in w = hdr @ uname @ plen @ passwd @ rest" "length hdr = 2" "hdr ! 0 = 1"
    "length uname = unat (hdr ! 1)" "length plen = 1" "length passwd = unat (plen ! 0)"
    "string_of uname = un" "string_of passwd = pw" "sw_in v = rest" "trace v = trace w"
    by (auto simp: verifyUserPass_def attempt_ok read_full_ok conn_write_ok split: if_splits prod.splits)
  then show ?thesis
    using pair_list [of hdr] single_list [of plen]
    by (intro exI [of _ uname] exI [of _ passwd] exI [of _ rest]) (simp add: userpass_def)
qed

lemma readHandshake_ok:
  assumes "run_state (readHandshake auth) w = (Inr (), v)"
  shows "\<exists>ms rest. sw_in w = hello ms @ rest \<and> trace v = trace w \<and>
    (case auth of
       None \<Rightarrow> methodNoAuth \<in> set ms \<and> sw_in v = rest
     | Some a \<Rightarrow> methodUserPass \<in> set ms \<and> (\<exists>u p. rest = userpass u p @ sw_in v \<and> length u < 256 \<and> length p < 256 \<and>
         string_of u = pa_username a \<and> string_of p = pa_password a))"
proof -
  let ?want = "if auth \<noteq> None then methodUserPass else methodNoAuth"
  from assms obtain hdr u1 where h: "run_state (read_full 2) w = (Inr hdr, u1)" and "hdr ! 0 = 5"
    and 1: "run_state (attempt (read_full (unat (hdr ! 1))) (\<lambda>methods.
     let want = ?want in
     if want \<in> set methods then
       attempt (conn_write [0x05, want]) (\<lambda>_.
         (case auth of Some a \<Rightarrow> verifyUserPass (pa_username a) (pa_password a) | None \<Rightarrow> ret (Inr ())))
     else do {
       _ \<leftarrow> conn_write [0x05, methodUnacceptable];
       ret (Inl (PlainError ''no acceptable auth methods''))
     })) u1 = (Inr (), v)"
    unfolding readHandshake_def attempt_ok [of "read_full 2"] by (auto split: if_splits)
  then obtain ms u2 where m: "run_state (read_full (unat (hdr ! 1))) u1 = (Inr ms, u2)"
    and w: "?want \<in> set ms"
    and 2: "run_state (attempt (conn_write [0x05, ?want]) (\<lambda>_.
         (case auth of Some a \<Rightarrow> verifyUserPass (pa_username a) (pa_password a) | None \<Rightarrow> ret (Inr ())))) u2 = (Inr (), v)"
    unfolding attempt_ok [of "read_full (unat (hdr ! 1))"] Let_def by (auto split: if_splits prod.splits)
  from 2 obtain u where u: "sw_in u = sw_in u2" "trace u = trace u2"
    and 3: "run_state (case auth of Some a \<Rightarrow> verifyUserPass (pa_username a) (pa_password a) | None \<Rightarrow> ret (Inr ())) u = (Inr (), v)"
    unfolding attempt_ok using conn_write_kept by blast
  have in_w: "sw_in w = hello ms @ sw_in u2" and tr: "trace u2 = trace w"
    using h m pair_list [of hdr] \<open>hdr ! 0 = 5\<close> by (auto simp: read_full_ok hello_def)
  have "trace v = trace w \<and> (case auth of
       None \<Rightarrow> methodNoAuth \<in> set ms \<and> sw_in v = sw_in u2
     | Some a \<Rightarrow> methodUserPass \<in> set ms \<and> (\<exists>u p. sw_in u2 = userpass u p @ sw_in v \<and> length u < 256 \<and> length p < 256 \<and>
         string_of u = pa_username a \<and> string_of p = pa_password a))"
    using tr u 3 w by (auto split: option.splits dest!: verifyUserPass_ok) metis
  with in_w show ?thesis by blast
qed

text \<open>Nothing of the handshake or the request touches the network or the counters.\<close>

definition quiet :: "('z socks_world_scheme, 'a) state \<Rightarrow> bool" where
  "quiet m \<longleftrightarrow> (\<forall>w. trace (snd (run_state m w)) = trace w \<and> sv_active (snd (run_state m w)) = sv_active w \<and>
     sv_bytesIn (snd (run_state m w)) = sv_bytesIn w \<and> sv_bytesOut (snd (run_state m w)) = sv_bytesOut w)"

named_theorems quiet_intros \<open>composition rules for \<open>quiet\<close>\<close>

lemma quiet_bind [quiet_intros]:
  "quiet m \<Longrightarrow> (\<And>x. quiet (f x)) \<Longrightarrow> quiet (m \<bind> f)"
  by (auto simp: quiet_def split: prod.splits) (metis snd_conv)+

lemma quiet_basic [quiet_intros]:
  "quiet (ret x)" "quiet (read_full n)" "quiet (conn_write bs)" "quiet (writeReply r b)"
  "quiet (modify (\<lambda>w. w\<lparr>sw_in := i\<rparr>))"
  by (auto simp: quiet_def read_full_def conn_write_run writeReply_def split: nat.split)

lemma quiet_cases [quiet_intros]:
  "(c \<Longrightarrow> quiet a) \<Longrightarrow> (\<not> c \<Longrightarrow> quiet b) \<Longrightarrow> quiet (if c then a else b)"
  "quiet a \<Longrightarrow> (\<And>x. quiet (f x)) \<Longrightarrow> quiet (case_option a f r)"
  "(\<And>x. quiet (g x)) \<Longrightarrow> (\<And>x. quiet (h x)) \<Longrightarrow> quiet (case_sum g h s)"
  "(\<And>x y. quiet (k x y)) \<Longrightarrow> quiet (case_prod k p)"
  by (auto split: option.split sum.split prod.split)

lemma quiet_attempt [quiet_intros]: "quiet m \<Longrightarrow> (\<And>x. quiet (f x)) \<Longrightarrow> quiet (attempt m f)"
  unfolding attempt_def by (intro quiet_intros)

lemma quiet_handshake [quiet_intros]: "quiet (readHandshake auth)"
  unfolding readHandshake_def verifyUserPass_def Let_def by (intro quiet_intros)

lemma quiet_request [quiet_intros]: "quiet readRequest"
  unfolding readRequest_def readAddr_def by (intro quiet_intros)

lemma quiet_udp [quiet_intros]: "quiet (handleUDPAssociate S)"
  unfolding handleUDPAssociate_def by (intro quiet_intros)

lemma quiet_closed: "\<not> sc_gate S \<Longrightarrow> quiet (handle E S)"
  unfolding handle_def handleConnect_def by (intro quiet_intros) auto


lemma unat_of_nat_byte [simp]: "n < 256 \<Longrightarrow> unat (of_nat n :: byte) = n"
  by (simp add: unat_of_nat take_bit_nat_eq_self)

lemma string_of_bytes_of [simp]: "string_of (bytes_of s) = s"
  by (induction s) (simp_all add: string_of_def bytes_of_def)

lemma length_bytes_of [simp]: "length (bytes_of s) = length s"
  by (simp add: bytes_of_def)

lemma handshake_accepts:
  assumes "sw_in w = hello ms @ userpass (bytes_of (pa_username a)) (bytes_of (pa_password a)) @ rest"
    and "length ms < 256" "length (pa_username a) < 256" "length (pa_password a) < 256"
    and "methodUserPass \<in> set ms" and "sw_writes w = Suc (Suc k)"
  shows "run_state (readHandshake (Some a)) w =
    (Inr (), w\<lparr>sw_in := rest, sw_out := sw_out w @ [5, methodUserPass, 1, 0], sw_writes := k\<rparr>)"
  using assms
  by (simp add: readHandshake_def verifyUserPass_def hello_def userpass_def run_attempt Let_def)

definition request_bytes :: "byte \<Rightarrow> byte \<Rightarrow> addrSpec \<Rightarrow> byte list" where
  "request_bytes cmd rsv a = [5, cmd, rsv] @
     (if a_Host a \<noteq> [] then [atypDomain, of_nat (length (a_Host a))] @ bytes_of (a_Host a)
      else if length (a_IP a) = 4 then atypIPv4 # a_IP a else atypIPv6 # a_IP a) @ put_be16 (a_Port a)"

definition wf_addr :: "addrSpec \<Rightarrow> bool" where
  "wf_addr a \<longleftrightarrow> a_Port a < 65536 \<and>
     (if a_Host a \<noteq> [] then length (a_Host a) < 256 \<and> a_IP a = [] else length (a_IP a) \<in> {4, 16})"

lemma be16_put [simp]: "n < 65536 \<Longrightarrow> be16 (put_be16 n) = n"
  by (simp add: be16_def put_be16_def less_mult_imp_div_less)

lemma length_put_be16 [simp]: "length (put_be16 n) = 2"
  by (simp add: put_be16_def)

lemma readRequest_bytes:
  assumes "wf_addr a" and "sw_in w = request_bytes cmd rsv a @ rest"
  shows "run_state readRequest w = (Inr (cmd, a), w\<lparr>sw_in := rest\<rparr>)"
proof (cases "a_Host a = []")
  case True
  with assms show ?thesis
    by (cases a) (auto simp: readRequest_def request_bytes_def wf_addr_def readAddr_def run_attempt
      socks_consts)
next
  case False
  with assms show ?thesis
    by (cases a) (auto simp: readRequest_def request_bytes_def wf_addr_def readAddr_def run_attempt
      socks_consts)
qed

lemma quiet_emits: "quiet m \<Longrightarrow> emits P m"
  by (auto simp: quiet_def emits_def)

lemmas emits_socks [emit_intros] = quiet_basic(2-4) [THEN quiet_emits] quiet_handshake [THEN quiet_emits]
  quiet_request [THEN quiet_emits] quiet_udp [THEN quiet_emits]

lemma emits_copy [emit_intros]: "emits P (copy_in n)" "emits P (copy_chunks cs)" "emits P (copy_out cs)"
proof -
  show c: "emits P (copy_chunks cs)" for cs
    by (induction cs) (auto intro!: emit_intros)
  show "emits P (copy_in n)" "emits P (copy_out cs)"
    unfolding copy_in_def copy_out_def by (intro emit_intros c; simp)+
qed

lemma emits_handle: "emits (is_marked (sc_mark S)) (handle E S)"
  unfolding handle_def handleConnect_def srv_resolve_def by (intro emit_intros) auto

lemma keeps_active_writes [keep_intros]:
  assumes "\<And>w n. f (w\<lparr>sw_in := n\<rparr>) = f w" "\<And>w o' n. f (w\<lparr>sw_out := o', sw_writes := n\<rparr>) = f w"
  shows "keeps f (read_full n)" "keeps f (conn_write bs)" "keeps f (writeReply r b)"
  unfolding writeReply_def read_full_def conn_write_def by (intro keep_intros assms)+

lemma keeps_copy [keep_intros]: "keeps sv_active (copy_in n)" "keeps sv_active (copy_out cs)"
proof -
  have "keeps sv_active (copy_chunks cs)" for cs
    by (induction cs) (auto intro!: keep_intros)
  then show "keeps sv_active (copy_in n)" "keeps sv_active (copy_out cs)"
    unfolding copy_in_def copy_out_def by (auto intro!: keep_intros)
qed

lemma relay_active: "keeps sv_active (do {
    modify (\<lambda>w. w\<lparr>sv_active := sv_active w + 1, sv_dirty := True\<rparr>);
    copy_in n;
    copy_out cs;
    modify (\<lambda>w. w\<lparr>sv_active := sv_active w - 1, sv_dirty := True\<rparr>)
  })"
  by (auto simp: keeps_def [of _ "_ \<bind> _"] split: prod.split
      dest!: keepsD [OF keeps_copy(1)] keepsD [OF keeps_copy(2)])

lemma quiet_active: "quiet m \<Longrightarrow> keeps sv_active m"
  by (simp add: quiet_def keeps_def)

lemma handle_active: "keeps sv_active (handle E S)"
  unfolding handle_def handleConnect_def srv_resolve_def
  by (intro keep_intros relay_active quiet_active [OF quiet_handshake] quiet_active [OF quiet_request]
      quiet_active [OF quiet_udp]) simp_all

text \<open>Effects imply a finished handshake.\<close>

lemma handle_no_handshake:
  assumes "run_state (readHandshake (sc_auth S)) w = (Inl e, u)"
  shows "trace (snd (run_state (handle E S) w)) = trace w"
  using assms quiet_handshake [unfolded quiet_def, rule_format, of "sc_auth S" w]
  by (simp add: handle_def)

definition plain_world :: "byte list \<Rightarrow> socks_world" where
  "plain_world inp = \<lparr>trace = [], tr_cachedNS = ''10.1.1.1'', tr_readAt = 0, sv_active = 0, sv_bytesIn = 0,
     sv_bytesOut = 0, sv_dirty = False, sw_in = inp, sw_out = [], sw_writes = 9\<rparr>"

definition plain_server :: server_cfg where
  "plain_server = \<lparr>sc_auth = Some \<lparr>pa_username = ''u'', pa_password = ''p''\<rparr>, sc_gate = True,
     sc_mark = Mark, sc_udpPort = None, sc_publishedPort = 0, sc_accepts = 0, sc_sends = []\<rparr>"

definition plain_addr :: addrSpec where
  "plain_addr = \<lparr>a_Host = [], a_IP = [1, 2, 3, 4], a_Port = 443\<rparr>"

section \<open>Properties\<close>



text \<open>Also: The right credentials are accepted: a hello that offers username/password and an RFC
  1929 message with the configured username and password (at most 255 bytes each) passes, is
  answered by the two success messages, and leaves the rest of the stream unread.\<close>

theorem socks_auth_accepts:
  assumes "sw_in w = hello ms @ userpass (bytes_of (pa_username a)) (bytes_of (pa_password a)) @ rest"
    and "length ms < 256" "length (pa_username a) < 256" "length (pa_password a) < 256"
    and "methodUserPass \<in> set ms" and "sw_writes w = Suc (Suc k)"
  shows "run_state (readHandshake (Some a)) w =
    (Inr (), w\<lparr>sw_in := rest, sw_out := sw_out w @ [5, methodUserPass, 1, 0], sw_writes := k\<rparr>)"
  using assms by (rule handshake_accepts)

theorem socks_auth_accepts_witness:
  "fst (run_state (readHandshake (Some \<lparr>pa_username = ''u'', pa_password = ''p''\<rparr>))
     (plain_world (hello [0, 2] @ userpass (bytes_of ''u'') (bytes_of ''p'') @ [5]))) = Inr ()"
  using socks_auth_accepts [of "plain_world (hello [0, 2] @ userpass (bytes_of ''u'') (bytes_of ''p'') @ [5])"
      "[0, 2]" "\<lparr>pa_username = ''u'', pa_password = ''p''\<rparr>" "[5]" 7]
  by (simp add: plain_world_def methodUserPass_def)

text \<open>Also: Credentials of more than 255 bytes, which \<open>Validate\<close> allows, lock every client out:
  no byte stream passes the handshake.\<close>

theorem long_credentials_lock_out:
  assumes "255 < length (pa_username a) \<or> 255 < length (pa_password a)"
  shows "fst (run_state (readHandshake (Some a)) w) \<noteq> Inr ()"
proof
  assume "fst (run_state (readHandshake (Some a)) w) = Inr ()"
  then obtain v where "run_state (readHandshake (Some a)) w = (Inr (), v)"
    by (metis prod.collapse)
  from readHandshake_ok [OF this] obtain u p where "length u < 256" "length p < 256"
    "string_of u = pa_username a" "string_of p = pa_password a" by auto
  moreover from this(3,4) have "length u = length (pa_username a)" "length p = length (pa_password a)"
    by (metis length_map string_of_def)+
  ultimately show False using assms by auto
qed

theorem long_credentials_lock_out_witness:
  "fst (run_state (readHandshake (Some \<lparr>pa_username = replicate 256 CHR ''a'', pa_password = ''p''\<rparr>))
     (plain_world [5, 1, 2])) \<noteq> Inr ()"
  by (rule long_credentials_lock_out) simp

text \<open>C5: Fail closed: while the tunnel is not connected no client input makes the proxy touch the
  network or count traffic, whatever it sends.\<close>

theorem proxy_fails_closed:
  assumes "\<not> sc_gate S"
  shows "trace (snd (run_state (handle E S) w)) = trace w \<and>
    sv_active (snd (run_state (handle E S) w)) = sv_active w \<and>
    sv_bytesIn (snd (run_state (handle E S) w)) = sv_bytesIn w \<and>
    sv_bytesOut (snd (run_state (handle E S) w)) = sv_bytesOut w"
  by (simp add: quiet_closed [OF assms, unfolded quiet_def, rule_format])

theorem proxy_fails_closed_witness:
  "trace (snd (run_state (handle ok_env (plain_server\<lparr>sc_gate := False\<rparr>)) (plain_world [5, 1, 0]))) = []"
  using proxy_fails_closed [of "plain_server\<lparr>sc_gate := False\<rparr>" ok_env "plain_world [5, 1, 0]"]
  by (simp add: plain_world_def)

text \<open>C34: Everything the proxy does on the network for a client carries the server's mark, so the
  kill switch sees it: every effect of a connection is marked, and each connection gives the
  count of active connections back.\<close>

theorem proxy_traffic_marked:
  "(\<exists>es. trace (snd (run_state (handle E S) w)) = trace w @ es \<and> list_all (is_marked (sc_mark S)) es) \<and>
   sv_active (snd (run_state (handle E S) w)) = sv_active w"
  using emits_handle [of S E, unfolded emits_def] handle_active [of E S, unfolded keeps_def] by blast

text \<open>Also: A SOCKS5 request in wire form is read back exactly, for each of the three address types,
  and nothing after it is consumed.\<close>

theorem request_roundtrip:
  assumes "wf_addr a" and "sw_in w = request_bytes cmd rsv a @ rest"
  shows "run_state readRequest w = (Inr (cmd, a), w\<lparr>sw_in := rest\<rparr>)"
  using assms by (rule readRequest_bytes)

theorem request_roundtrip_witness:
  "fst (run_state readRequest (plain_world (request_bytes 1 0 plain_addr))) = Inr (1, plain_addr)"
  using request_roundtrip [of plain_addr "plain_world (request_bytes 1 0 plain_addr)" 1 0 "[]"]
  by (simp add: plain_world_def wf_addr_def plain_addr_def)

end
