(* ===== verification/Udp_Relay.thy ===== *)
theory Udp_Relay
  imports Socks5 "HOL-Library.AList"
begin

text \<open>
  The UDP relay of the proxy (\<open>internal/proxy/udp.go\<close>): the RFC 1928 header, the flows of the
  clients, one step per datagram, expiry of idle flows, and the loop over what the socket
  receives. The order in which Go iterates over the map of flows is a parameter (\<open>pick\<close>).
\<close>

type_synonym udp_addr = "ip \<times> nat"

definition udp_str :: "udp_addr \<Rightarrow> string" where
  "udp_str a = join_host_port (if fst a = [] then [] else ip_string (fst a)) (nat_digits (snd a))"

record udpFlow =
  uf_client :: udp_addr
  uf_targets :: "string \<Rightarrow> byte list option"
  uf_last :: int

record udp_world = srv_world +
  ur_flows :: "(string \<times> udpFlow) list"
  ur_sent :: "(byte list \<times> udp_addr) list"
  ur_lastCleanup :: int

definition udpFlowIdle :: int where
  "udpFlowIdle = 5 * 60 * 1000000000"

text \<open>\<open>itoa\<close> writes into a buffer of eight bytes; \<open>None\<close> is the panic when it is too small.\<close>

function itoa_loop :: "nat \<Rightarrow> nat \<Rightarrow> string \<Rightarrow> string option" where
  "itoa_loop i n b =
     (if n = 0 then Some b
      else if i = 0 then None
      else itoa_loop (i - 1) (n div 10) (digit_char (n mod 10) # b))"
  by pat_completeness auto
termination
  by (relation "measure (\<lambda>(i, n, b). n)") auto

declare itoa_loop.simps [simp del]

definition itoa :: "nat \<Rightarrow> string option" where
  "itoa n = (if n = 0 then Some ''0'' else itoa_loop 8 n [])"

section \<open>The header\<close>

definition parse_spec :: "byte list \<Rightarrow> (nat \<times> addrSpec) option" where
  "parse_spec pkt =
     (if length pkt < 4 \<or> pkt ! 2 \<noteq> 0x00 then None
      else if pkt ! 3 = atypIPv4 then
        (if length pkt < 4 + 6 then None
         else Some (10, \<lparr>a_Host = [], a_IP = take 4 (drop 4 pkt), a_Port = be16 (drop 8 pkt)\<rparr>))
      else if pkt ! 3 = atypIPv6 then
        (if length pkt < 4 + 18 then None
         else Some (22, \<lparr>a_Host = [], a_IP = take 16 (drop 4 pkt), a_Port = be16 (drop 20 pkt)\<rparr>))
      else if pkt ! 3 = atypDomain then
        (if length pkt < 5 then None
         else let l = unat (pkt ! 4) in
           if length pkt < 5 + l + 2 then None
           else Some (7 + l, \<lparr>a_Host = string_of (take l (drop 5 pkt)), a_IP = [],
                              a_Port = be16 (drop (5 + l) pkt)\<rparr>))
      else None)"

definition parseUDPHeader ::
  "env \<Rightarrow> nat \<Rightarrow> byte list \<Rightarrow> ('z tr_world_scheme, (nat \<times> udp_addr) option) state" where
  "parseUDPHeader E mark pkt = (case parse_spec pkt of
     None \<Rightarrow> ret None
   | Some (consumed, a) \<Rightarrow>
       if a_Host a \<noteq> [] then do {
         r \<leftarrow> tr_resolve E mark (a_Host a);
         ret (case r of Inl _ \<Rightarrow> None | Inr ip \<Rightarrow> Some (consumed, (ip, a_Port a)))
       } else ret (Some (consumed, (a_IP a, a_Port a))))"

definition packUDPHeader :: "udp_addr \<Rightarrow> byte list" where
  "packUDPHeader a = (case to4 (fst a) of
     Some ip4 \<Rightarrow> [0, 0, 0, atypIPv4] @ ip4 @ put_be16 (snd a)
   | None \<Rightarrow> [0, 0, 0, atypIPv6] @ (case to16 (fst a) of Some b \<Rightarrow> b | None \<Rightarrow> []) @ put_be16 (snd a))"

section \<open>The relay\<close>

definition send_to :: "byte list \<Rightarrow> udp_addr \<Rightarrow> ('z udp_world_scheme, unit) state" where
  "send_to data a = modify (\<lambda>w. w\<lparr>ur_sent := ur_sent w @ [(data, a)]\<rparr>)"

definition count_in :: "nat \<Rightarrow> ('z udp_world_scheme, unit) state" where
  "count_in n = modify (\<lambda>w. w\<lparr>sv_bytesIn := sv_bytesIn w + of_nat n, sv_dirty := True\<rparr>)"

definition count_out :: "nat \<Rightarrow> ('z udp_world_scheme, unit) state" where
  "count_out n = modify (\<lambda>w. w\<lparr>sv_bytesOut := sv_bytesOut w + of_nat n, sv_dirty := True\<rparr>)"

type_synonym flows = "(string \<times> udpFlow) list"

definition flow_of_target :: "(flows \<Rightarrow> flows) \<Rightarrow> string \<Rightarrow> flows \<Rightarrow> (udpFlow \<times> byte list) option" where
  "flow_of_target pick key fs =
     (case find (\<lambda>(k, f). uf_targets f key \<noteq> None) (pick fs) of
        Some (k, f) \<Rightarrow> Some (f, the (uf_targets f key))
      | None \<Rightarrow> None)"

definition add_target :: "udp_addr \<Rightarrow> udpFlow \<Rightarrow> udpFlow" where
  "add_target target f =
     (if uf_targets f (udp_str target) = None
      then f\<lparr>uf_targets := (uf_targets f)(udp_str target \<mapsto> packUDPHeader target)\<rparr> else f)"

definition relay_datagram ::
  "env \<Rightarrow> server_cfg \<Rightarrow> (flows \<Rightarrow> flows) \<Rightarrow> byte list \<Rightarrow> udp_addr \<Rightarrow> ('z udp_world_scheme, unit) state" where
  "relay_datagram E S pick pkt from = do {
     w \<leftarrow> getw;
     let key = udp_str from;
     (case map_of (ur_flows w) key of
        None \<Rightarrow>
          (case flow_of_target pick key (ur_flows w) of
             Some (f, hdr) \<Rightarrow> do {
               send_to (hdr @ pkt) (uf_client f);
               count_out (length pkt)
             }
           | None \<Rightarrow>
               if \<not> sc_gate S then ret ()
               else do {
                 p \<leftarrow> parseUDPHeader E (sc_mark S) pkt;
                 (case p of
                    None \<Rightarrow> ret ()
                  | Some (hdrLen, target) \<Rightarrow> do {
                      now \<leftarrow> do_clock E;
                      let flow = \<lparr>uf_client = from, uf_targets = [udp_str target \<mapsto> packUDPHeader target],
                        uf_last = now\<rparr>;
                      modify (\<lambda>w. w\<lparr>ur_flows := AList.update key flow (ur_flows w)\<rparr>);
                      send_to (drop hdrLen pkt) target;
                      count_in (length pkt - hdrLen)
                    })
               })
      | Some f \<Rightarrow>
          if \<not> sc_gate S then ret ()
          else do {
            p \<leftarrow> parseUDPHeader E (sc_mark S) pkt;
            (case p of
               None \<Rightarrow> ret ()
             | Some (hdrLen, target) \<Rightarrow> do {
                 now \<leftarrow> do_clock E;
                 modify (\<lambda>w. w\<lparr>ur_flows := AList.update key (add_target target (f\<lparr>uf_last := now\<rparr>)) (ur_flows w)\<rparr>);
                 send_to (drop hdrLen pkt) target;
                 count_in (length pkt - hdrLen)
               })
          })
   }"

fun expire_flows :: "env \<Rightarrow> flows \<Rightarrow> ('z world_scheme, flows) state" where
  "expire_flows E [] = ret []"
| "expire_flows E ((k, f) # fs) = do {
     now \<leftarrow> do_clock E;
     r \<leftarrow> expire_flows E fs;
     ret (if udpFlowIdle < now - uf_last f then r else (k, f) # r)
   }"

definition expire :: "env \<Rightarrow> ('z udp_world_scheme, unit) state" where
  "expire E = do {
     w \<leftarrow> getw;
     fs \<leftarrow> expire_flows E (ur_flows w);
     modify (\<lambda>w. w\<lparr>ur_flows := fs\<rparr>)
   }"

text \<open>What \<open>ReadFrom\<close> returns, with the value of the gate and the map's iteration order at
  that time; \<open>Closed\<close> is an error after the context has ended.\<close>

datatype udp_in = Datagram "byte list" udp_addr bool "flows \<Rightarrow> flows" | ReadTimeout | Closed

fun udp_run :: "env \<Rightarrow> server_cfg \<Rightarrow> udp_in list \<Rightarrow> ('z udp_world_scheme, unit) state" where
  "udp_run E S [] = ret ()"
| "udp_run E S (Datagram pkt from gate pick # ins) = do {
     relay_datagram E (S\<lparr>sc_gate := gate\<rparr>) pick pkt from;
     udp_run E S ins
   }"
| "udp_run E S (ReadTimeout # ins) = do {
     w \<leftarrow> getw;
     now \<leftarrow> do_clock E;
     (if 60 * 1000000000 < now - ur_lastCleanup w then do {
        expire E;
        t \<leftarrow> do_clock E;
        modify (\<lambda>w. w\<lparr>ur_lastCleanup := t\<rparr>)
      } else ret ());
     udp_run E S ins
   }"
| "udp_run E S (Closed # ins) = ret ()"

section \<open>Facts\<close>

lemma itoa_loop_0 [simp]: "itoa_loop i 0 b = Some b"
  by (simp add: itoa_loop.simps)

lemma nat_digits_0: "nat_digits 0 = ''0''"
  by code_simp

lemma be16_put_app [simp]: "n < 65536 \<Longrightarrow> be16 (put_be16 n @ bs) = n"
  by (simp add: be16_def put_be16_def less_mult_imp_div_less)

lemma itoa_loop_digits:
  "0 < n \<Longrightarrow> n < 10 ^ i \<Longrightarrow> itoa_loop i n b = Some (nat_digits n @ b)"
proof (induction i n b rule: itoa_loop.induct)
  case (1 i n b)
  have i: "i \<noteq> 0" using "1.prems" by (cases i) auto
  show ?case
  proof (cases "n < 10")
    case True
    with "1.prems" i show ?thesis
      by (simp add: itoa_loop.simps [of i n] itoa_loop.simps [of "i - 1" 0] nat_digits.simps [of n])
  next
    case False
    have "n div 10 < 10 ^ (i - 1)"
      using "1.prems" i by (simp add: less_mult_imp_div_less flip: power_Suc2)
    then have "itoa_loop (i - 1) (n div 10) (digit_char (n mod 10) # b) =
        Some (nat_digits (n div 10) @ digit_char (n mod 10) # b)"
      using "1.IH" "1.prems" i False by simp
    with False i "1.prems" show ?thesis
      by (simp add: itoa_loop.simps [of i n] nat_digits.simps [of n])
  qed
qed

lemma itoa_loop_overflow: "10 ^ i \<le> n \<Longrightarrow> itoa_loop i n b = None"
proof (induction i arbitrary: n b)
  case 0
  then show ?case by (simp add: itoa_loop.simps [of 0])
next
  case (Suc i)
  then have "10 ^ i \<le> n div 10" by (simp add: less_eq_div_iff_mult_less_eq mult.commute)
  moreover have "n \<noteq> 0" using Suc.prems by (cases n) auto
  ultimately
  show ?case using Suc.IH by (simp add: itoa_loop.simps [of "Suc i"])
qed

lemma itoa_iff: "itoa n = (if n < 10 ^ 8 then Some (nat_digits n) else None)"
  using itoa_loop_digits [of n 8 "[]"] itoa_loop_overflow [of 8 n "[]"]
  by (cases "n = 0") (auto simp: itoa_def nat_digits_0)

lemma to16_length: "to16 a = Some b \<Longrightarrow> length b = 16"
  by (auto simp: to16_def v4_prefix_def split: if_splits)

definition good_addr :: "udp_addr \<Rightarrow> bool" where
  "good_addr a \<longleftrightarrow> length (fst a) \<in> {4, 16} \<and> snd a < 65536"

lemma parse_pack:
  assumes "good_addr a"
  shows "parse_spec (packUDPHeader a @ data) =
    Some (length (packUDPHeader a), \<lparr>a_Host = [], a_IP = (case to4 (fst a) of Some b \<Rightarrow> b | None \<Rightarrow> fst a), a_Port = snd a\<rparr>)"
proof (cases "to4 (fst a)")
  case (Some b)
  with to4_length [OF this] assms show ?thesis
    by (simp add: packUDPHeader_def parse_spec_def socks_consts good_addr_def)
next
  case None
  with assms have "length (fst a) = 16" by (auto simp: good_addr_def to4_def)
  with None assms show ?thesis
    by (simp add: packUDPHeader_def parse_spec_def socks_consts good_addr_def to16_def)
qed

lemma parse_bounds:
  "parse_spec pkt = Some (n, a) \<Longrightarrow> 7 \<le> n \<and> n \<le> length pkt \<and> n < 7 + 256 \<and> a_Port a < 65536"
proof -
  have be: "be16 bs < 65536" for bs
    using byte_less [of "bs ! 0"] byte_less [of "bs ! 1"] unfolding be16_def by linarith
  assume "parse_spec pkt = Some (n, a)"
  then show ?thesis
    using byte_less [of "pkt ! 4"] be by (auto simp: parse_spec_def Let_def split: if_splits)
qed

lemma udp_str_to4: "fst a \<noteq> [] \<Longrightarrow> to4 (fst a) = Some b \<Longrightarrow> udp_str (b, snd a) = udp_str a"
  using to4_length [of "fst a" b] by (auto simp: udp_str_def ip_string_def to4_def)

lemma relay_closed:
  assumes "\<not> sc_gate S"
  shows "run_state (relay_datagram E S pick pkt from) w =
    (case map_of (ur_flows w) (udp_str from) of
       Some _ \<Rightarrow> ((), w)
     | None \<Rightarrow> (case flow_of_target pick (udp_str from) (ur_flows w) of
         None \<Rightarrow> ((), w)
       | Some (f, hdr) \<Rightarrow> ((), w\<lparr>ur_sent := ur_sent w @ [(hdr @ pkt, uf_client f)],
           sv_bytesOut := sv_bytesOut w + of_nat (length pkt), sv_dirty := True\<rparr>)))"
  using assms by (auto simp: relay_datagram_def Let_def send_to_def count_out_def split: option.split)

text \<open>The invariant of the flows.\<close>

definition flow_ok :: "string \<times> udpFlow \<Rightarrow> bool" where
  "flow_ok kf \<longleftrightarrow> fst kf = udp_str (uf_client (snd kf)) \<and>
     (\<forall>t h. uf_targets (snd kf) t = Some h \<longrightarrow> (\<exists>a. t = udp_str a \<and> h = packUDPHeader a))"

definition flows_inv :: "flows \<Rightarrow> bool" where
  "flows_inv fs \<longleftrightarrow> distinct (map fst fs) \<and> list_all flow_ok fs"

lemma list_all_update: "list_all P fs \<Longrightarrow> P (k, f) \<Longrightarrow> list_all P (AList.update k f fs)"
  by (induction fs) auto

lemma flows_inv_update: "flows_inv fs \<Longrightarrow> flow_ok (k, f) \<Longrightarrow> flows_inv (AList.update k f fs)"
  by (simp add: flows_inv_def distinct_update list_all_update)

lemma flow_ok_new: "flow_ok (udp_str from, \<lparr>uf_client = from, uf_targets = [udp_str t \<mapsto> packUDPHeader t], uf_last = n\<rparr>)"
  by (auto simp: flow_ok_def simp del: split_paired_Ex split: if_splits)

lemma flow_ok_add: "flow_ok (k, f) \<Longrightarrow> flow_ok (k, add_target t (f\<lparr>uf_last := n\<rparr>))"
  by (auto simp: flow_ok_def add_target_def simp del: split_paired_Ex split: if_splits)

lemma flows_inv_lookup: "flows_inv fs \<Longrightarrow> map_of fs k = Some f \<Longrightarrow> flow_ok (k, f)"
  by (auto simp: flows_inv_def list_all_iff dest: map_of_SomeD)

lemma keeps_flows_parse [keep_intros]: "keeps ur_flows (parseUDPHeader E k pkt)"
  unfolding parseUDPHeader_def by (intro keep_intros) simp_all

lemma relay_inv:
  assumes "flows_inv (ur_flows w)"
  shows "flows_inv (ur_flows (snd (run_state (relay_datagram E S pick pkt from) w)))"
  using assms flows_inv_lookup [of "ur_flows w" "udp_str from"]
  by (auto simp: relay_datagram_def Let_def send_to_def count_out_def count_in_def
      split: option.split prod.split if_splits dest!: keepsD [OF keeps_flows_parse]
      intro!: flows_inv_update flow_ok_new flow_ok_add)

lemma expire_flows_only [ext_intros]: "only_effects (expire_flows E fs)"
  by (induction fs) (auto intro!: ext_intros)

lemma expire_flows_sub: "run_state (expire_flows E fs) w = (fs', v) \<Longrightarrow> set fs' \<subseteq> set fs"
  by (induction fs arbitrary: w fs' v) (force split: prod.splits if_splits)+

lemma expire_flows_distinct:
  "run_state (expire_flows E fs) w = (fs', v) \<Longrightarrow> distinct (map fst fs) \<Longrightarrow> distinct (map fst fs')"
proof (induction fs arbitrary: w fs' v)
  case (Cons kf fs)
  obtain k f where kf: "kf = (k, f)" by fastforce
  obtain r u where r: "run_state (expire_flows E fs) (w\<lparr>trace := trace w @ [Clock]\<rparr>) = (r, u)" by fastforce
  then have "fst ` set r \<subseteq> fst ` set fs" using expire_flows_sub by blast
  with Cons.IH [OF r] Cons.prems show ?case
    by (auto simp: kf r split: if_splits)
qed simp

lemma expire_flows_inv:
  "run_state (expire_flows E fs) w = (fs', v) \<Longrightarrow> flows_inv fs \<Longrightarrow> flows_inv fs'"
  using expire_flows_sub [of E fs w fs' v] expire_flows_distinct [of E fs w fs' v]
  by (auto simp: flows_inv_def list_all_iff)

lemma expire_inv: "flows_inv (ur_flows w) \<Longrightarrow> flows_inv (ur_flows (snd (run_state (expire E) w)))"
  by (auto simp: expire_def split: prod.split intro: expire_flows_inv)

lemma udp_run_inv: "flows_inv (ur_flows w) \<Longrightarrow> flows_inv (ur_flows (snd (run_state (udp_run E S ins) w)))"
proof (induction ins arbitrary: w)
  case (Cons i ins)
  show ?case
  proof (cases i)
    case (Datagram pkt fr gate pick)
    show ?thesis
      using relay_inv [OF Cons.prems, of E "S\<lparr>sc_gate := gate\<rparr>" pick pkt fr] Cons.IH
      by (auto simp: Datagram split: prod.split)
  next
    case ReadTimeout
    show ?thesis
      using expire_inv [of "w\<lparr>trace := trace w @ [Clock]\<rparr>" E] Cons
      by (auto simp: ReadTimeout split: prod.split)
  qed (use Cons.prems in simp)
qed simp

lemma flow_of_target_label:
  assumes "flows_inv fs" and "set (pick fs) \<subseteq> set fs" and "flow_of_target pick (udp_str from) fs = Some (f, hdr)"
  shows "\<exists>a. udp_str a = udp_str from \<and> hdr = packUDPHeader a"
proof -
  from assms(3) obtain k where "(k, f) \<in> set (pick fs)" "uf_targets f (udp_str from) = Some hdr"
    by (auto simp: flow_of_target_def find_Some_iff split: option.splits) (metis nth_mem)
  with assms(1,2) show ?thesis
    by (fastforce simp: flows_inv_def list_all_iff flow_ok_def simp del: split_paired_Ex)
qed

section \<open>Properties\<close>

text \<open>Also: The relay's datagram header survives the round trip: what the relay puts before a
  target's answer is parsed back to the same address, the payload starts right after it, and no
  lookup is needed.\<close>

theorem udp_header_roundtrip:
  assumes "good_addr a"
  shows "\<exists>b. run_state (parseUDPHeader E mark (packUDPHeader a @ data)) w =
      (Some (length (packUDPHeader a), b), w) \<and>
    drop (length (packUDPHeader a)) (packUDPHeader a @ data) = data \<and> udp_str b = udp_str a \<and> snd b = snd a"
proof -
  let ?b = "(case to4 (fst a) of Some b \<Rightarrow> b | None \<Rightarrow> fst a, snd a)"
  have "udp_str ?b = udp_str a"
    using assms by (auto simp: good_addr_def split: option.split intro!: udp_str_to4)
  then show ?thesis
    using parse_pack [OF assms, of data]
    by (intro exI [of _ ?b]) (simp add: parseUDPHeader_def)
qed

theorem udp_header_roundtrip_witness:
  "\<exists>b. run_state (parseUDPHeader ok_env 1 (packUDPHeader ([1, 2, 3, 4], 53) @ [7]))
     (plain_world []) = (Some (length (packUDPHeader ([1, 2, 3, 4], 53)), b), plain_world []) \<and> snd b = 53"
  using udp_header_roundtrip [of "([1, 2, 3, 4], 53)" ok_env 1 "[7]" "plain_world []"]
  by (fastforce simp: good_addr_def)

text \<open>Also: Parsing a client's datagram never reads beyond it: a header that is accepted ends within
  the datagram, has at least seven bytes, and its port fits in 16 bits.\<close>

theorem udp_header_bounds:
  assumes "parse_spec pkt = Some (n, a)"
  shows "7 \<le> n \<and> n \<le> length pkt \<and> a_Port a < 65536"
  using parse_bounds [OF assms] by simp

theorem udp_header_bounds_witness: "7 \<le> (10::nat) \<and> 10 \<le> length [0, 0, 0, 1, 1, 2, 3, 4, 0, 53 :: byte]"
  using udp_header_bounds [of "[0, 0, 0, 1, 1, 2, 3, 4, 0, 53]" 10 "\<lparr>a_Host = [], a_IP = [1, 2, 3, 4], a_Port = 53\<rparr>"]
  by (simp add: parse_spec_def socks_consts be16_def)

text \<open>C35: The UDP relay fails closed: while the tunnel is not connected a datagram is forwarded to
  no target and no name is looked up; only an answer of a target already contacted still goes
  back to its client.\<close>

theorem udp_fails_closed:
  assumes "\<not> sc_gate S"
  shows "run_state (relay_datagram E S pick pkt from) w =
    (case map_of (ur_flows w) (udp_str from) of
       Some _ \<Rightarrow> ((), w)
     | None \<Rightarrow> (case flow_of_target pick (udp_str from) (ur_flows w) of
         None \<Rightarrow> ((), w)
       | Some (f, hdr) \<Rightarrow> ((), w\<lparr>ur_sent := ur_sent w @ [(hdr @ pkt, uf_client f)],
           sv_bytesOut := sv_bytesOut w + of_nat (length pkt), sv_dirty := True\<rparr>)))"
  using assms by (rule relay_closed)

definition udp_start :: udp_world where
  "udp_start = \<lparr>trace = [], tr_cachedNS = [], tr_readAt = 0, sv_active = 0, sv_bytesIn = 0,
     sv_bytesOut = 0, sv_dirty = False, ur_flows = [], ur_sent = [], ur_lastCleanup = 0\<rparr>"

theorem udp_fails_closed_witness:
  "run_state (relay_datagram ok_env (plain_server\<lparr>sc_gate := False\<rparr>) (\<lambda>x. x) [1, 2] ([9, 9, 9, 9], 5)) udp_start =
     ((), udp_start)"
  by (subst udp_fails_closed) (simp_all add: udp_start_def flow_of_target_def)

text \<open>Also: Answers carry the right sender: after any sequence of datagrams and timeouts, the header
  put before a target's answer is the packed form of an address with the text of its sender.\<close>

theorem udp_replies_labelled:
  assumes "ur_flows w = []" and "v = snd (run_state (udp_run E S ins) w)"
    and "set (pick (ur_flows v)) \<subseteq> set (ur_flows v)"
    and "flow_of_target pick (udp_str from) (ur_flows v) = Some (f, hdr)"
  shows "\<exists>a. udp_str a = udp_str from \<and> hdr = packUDPHeader a"
proof -
  have "flows_inv (ur_flows v)"
    using udp_run_inv [of w E S ins] assms(1,2) by (simp add: flows_inv_def)
  then show ?thesis using assms(3,4) by (rule flow_of_target_label)
qed

definition dns_query :: "byte list" where
  "dns_query = packUDPHeader ([1, 1, 1, 1], 53) @ [7]"

text \<open>Also: Proxy authentication does not cover UDP: whatever the server's settings, a datagram from a
  sender it has never heard of, with an address literal in its header, is forwarded.\<close>

theorem udp_needs_no_auth:
  assumes "map_of (ur_flows w) (udp_str from) = None"
    and "flow_of_target pick (udp_str from) (ur_flows w) = None"
    and "sc_gate S" and "parse_spec pkt = Some (n, a)" and "a_Host a = []"
  shows "ur_sent (snd (run_state (relay_datagram E S pick pkt from) w)) =
    ur_sent w @ [(drop n pkt, (a_IP a, a_Port a))]"
  using assms
  by (simp add: relay_datagram_def Let_def parseUDPHeader_def send_to_def count_in_def)

theorem udp_needs_no_auth_witness:
  "ur_sent (snd (run_state (relay_datagram ok_env plain_server (\<lambda>x. x) dns_query ([9, 9, 9, 9], 5)) udp_start)) =
     [([7], ([1, 1, 1, 1], 53))]"
  using udp_needs_no_auth [of udp_start "([9, 9, 9, 9], 5)" "\<lambda>x. x" plain_server dns_query 10
      "\<lparr>a_Host = [], a_IP = [1, 1, 1, 1], a_Port = 53\<rparr>" ok_env]
  by (simp add: udp_start_def flow_of_target_def plain_server_def dns_query_def parse_spec_def
      packUDPHeader_def to4_def put_be16_def be16_def socks_consts)

text \<open>Also: The owner of an answer is not determined: when two clients have sent to the same target,
  which of them gets the target's answer depends on the iteration order of Go's map.\<close>

theorem udp_answer_ambiguous:
  assumes "ur_flows w = [(k1, f1), (k2, f2)]" and "udp_str from \<notin> {k1, k2}"
    and "uf_targets f1 (udp_str from) = Some h1" and "uf_targets f2 (udp_str from) = Some h2"
  shows "ur_sent (snd (run_state (relay_datagram E S (\<lambda>x. x) pkt from) w)) = ur_sent w @ [(h1 @ pkt, uf_client f1)] \<and>
    ur_sent (snd (run_state (relay_datagram E S rev pkt from) w)) = ur_sent w @ [(h2 @ pkt, uf_client f2)]"
  using assms
  by (auto simp: relay_datagram_def Let_def flow_of_target_def send_to_def count_out_def)

definition two_clients :: udp_world where
  "two_clients = udp_start\<lparr>ur_flows := [(''a'', \<lparr>uf_client = ([10, 0, 0, 1], 1), uf_targets = (\<lambda>_. Some [1]), uf_last = 0\<rparr>),
     (''b'', \<lparr>uf_client = ([10, 0, 0, 2], 2), uf_targets = (\<lambda>_. Some [2]), uf_last = 0\<rparr>)]\<rparr>"

theorem udp_answer_ambiguous_witness:
  "ur_sent (snd (run_state (relay_datagram ok_env plain_server rev [7] ([], 53)) two_clients)) =
     [([2, 7], ([10, 0, 0, 2], 2))]"
  using udp_answer_ambiguous [of two_clients "''a''" _ "''b''" _ "([], 53)" "[1]" "[2]" ok_env plain_server "[7]"]
  by (simp add: two_clients_def udp_start_def udp_str_def join_host_port_def)

text \<open>Also: The hand-written \<open>itoa\<close> agrees with \<open>strconv.Itoa\<close> below 10^8, so on every port, and
  panics from there on.\<close>

theorem itoa_correct: "itoa n = (if n < 10 ^ 8 then Some (int_str (int n)) else None)"
  by (simp add: itoa_iff int_str_def)

end
