(* ===== verification/Codec.thy ===== *)
theory Codec
  imports Go_Strings
begin

text \<open>
  The encodings of the secrets the agent stores: unpadded standard base64
  (\<open>base64.RawStdEncoding\<close>), hexadecimal (\<open>hex.EncodeToString\<close>), the scan of the PHC parameters
  (\<open>fmt.Sscanf\<close>), and the PHC string of a password hash as \<open>SessionManager.SetPassword\<close> writes it and
  \<open>verifyPHC\<close> reads it. A byte is a \<open>char\<close>. The hash itself (golang.org/x/crypto/argon2) is a parameter
  \<open>argon password salt time memory threads keyLen\<close>.
\<close>

section \<open>Base64 and hexadecimal\<close>

definition enc6 :: "nat \<Rightarrow> char" where
  "enc6 n = (if n < 26 then char_of (65 + n) else if n < 52 then char_of (71 + n)
     else if n < 62 then char_of (n - 4) else if n = 62 then CHR ''+'' else CHR ''/'')"

definition dec6 :: "char \<Rightarrow> nat option" where
  "dec6 c = (let n = of_char c in
     if 65 \<le> n \<and> n \<le> 90 then Some (n - 65)
     else if 97 \<le> n \<and> n \<le> 122 then Some (n - 71)
     else if 48 \<le> n \<and> n \<le> 57 then Some (n + 4)
     else if n = 43 then Some 62 else if n = 47 then Some 63 else None)"

fun b64_encode :: "string \<Rightarrow> string" where
  "b64_encode [] = []"
| "b64_encode [a] = (let v = of_char a * 65536 in
     [enc6 (v div 262144 mod 64), enc6 (v div 4096 mod 64)])"
| "b64_encode [a, b] = (let v = of_char a * 65536 + of_char b * 256 in
     [enc6 (v div 262144 mod 64), enc6 (v div 4096 mod 64), enc6 (v div 64 mod 64)])"
| "b64_encode (a # b # c # r) = (let v = of_char a * 65536 + of_char b * 256 + of_char c in
     [enc6 (v div 262144 mod 64), enc6 (v div 4096 mod 64), enc6 (v div 64 mod 64), enc6 (v mod 64)] @ b64_encode r)"

fun b64_bytes :: "nat list \<Rightarrow> string option" where
  "b64_bytes [] = Some []"
| "b64_bytes [x] = None"
| "b64_bytes [x, y] = (let v = x * 262144 + y * 4096 in Some [char_of (v div 65536)])"
| "b64_bytes [x, y, z] = (let v = x * 262144 + y * 4096 + z * 64 in
     Some [char_of (v div 65536), char_of (v div 256 mod 256)])"
| "b64_bytes (x # y # z # t # r) = (let v = x * 262144 + y * 4096 + z * 64 + t in
     map_option ((@) [char_of (v div 65536), char_of (v div 256 mod 256), char_of (v mod 256)]) (b64_bytes r))"

text \<open>\<open>DecodeString\<close>: line breaks are skipped, any other byte outside the alphabet is an error.\<close>

definition b64_decode :: "string \<Rightarrow> string option" where
  "b64_decode s = (let ds = map dec6 (filter (\<lambda>c. c \<noteq> CHR 0x0A \<and> c \<noteq> CHR 0x0D) s) in
     if None \<in> set ds then None else b64_bytes (map the ds))"

definition hex_encode :: "string \<Rightarrow> string" where
  "hex_encode s = concat (map (\<lambda>c. [hex_digit (of_char c div 16), hex_digit (of_char c mod 16)]) s)"

section \<open>The password hash\<close>

definition scan_uint :: "nat \<Rightarrow> string \<Rightarrow> (nat \<times> string) option" where
  "scan_uint bits s =
     (let s = dropWhile (\<lambda>c. is_space c \<and> c \<noteq> newline) s; ds = takeWhile is_digit s; v = nat_of_digits ds
      in if ds = [] \<or> 2 ^ bits \<le> v then None else Some (v, dropWhile is_digit s))"

text \<open>\<open>fmt.Sscanf(s, "m=%d,t=%d,p=%d", &mem, &tm, &par)\<close> into 32, 32 and 8 bits; what follows is ignored.\<close>

definition scan_params :: "string \<Rightarrow> (nat \<times> nat \<times> nat) option" where
  "scan_params s = do {
     s \<leftarrow> cut_prefix ''m='' s; (m, s) \<leftarrow> scan_uint 32 s;
     s \<leftarrow> cut_prefix '',t='' s; (t, s) \<leftarrow> scan_uint 32 s;
     s \<leftarrow> cut_prefix '',p='' s; (p, s) \<leftarrow> scan_uint 8 s;
     Some (m, t, p)
   }"

type_synonym kdf = "string \<Rightarrow> string \<Rightarrow> nat \<Rightarrow> nat \<Rightarrow> nat \<Rightarrow> nat \<Rightarrow> string"

definition argonTime :: nat where "argonTime = 1"
definition argonMemory :: nat where "argonMemory = 64 * 1024"
definition argonThreads :: nat where "argonThreads = 4"
definition argonKeyLen :: nat where "argonKeyLen = 32"

definition make_phc :: "kdf \<Rightarrow> string \<Rightarrow> string \<Rightarrow> string" where
  "make_phc argon password salt =
     (let key = argon password salt argonTime argonMemory argonThreads argonKeyLen
      in ''$argon2id$v=19$m='' @ nat_digits argonMemory @ '',t='' @ nat_digits argonTime @ '',p='' @
         nat_digits argonThreads @ ''$'' @ b64_encode salt @ ''$'' @ b64_encode key)"

definition verifyPHC :: "kdf \<Rightarrow> string \<Rightarrow> string \<Rightarrow> bool" where
  "verifyPHC argon phc password =
     (let parts = split_on (CHR ''$'') phc in
      if length parts \<noteq> 6 \<or> parts ! 1 \<noteq> ''argon2id'' then False
      else (case scan_params (parts ! 3) of None \<Rightarrow> False | Some (mem, tm, par) \<Rightarrow>
        (case b64_decode (parts ! 4) of None \<Rightarrow> False | Some salt \<Rightarrow>
          (case b64_decode (parts ! 5) of None \<Rightarrow> False | Some want \<Rightarrow>
             argon password salt tm mem par (length want) = want))))"

section \<open>Facts\<close>

lemma of_char_enc6: "n < 64 \<Longrightarrow> of_char (enc6 n) = (if n < 26 then 65 + n else if n < 52 then 71 + n
     else if n < 62 then n - 4 else if n = 62 then 43 else 47 :: nat)"
  by (auto simp: enc6_def)

lemma dec6_enc6 [simp]: "n < 64 \<Longrightarrow> dec6 (enc6 n) = Some n"
  by (auto simp: dec6_def of_char_enc6 Let_def)

definition b64_char :: "char \<Rightarrow> bool" where
  "b64_char c \<longleftrightarrow> (\<exists>n < 64. c = enc6 n)"

lemma b64_char_enc6 [simp]: "n < 64 \<Longrightarrow> b64_char (enc6 n)"
  by (auto simp: b64_char_def)

lemma b64_chars: "c \<in> set (b64_encode s) \<Longrightarrow> b64_char c"
  by (induction s rule: b64_encode.induct) (auto simp: Let_def)

lemma of_char_b64:
  assumes "b64_char c"
  shows "of_char c \<in> ({65..90} \<union> {97..122} \<union> {48..57} \<union> {43, 47} :: nat set)"
proof -
  obtain n where n: "n < 64" "c = enc6 n" using assms by (auto simp: b64_char_def)
  consider "n < 26" | "26 \<le> n \<and> n < 52" | "52 \<le> n \<and> n < 62" | "n = 62" | "n = 63" using n(1) by linarith
  then show ?thesis by cases (auto simp: n(2) of_char_enc6)
qed

lemma b64_char_not:
  assumes "b64_char c"
  shows "c \<noteq> CHR ''$''" "c \<noteq> CHR 0x0A" "c \<noteq> CHR 0x0D" "\<not> is_space c"
  using of_char_b64 [OF assms] by (auto simp: is_space_def)

lemma recombine:
  fixes v :: nat
  assumes "v < 16777216"
  shows "v div 262144 mod 64 * 262144 + v div 4096 mod 64 * 4096 + v div 64 mod 64 * 64 + v mod 64 = v"
proof -
  define p q r where pqr: "p = v div 64" "q = p div 64" "r = q div 64"
  have q: "v div 4096 = q" "v div 262144 = r" by (simp_all add: pqr div_mult2_eq [symmetric])
  have "v = p * 64 + v mod 64" "p = q * 64 + p mod 64" "q = r * 64 + q mod 64" by (simp_all add: pqr)
  moreover have "r < 64" using assms unfolding q(2) [symmetric] by linarith
  ultimately show ?thesis unfolding q pqr(1) [symmetric] by simp
qed

lemma three_bytes:
  "(of_char a * 65536 + of_char b * 256 + of_char c) div 65536 = (of_char a :: nat)"
  "(of_char a * 65536 + of_char b * 256 + of_char c) div 256 mod 256 = (of_char b :: nat)"
  "(of_char a * 65536 + of_char b * 256 + of_char c) mod 256 = (of_char c :: nat)"
  "of_char a * 65536 + of_char b * 256 + of_char c < (16777216 :: nat)"
proof -
  have lt: "of_char x < (256 :: nat)" for x by simp
  show "of_char a * 65536 + of_char b * 256 + of_char c < (16777216 :: nat)"
    using lt [of a] lt [of b] lt [of c] by linarith
  have "of_char b * 256 + of_char c < (65536 :: nat)" using lt [of b] lt [of c] by linarith
  then show "(of_char a * 65536 + of_char b * 256 + of_char c) div 65536 = (of_char a :: nat)"
    by (intro div_nat_eqI) simp_all
  have "(of_char a * 65536 + of_char b * 256 + of_char c) div 256 = (of_char a * 256 + of_char b :: nat)"
    by (rule div_nat_eqI) (use lt [of c] in simp_all)
  then show "(of_char a * 65536 + of_char b * 256 + of_char c) div 256 mod 256 = (of_char b :: nat)"
    by simp
  have "of_char a * 65536 + of_char b * 256 + of_char c = (of_char c + (of_char a * 256 + of_char b) * 256 :: nat)" by simp
  then show "(of_char a * 65536 + of_char b * 256 + of_char c) mod 256 = (of_char c :: nat)"
    using lt [of c] by (metis mod_less mod_mult_self1)
qed


lemma byte_values: "char_of (of_char c :: nat) = (c :: char)"
  by simp

lemma b64_encode_v:
  assumes "v = of_char a * 65536 + of_char b * 256 + of_char c"
  shows "map the (map dec6 (b64_encode (a # b # c # r))) =
      (v div 262144 mod 64) # (v div 4096 mod 64) # (v div 64 mod 64) # (v mod 64) # map the (map dec6 (b64_encode r))"
proof -
  have "b64_encode (a # b # c # r) =
      [enc6 (v div 262144 mod 64), enc6 (v div 4096 mod 64), enc6 (v div 64 mod 64), enc6 (v mod 64)] @ b64_encode r"
    by (simp only: b64_encode.simps Let_def assms)
  then show ?thesis by simp
qed

lemma b64_encode_v2:
  assumes "v = of_char a * 65536 + of_char b * 256"
  shows "map the (map dec6 (b64_encode [a, b])) = [v div 262144 mod 64, v div 4096 mod 64, v div 64 mod 64]"
proof -
  have "b64_encode [a, b] = [enc6 (v div 262144 mod 64), enc6 (v div 4096 mod 64), enc6 (v div 64 mod 64)]"
    by (simp only: b64_encode.simps Let_def assms)
  then show ?thesis by simp
qed

lemma b64_encode_v1:
  assumes "v = of_char a * 65536"
  shows "map the (map dec6 (b64_encode [a])) = [v div 262144 mod 64, v div 4096 mod 64]"
proof -
  have "b64_encode [a] = [enc6 (v div 262144 mod 64), enc6 (v div 4096 mod 64)]"
    by (simp only: b64_encode.simps Let_def assms)
  then show ?thesis by simp
qed

lemma aligned:
  fixes n m :: nat
  shows "(n * 65536) mod 64 = 0" "(n * 65536) div 64 mod 64 = 0" "(n * 65536 + m * 256) mod 64 = 0"
proof -
  have "n * 65536 = (n * 16) * 64 * 64" "n * 65536 + m * 256 = (n * 1024 + m * 4) * 64" by simp_all
  then show "(n * 65536) mod 64 = 0" "(n * 65536) div 64 mod 64 = 0" "(n * 65536 + m * 256) mod 64 = 0"
    by (metis mod_mult_self2_is_0, metis mod_mult_self2_is_0 nonzero_mult_div_cancel_right zero_neq_numeral, metis mod_mult_self2_is_0)
qed

lemma b64_bytes_enc: "b64_bytes (map the (map dec6 (b64_encode s))) = Some s"
proof (induction s rule: b64_encode.induct)
  case (2 a)
  define v :: nat where v: "v = of_char a * 65536"
  have b: "v div 65536 = of_char a" "v < 16777216"
    using three_bytes(1,4) [of a "char_of (0::nat)" "char_of (0::nat)"] by (simp_all add: v)
  have "v div 262144 mod 64 * 262144 + v div 4096 mod 64 * 4096 = v"
    using recombine [OF b(2)] unfolding aligned(1,2) [of "of_char a", folded v] by (simp only: mult_0 add_0_right)
  then show ?case by (simp only: b64_encode_v1 [OF v] b64_bytes.simps Let_def b(1) byte_values)
next
  case (3 a b)
  define v :: nat where v: "v = of_char a * 65536 + of_char b * 256"
  have b: "v div 65536 = of_char a" "v div 256 mod 256 = of_char b" "v < 16777216"
    using three_bytes(1,2,4) [of a b "char_of (0::nat)"] by (simp_all add: v)
  have "v div 262144 mod 64 * 262144 + v div 4096 mod 64 * 4096 + v div 64 mod 64 * 64 = v"
    using recombine [OF b(3)] unfolding aligned(3) [of "of_char a" "of_char b", folded v] by (simp only: add_0_right)
  then show ?case by (simp only: b64_encode_v2 [OF v] b64_bytes.simps Let_def b(1,2) byte_values)
next
  case (4 a b c r)
  define v :: nat where v: "v = of_char a * 65536 + of_char b * 256 + of_char c"
  note b = three_bytes [of a b c, folded v]
  show ?case
    by (simp only: b64_encode_v [OF v] b64_bytes.simps Let_def recombine [OF b(4)] b(1-3) byte_values 4 option.map append.simps)
qed simp

lemma b64_roundtrip: "b64_decode (b64_encode s) = Some s"
proof -
  have "filter (\<lambda>c. c \<noteq> CHR 0x0A \<and> c \<noteq> CHR 0x0D) (b64_encode s) = b64_encode s"
    using b64_chars b64_char_not by (auto intro: filter_True)
  moreover have "None \<notin> set (map dec6 (b64_encode s))"
    using b64_chars [of _ s] by (fastforce simp: b64_char_def)
  ultimately show ?thesis by (simp add: b64_decode_def b64_bytes_enc del: map_map)
qed


lemma nat_of_digits_take:
  assumes "\<not> is_digit c"
  shows "takeWhile is_digit (nat_digits n @ c # s) = nat_digits n" "dropWhile is_digit (nat_digits n @ c # s) = c # s"
    "takeWhile is_digit (nat_digits n) = nat_digits n" "dropWhile is_digit (nat_digits n) = []"
  using assms nat_digits_are_digits [of _ n] by (simp_all add: takeWhile_append2 dropWhile_append2 takeWhile_eq_all)

lemma digit_not_space: "is_digit c \<Longrightarrow> \<not> is_space c"
  by (auto simp: is_digit_def is_space_def less_eq_char_def)

lemma scan_uint_digits:
  assumes "n < 2 ^ bits"
  shows "\<not> is_digit c \<Longrightarrow> scan_uint bits (nat_digits n @ c # s) = Some (n, c # s)"
    and "scan_uint bits (nat_digits n) = Some (n, [])"
proof -
  obtain d ds where d: "nat_digits n = d # ds" "is_digit d"
    using nat_digits_are_digits [of _ n] nat_digits_nonempty [of n] by (metis list.set_intros(1) neq_Nil_conv)
  have keep: "dropWhile (\<lambda>c. is_space c \<and> c \<noteq> newline) (nat_digits n @ s) = nat_digits n @ s" for s
    using d digit_not_space by simp
  show "\<not> is_digit c \<Longrightarrow> scan_uint bits (nat_digits n @ c # s) = Some (n, c # s)"
    using assms by (simp add: scan_uint_def Let_def keep nat_of_digits_take)
  have "\<not> is_digit (CHR '' '')" by (simp add: is_digit_def less_eq_char_def)
  with assms show "scan_uint bits (nat_digits n) = Some (n, [])"
    using keep [of "[]"] by (simp add: scan_uint_def Let_def nat_of_digits_take)
qed

lemma scan_params_phc:
  assumes "m < 2 ^ 32" and "t < 2 ^ 32" and "p < 2 ^ 8"
  shows "scan_params (''m='' @ nat_digits m @ '',t='' @ nat_digits t @ '',p='' @ nat_digits p) = Some (m, t, p)"
proof -
  have c: "\<not> is_digit (CHR '','')" by (simp add: is_digit_def less_eq_char_def)
  have cut: "cut_prefix (x # xs) (y # ys) = (if x = y then cut_prefix xs ys else None)" "cut_prefix [] ys = Some ys" for x y :: char and xs ys
    by (simp_all add: cut_prefix_def)
  show ?thesis
    unfolding scan_params_def
    by (simp add: cut scan_uint_digits(1) [OF assms(1) c] scan_uint_digits(1) [OF assms(2) c] scan_uint_digits(2) [OF assms(3)])
qed

lemma split_phc:
  assumes "CHR ''$'' \<notin> set a" "CHR ''$'' \<notin> set b" "CHR ''$'' \<notin> set c"
  shows "split_on (CHR ''$'') (''$argon2id$v=19$'' @ a @ ''$'' @ b @ ''$'' @ c) = [[], ''argon2id'', ''v=19'', a, b, c]"
  using assms by (simp add: split_on_append split_on_no_sep)

text \<open>The salt and the key are read back exactly, so that the check compares the keys.\<close>

lemma verify_make:
  assumes "\<And>pw s t m p. length (argon pw s t m p argonKeyLen) = argonKeyLen"
  shows "verifyPHC argon (make_phc argon pw salt) pw' \<longleftrightarrow>
    argon pw' salt argonTime argonMemory argonThreads argonKeyLen = argon pw salt argonTime argonMemory argonThreads argonKeyLen"
proof -
  let ?ps = "''m='' @ nat_digits argonMemory @ '',t='' @ nat_digits argonTime @ '',p='' @ nat_digits argonThreads"
  let ?key = "argon pw salt argonTime argonMemory argonThreads argonKeyLen"
  have digits: "CHR ''$'' \<notin> set (nat_digits n)" for n
    using nat_digits_are_digits [of "CHR ''$''" n] by (auto simp: is_digit_def less_eq_char_def)
  have b64: "CHR ''$'' \<notin> set (b64_encode s)" for s
    using b64_chars [of "CHR ''$''" s] b64_char_not(1) by blast
  have "make_phc argon pw salt = ''$argon2id$v=19$'' @ ?ps @ ''$'' @ b64_encode salt @ ''$'' @ b64_encode ?key"
    by (simp add: make_phc_def Let_def)
  moreover have "CHR ''$'' \<notin> set ?ps" using digits by simp
  ultimately have "split_on (CHR ''$'') (make_phc argon pw salt) =
      [[], ''argon2id'', ''v=19'', ?ps, b64_encode salt, b64_encode ?key]"
    using split_phc [OF _ b64 b64] by presburger
  moreover have "scan_params ?ps = Some (argonMemory, argonTime, argonThreads)"
    by (rule scan_params_phc) (simp_all add: argonMemory_def argonTime_def argonThreads_def)
  ultimately show ?thesis
    by (simp add: verifyPHC_def Let_def b64_roundtrip assms)
qed

lemma hex_facts: "length (hex_encode s) = 2 * length s" "c \<in> set (hex_encode s) \<Longrightarrow> \<not> is_space c"
proof -
  show "length (hex_encode s) = 2 * length s"
    by (induction s) (simp_all add: hex_encode_def)
  have "\<not> is_space (hex_digit d)" if "d < 16" for d
  proof -
    have "48 \<le> (of_char (hex_digit d) :: nat)" using that by (simp add: hex_digit_def)
    then show ?thesis by (auto simp: is_space_def)
  qed
  moreover assume "c \<in> set (hex_encode s)"
  then obtain x where "c = hex_digit (of_char x div 16) \<or> c = hex_digit (of_char x mod 16)"
    by (auto simp: hex_encode_def)
  moreover have "of_char x div 16 < (16 :: nat)" for x :: char
    by (simp add: less_mult_imp_div_less)
  ultimately show "\<not> is_space c" by auto
qed

end
