(* ===== verification/Auth.thy ===== *)
theory Auth
  imports Codec Config_Store
begin

text \<open>
  Authentication (\<open>internal/api/token.go\<close>, \<open>internal/api/sessions.go\<close>): the bearer token for scripts,
  the administrator's password with its throttling, the marker that switches the protection off, and the
  cookie sessions, which are tied to the version of the password file. The files under
  \<open><dataDir>/auth\<close> are explicit (\<open>au_files\<close>), since another process (\<open>detour-agent reset-password\<close>)
  shares them; the environment decides when an operation on them fails. A modification time is the
  clock's reading when the file was written. The key derivation (argon2) is a parameter.
\<close>

section \<open>Files\<close>

record auth_file =
  af_text :: string
  af_mtime :: int

text \<open>\<open>si_file\<close> is a ghost: the password file when the session was made.\<close>

record session_info =
  si_expires :: int
  si_pwVersion :: string
  si_file :: "auth_file option"

record auth_world = world +
  au_dir :: string
  au_files :: "string \<Rightarrow> auth_file option"
  au_token :: string
  au_sessions :: "string \<Rightarrow> session_info option"
  au_failures :: nat
  au_blockedTo :: "int option"

text \<open>\<open>os.WriteFile\<close> truncates the file first: a failed write may leave it empty.\<close>

definition au_put :: "env \<Rightarrow> string \<Rightarrow> string \<Rightarrow> ('z auth_world_scheme, unit) state" where
  "au_put E path text = modify (\<lambda>w. w\<lparr>au_files := (au_files w)(path \<mapsto>
     \<lparr>af_text = text, af_mtime = env_clock E (trace w)\<rparr>)\<rparr>)"

definition au_write :: "env \<Rightarrow> string \<Rightarrow> string \<Rightarrow> ('z auth_world_scheme, go_error option) state" where
  "au_write E path text = do {
     e \<leftarrow> do_write E path text;
     (case e of
        None \<Rightarrow> do { au_put E path text; ret None }
      | Some m \<Rightarrow> do {
          torn \<leftarrow> do_flag E ''torn write'';
          (if torn then au_put E path [] else ret ());
          ret (Some (PlainError m))
        })
   }"

definition au_read :: "env \<Rightarrow> string \<Rightarrow> ('z auth_world_scheme, file_read) state" where
  "au_read E path = do {
     w \<leftarrow> getw;
     r \<leftarrow> do_read E path;
     ret (case au_files w path of
         None \<Rightarrow> Missing
       | Some f \<Rightarrow> (case r of Inl m \<Rightarrow> ReadError m | Inr _ \<Rightarrow> Content (af_text f)))
   }"

text \<open>\<open>os.Stat\<close>: the file if it exists and the call does not fail.\<close>

definition au_stat :: "env \<Rightarrow> string \<Rightarrow> ('z auth_world_scheme, auth_file option) state" where
  "au_stat E path = do {
     w \<leftarrow> getw;
     ok \<leftarrow> do_flag E path;
     ret (if ok then au_files w path else None)
   }"

text \<open>\<open>os.Remove\<close>; the errors are those that are not \<open>IsNotExist\<close>.\<close>

definition au_remove :: "env \<Rightarrow> string \<Rightarrow> ('z auth_world_scheme, go_error option) state" where
  "au_remove E path = do {
     w \<leftarrow> getw;
     e \<leftarrow> do_fs E ''remove'' [path];
     (case e of
        Some m \<Rightarrow> ret (if au_files w path = None then None else Some (PlainError m))
      | None \<Rightarrow> do { modify (\<lambda>w. w\<lparr>au_files := (au_files w)(path := None)\<rparr>); ret None })
   }"

definition au_mkdir :: "env \<Rightarrow> string \<Rightarrow> ('z auth_world_scheme, go_error option) state" where
  "au_mkdir E path = do { e \<leftarrow> do_fs E ''mkdir'' [path, ''0700'']; ret (map_option PlainError e) }"

text \<open>\<open>crypto/rand\<close> fills the buffer of \<open>n\<close> bytes, or fails.\<close>

definition rand_bytes :: "env \<Rightarrow> nat \<Rightarrow> ('z world_scheme, string res) state" where
  "rand_bytes E n = do {
     r \<leftarrow> do_read E ''/dev/urandom'';
     ret (case r of Inl m \<Rightarrow> Inl (PlainError m) | Inr s \<Rightarrow> Inr (take n (s @ replicate n (char_of (0::nat)))))
   }"

text \<open>The early return on an error of a step without a result.\<close>

definition then_go :: "('s, go_error option) state \<Rightarrow> ('s, go_error option) state \<Rightarrow> ('s, go_error option) state" where
  "then_go m k = do { e \<leftarrow> m; (case e of Some err \<Rightarrow> ret (Some err) | None \<Rightarrow> k) }"

section \<open>The token\<close>

abbreviation token_path :: "'z auth_world_scheme \<Rightarrow> string" where
  "token_path w \<equiv> au_dir w @ ''/token''"

definition tok_generate :: "env \<Rightarrow> ('z auth_world_scheme, go_error option) state" where
  "tok_generate E = do {
     b \<leftarrow> rand_bytes E 32;
     (case b of
        Inl err \<Rightarrow> ret (Some err)
      | Inr buf \<Rightarrow> (let token = ''dtr_'' @ hex_encode buf in do {
          w \<leftarrow> getw;
          then_go (au_mkdir E (au_dir w))
            (then_go (au_write E (token_path w) (token @ [newline]))
              (do { modify (\<lambda>w. w\<lparr>au_token := token\<rparr>); ret None }))
        }))
   }"

definition new_token_store :: "env \<Rightarrow> ('z auth_world_scheme, go_error option) state" where
  "new_token_store E = do {
     w \<leftarrow> getw;
     r \<leftarrow> au_read E (token_path w);
     (case r of
        Content raw \<Rightarrow>
          if 32 \<le> length (trim_space raw) then do { modify (\<lambda>w. w\<lparr>au_token := trim_space raw\<rparr>); ret None }
          else tok_generate E
      | ReadError m \<Rightarrow> ret (Some (PlainError m))
      | Missing \<Rightarrow> tok_generate E)
   }"

definition tok_current :: "('z auth_world_scheme, string) state" where
  "tok_current = do { w \<leftarrow> getw; ret (au_token w) }"

definition tok_verify :: "string \<Rightarrow> ('z auth_world_scheme, bool) state" where
  "tok_verify presented = do {
     w \<leftarrow> getw;
     ret (if au_token w = [] \<or> presented = [] then False else au_token w = presented)
   }"

definition tok_rotate :: "env \<Rightarrow> ('z auth_world_scheme, string res) state" where
  "tok_rotate E = do {
     e \<leftarrow> tok_generate E;
     w \<leftarrow> getw;
     ret (case e of Some err \<Rightarrow> Inl err | None \<Rightarrow> Inr (au_token w))
   }"

section \<open>The password\<close>

abbreviation pw_path :: "'z auth_world_scheme \<Rightarrow> string" where
  "pw_path w \<equiv> au_dir w @ ''/password''"

abbreviation disabled_path :: "'z auth_world_scheme \<Rightarrow> string" where
  "disabled_path w \<equiv> au_dir w @ ''/disabled''"

definition hasPassword :: "env \<Rightarrow> ('z auth_world_scheme, bool) state" where
  "hasPassword E = do { w \<leftarrow> getw; f \<leftarrow> au_stat E (pw_path w); ret (f \<noteq> None) }"

definition authDisabled :: "env \<Rightarrow> ('z auth_world_scheme, bool) state" where
  "authDisabled E = do {
     has \<leftarrow> hasPassword E;
     w \<leftarrow> getw;
     (if has then do { _ \<leftarrow> au_remove E (disabled_path w); ret False }
      else do { f \<leftarrow> au_stat E (disabled_path w); ret (f \<noteq> None) })
   }"

definition auth_skip :: "env \<Rightarrow> ('z auth_world_scheme, go_error option) state" where
  "auth_skip E = do {
     has \<leftarrow> hasPassword E;
     w \<leftarrow> getw;
     (if has then ret (Some PasswordSet)
      else then_go (au_mkdir E (au_dir w)) (au_write E (disabled_path w) []))
   }"

definition version_of :: "auth_file option \<Rightarrow> string" where
  "version_of f = (case f of None \<Rightarrow> [] | Some f \<Rightarrow> int_str (af_mtime f) @ ''-'' @ nat_digits (length (af_text f)))"

definition pwVersion :: "env \<Rightarrow> ('z auth_world_scheme, string) state" where
  "pwVersion E = do { w \<leftarrow> getw; f \<leftarrow> au_stat E (pw_path w); ret (version_of f) }"

definition setPassword :: "env \<Rightarrow> kdf \<Rightarrow> string \<Rightarrow> ('z auth_world_scheme, go_error option) state" where
  "setPassword E argon password = do {
     b \<leftarrow> rand_bytes E 16;
     (case b of
        Inl err \<Rightarrow> ret (Some err)
      | Inr salt \<Rightarrow> do {
          w \<leftarrow> getw;
          then_go (au_mkdir E (au_dir w))
            (then_go (au_write E (pw_path w) (make_phc argon password salt @ [newline]))
              (au_remove E (disabled_path w)))
        })
   }"

definition throttleAfter :: nat where "throttleAfter = 5"
definition throttleFor :: int where "throttleFor = seconds 30"

text \<open>The check of the throttle, the comparison, and the count of failures. The lock is released
  between the first and the last.\<close>

definition verify_begin :: "env \<Rightarrow> ('z auth_world_scheme, bool) state" where
  "verify_begin E = do {
     now \<leftarrow> do_clock E;
     w \<leftarrow> getw;
     ret (case au_blockedTo w of None \<Rightarrow> True | Some t \<Rightarrow> \<not> now < t)
   }"

definition verify_compare :: "env \<Rightarrow> kdf \<Rightarrow> string \<Rightarrow> ('z auth_world_scheme, bool res) state" where
  "verify_compare E argon password = do {
     w \<leftarrow> getw;
     r \<leftarrow> au_read E (pw_path w);
     ret (case r of
         Content raw \<Rightarrow> Inr (verifyPHC argon (trim_space raw) password)
       | ReadError m \<Rightarrow> Inl (PlainError m)
       | Missing \<Rightarrow> Inl (PlainError ''no such file or directory''))
   }"

definition verify_end :: "env \<Rightarrow> bool \<Rightarrow> ('z auth_world_scheme, unit) state" where
  "verify_end E ok =
     (if ok then modify (\<lambda>w. w\<lparr>au_failures := 0\<rparr>)
      else do {
        modify (\<lambda>w. w\<lparr>au_failures := Suc (au_failures w)\<rparr>);
        w \<leftarrow> getw;
        (if throttleAfter \<le> au_failures w then do {
           now \<leftarrow> do_clock E;
           modify (\<lambda>w. w\<lparr>au_blockedTo := Some (now + throttleFor), au_failures := 0\<rparr>)
         } else ret ())
      })"

definition verifyPassword :: "env \<Rightarrow> kdf \<Rightarrow> string \<Rightarrow> ('z auth_world_scheme, bool res) state" where
  "verifyPassword E argon password = do {
     free \<leftarrow> verify_begin E;
     (if \<not> free then ret (Inl Throttled)
      else attempt (verify_compare E argon password) (\<lambda>ok. do { verify_end E ok; ret (Inr ok) }))
   }"

section \<open>Sessions\<close>

definition sessionTTL :: int where
  "sessionTTL = seconds (30 * 24 * 60 * 60)"

text \<open>A buffer that could not be filled stays as it was.\<close>

definition rand_or :: "string \<Rightarrow> string res \<Rightarrow> string" where
  "rand_or old r = (case r of Inl _ \<Rightarrow> old | Inr b \<Rightarrow> b)"

definition createSession :: "env \<Rightarrow> ('z auth_world_scheme, string \<times> string) state" where
  "createSession E = do {
     r1 \<leftarrow> rand_bytes E 32;
     let b = rand_or (replicate 32 (char_of (0::nat))) r1;
     let session = hex_encode b;
     r2 \<leftarrow> rand_bytes E 32;
     let csrf = hex_encode (rand_or b r2);
     now \<leftarrow> do_clock E;
     w \<leftarrow> getw;
     f \<leftarrow> au_stat E (pw_path w);
     modify (\<lambda>w. w\<lparr>au_sessions := (au_sessions w)(session \<mapsto>
       \<lparr>si_expires = now + sessionTTL, si_pwVersion = version_of f, si_file = f\<rparr>)\<rparr>);
     ret (session, csrf)
   }"

definition dropSession :: "string \<Rightarrow> ('z auth_world_scheme, unit) state" where
  "dropSession s = modify (\<lambda>w. w\<lparr>au_sessions := (au_sessions w)(s := None)\<rparr>)"

definition dropAllSessions :: "('z auth_world_scheme, unit) state" where
  "dropAllSessions = modify (\<lambda>w. w\<lparr>au_sessions := (\<lambda>_. None)\<rparr>)"

definition auth_disable :: "env \<Rightarrow> kdf \<Rightarrow> string \<Rightarrow> ('z auth_world_scheme, bool res) state" where
  "auth_disable E argon password = attempt (verifyPassword E argon password) (\<lambda>ok.
     if \<not> ok then ret (Inr False)
     else do {
       w \<leftarrow> getw;
       e \<leftarrow> then_go (au_write E (disabled_path w) []) (au_remove E (pw_path w));
       (case e of
          Some err \<Rightarrow> ret (Inl err)
        | None \<Rightarrow> do { dropAllSessions; ret (Inr True) })
     })"

text \<open>A new process has no sessions.\<close>

definition newSessionManager :: "string \<Rightarrow> 'z auth_world_scheme \<Rightarrow> 'z auth_world_scheme" where
  "newSessionManager authDir w = w\<lparr>au_dir := authDir, au_sessions := (\<lambda>_. None), au_failures := 0, au_blockedTo := None\<rparr>"

section \<open>Requests\<close>

text \<open>What the handlers read of a request; header names are in canonical form.\<close>

record request =
  rq_method :: string
  rq_host :: string
  rq_headers :: "(string \<times> string) list"
  rq_cookies :: "(string \<times> string) list"

definition header_get :: "'r request_scheme \<Rightarrow> string \<Rightarrow> string" where
  "header_get r k = (case map_of (rq_headers r) k of None \<Rightarrow> [] | Some v \<Rightarrow> v)"

definition sessionCookie :: string where "sessionCookie = ''detour_session''"
definition csrfCookie :: string where "csrfCookie = ''detour_csrf''"
definition csrfHeader :: string where "csrfHeader = ''X-Csrf-Token''"

definition safe_method :: "string \<Rightarrow> bool" where
  "safe_method m \<longleftrightarrow> m \<in> {''GET'', ''HEAD'', ''OPTIONS''}"

definition csrf_ok :: "'r request_scheme \<Rightarrow> bool" where
  "csrf_ok r = (case map_of (rq_cookies r) csrfCookie of None \<Rightarrow> False | Some v \<Rightarrow> v = header_get r csrfHeader)"

definition verifyRequest :: "env \<Rightarrow> 'r request_scheme \<Rightarrow> ('z auth_world_scheme, bool) state" where
  "verifyRequest E r =
     (case map_of (rq_cookies r) sessionCookie of
        None \<Rightarrow> ret False
      | Some s \<Rightarrow> do {
          w \<leftarrow> getw;
          (case au_sessions w s of
             None \<Rightarrow> ret False
           | Some info \<Rightarrow> do {
               now \<leftarrow> do_clock E;
               (if si_expires info < now then ret False
                else do {
                  v \<leftarrow> pwVersion E;
                  (if si_pwVersion info \<noteq> v then do { dropSession s; ret False }
                   else ret (safe_method (rq_method r) \<or> csrf_ok r))
                })
             })
        })"

text \<open>\<open>detour-agent reset-password\<close>, a process of its own on the same files.\<close>

definition resetPassword :: "env \<Rightarrow> ('z auth_world_scheme, go_error option) state" where
  "resetPassword E = do {
     w \<leftarrow> getw;
     then_go (au_remove E (pw_path w)) (au_remove E (disabled_path w))
   }"

section \<open>Sessions and the password file\<close>

text \<open>Version strings identify the modification time.\<close>

lemma int_str_inj: "int_str a = int_str b \<Longrightarrow> a = b"
proof -
  have minus: "nat_digits n \<noteq> CHR ''-'' # s" for n s
    using nat_digits_are_digits [of "CHR ''-''" n] by (auto simp: is_digit_def less_eq_char_def)
  assume "int_str a = int_str b"
  then show ?thesis
    using minus [of "nat a"] minus [of "nat b"] minus [of "nat a", symmetric] minus [of "nat b", symmetric]
    by (auto simp: int_str_def split: if_splits dest!: nat_digits_inj)
qed

lemma append_last_sep:
  assumes "xs @ c # ys = xs' @ c # ys'" and "c \<notin> set ys" and "c \<notin> set ys'"
  shows "xs = xs'"
proof -
  obtain us where "xs = xs' @ us \<and> us @ c # ys = c # ys' \<or> xs @ us = xs' \<and> c # ys = us @ c # ys'"
    using assms(1) unfolding append_eq_append_conv2 by blast
  with assms(2,3) show ?thesis by (cases us) auto
qed

lemma version_inj:
  assumes "version_of f = version_of g"
  shows "map_option af_mtime f = map_option af_mtime g"
proof -
  have digits: "CHR ''-'' \<notin> set (nat_digits n)" for n
    using nat_digits_are_digits [of "CHR ''-''" n] by (auto simp: is_digit_def less_eq_char_def)
  show ?thesis
  proof (cases f; cases g)
    fix f' g' assume fg: "f = Some f'" "g = Some g'"
    with assms have "int_str (af_mtime f') @ CHR ''-'' # nat_digits (length (af_text f')) =
        int_str (af_mtime g') @ CHR ''-'' # nat_digits (length (af_text g'))"
      by (simp add: version_of_def)
    from int_str_inj [OF append_last_sep [OF this digits digits]] show ?thesis by (simp add: fg)
  qed (use assms in \<open>auto simp: version_of_def int_str_def\<close>)
qed

text \<open>A file written later has a later modification time.\<close>

definition file_clock :: "env \<Rightarrow> bool" where
  "file_clock E \<longleftrightarrow> (\<forall>h es. env_clock E h \<le> env_clock E (h @ es)) \<and>
     (\<forall>h p c. env_clock E h < env_clock E (h @ [WriteFile p c]))"

definition sess_inv :: "env \<Rightarrow> 'z auth_world_scheme \<Rightarrow> bool" where
  "sess_inv E w \<longleftrightarrow>
     (\<forall>g. au_files w (pw_path w) = Some g \<longrightarrow> af_mtime g \<le> env_clock E (trace w)) \<and>
     (\<forall>s info. au_sessions w s = Some info \<longrightarrow> si_pwVersion info = version_of (si_file info) \<and>
        (\<forall>f. si_file info = Some f \<longrightarrow> af_mtime f \<le> env_clock E (trace w) \<and>
          (\<forall>g. au_files w (pw_path w) = Some g \<and> af_mtime f = af_mtime g \<longrightarrow> f = g)))"

definition bound :: "env \<Rightarrow> ('z auth_world_scheme, 'a) state \<Rightarrow> bool" where
  "bound E m \<longleftrightarrow> (\<forall>w. sess_inv E w \<longrightarrow> sess_inv E (snd (run_state m w)))"

named_theorems bound_intros \<open>operations that keep the sessions bound to the password file\<close>

lemma bound_bind [bound_intros]: "bound E m \<Longrightarrow> (\<And>x. bound E (f x)) \<Longrightarrow> bound E (m \<bind> f)"
  by (simp add: bound_def split: prod.split) (metis snd_conv)

lemma bound_basic [bound_intros]: "bound E (ret x)" "bound E getw"
  by (simp_all add: bound_def)

lemma bound_cases [bound_intros]:
  "bound E a \<Longrightarrow> bound E b \<Longrightarrow> bound E (if c then a else b)"
  "bound E a \<Longrightarrow> (\<And>x. bound E (f x)) \<Longrightarrow> bound E (case_option a f r)"
  "(\<And>x. bound E (g x)) \<Longrightarrow> (\<And>x. bound E (h x)) \<Longrightarrow> bound E (case_sum g h s)"
  "bound E a \<Longrightarrow> (\<And>x. bound E (k1 x)) \<Longrightarrow> (\<And>x. bound E (k2 x)) \<Longrightarrow> bound E (case_file_read a k1 k2 fr)"
  "(\<And>x y. bound E (k x y)) \<Longrightarrow> bound E (case_prod k p)"
  by (auto split: option.split sum.split prod.split file_read.split)

lemma bound_attempt [bound_intros]: "bound E m \<Longrightarrow> (\<And>x. bound E (f x)) \<Longrightarrow> bound E (attempt m f)"
  unfolding attempt_def by (intro bound_intros)

lemma bound_then_go [bound_intros]: "bound E m \<Longrightarrow> bound E k \<Longrightarrow> bound E (then_go m k)"
  unfolding then_go_def by (intro bound_intros)

lemma sess_inv_later:
  assumes "file_clock E" and "sess_inv E w"
  shows "sess_inv E (w\<lparr>trace := trace w @ es\<rparr>)"
  using assms by (fastforce simp: sess_inv_def file_clock_def intro: order_trans)

lemma bound_only: "file_clock E \<Longrightarrow> only_effects m \<Longrightarrow> bound E m"
  unfolding bound_def only_effects_def by (metis sess_inv_later)

lemma auth_only [ext_intros]:
  "only_effects (rand_bytes E n)" "only_effects (au_stat E p)" "only_effects (au_read E p)" "only_effects (au_mkdir E p)"
  "only_effects (hasPassword E)" "only_effects (pwVersion E)" "only_effects (verify_begin E)"
  "only_effects (verify_compare E argon pw)" "only_effects (tok_verify t)" "only_effects tok_current"
proof -
  show s: "only_effects (au_stat E p)" and r: "only_effects (au_read E p)" for p
    unfolding au_stat_def au_read_def by (intro ext_intros)+
  show "only_effects (rand_bytes E n)" "only_effects (au_mkdir E p)" "only_effects (hasPassword E)"
    "only_effects (pwVersion E)" "only_effects (verify_begin E)" "only_effects (verify_compare E argon pw)"
    "only_effects (tok_verify t)" "only_effects tok_current"
    unfolding rand_bytes_def au_mkdir_def hasPassword_def pwVersion_def verify_begin_def verify_compare_def
      tok_verify_def tok_current_def
    by (intro ext_intros s r)+
qed

lemma sess_inv_write:
  assumes "file_clock E" and "sess_inv E w"
  shows "sess_inv E (w\<lparr>trace := trace w @ WriteFile p c # es,
    au_files := (au_files w)(q \<mapsto> \<lparr>af_text = t, af_mtime = env_clock E (trace w @ WriteFile p c # es)\<rparr>)\<rparr>)"
proof -
  have "env_clock E (trace w) < env_clock E (trace w @ [WriteFile p c])"
    "env_clock E (trace w @ [WriteFile p c]) \<le> env_clock E ((trace w @ [WriteFile p c]) @ es)"
    using assms(1) unfolding file_clock_def by blast+
  then have lt: "env_clock E (trace w) < env_clock E (trace w @ WriteFile p c # es)" by simp
  have "x \<le> env_clock E (trace w) \<Longrightarrow> x \<le> env_clock E (trace w @ WriteFile p c # es) \<and> x \<noteq> env_clock E (trace w @ WriteFile p c # es)" for x
    using lt by auto
  with assms(2) show ?thesis by (auto simp: sess_inv_def)
qed

lemma bound_write [bound_intros]: "file_clock E \<Longrightarrow> bound E (au_write E p t)"
  using sess_inv_write [where es = "[]"] sess_inv_write [where es = "[Stat ''torn write'']"] sess_inv_later [of E]
  by (auto simp: bound_def au_write_def au_put_def split: option.split)

lemma bound_remove [bound_intros]: "file_clock E \<Longrightarrow> bound E (au_remove E p)"
  unfolding bound_def
proof (intro allI impI)
  fix w :: "'a auth_world_scheme"
  assume "file_clock E" "sess_inv E w"
  then have "sess_inv E (w\<lparr>trace := trace w @ [FsOp ''remove'' [p]]\<rparr>)" by (rule sess_inv_later)
  then show "sess_inv E (snd (run_state (au_remove E p) w))"
    by (auto simp: au_remove_def sess_inv_def split: option.split)
qed

lemma bound_modify [bound_intros]:
  "bound E (modify (\<lambda>w. w\<lparr>au_token := t\<rparr>))" "bound E (modify (\<lambda>w. w\<lparr>au_failures := g w\<rparr>))"
  "bound E (modify (\<lambda>w. w\<lparr>au_blockedTo := b, au_failures := n\<rparr>))" "bound E (dropSession s)" "bound E dropAllSessions"
  by (auto simp: bound_def sess_inv_def dropSession_def dropAllSessions_def)


lemma bound_new_session [bound_intros]:
  assumes "file_clock E"
  shows "bound E (do { w \<leftarrow> getw; f \<leftarrow> au_stat E (pw_path w);
     modify (\<lambda>w. w\<lparr>au_sessions := (au_sessions w)(s \<mapsto>
       \<lparr>si_expires = t, si_pwVersion = version_of f, si_file = f\<rparr>)\<rparr>); ret x })"
  unfolding bound_def
proof (intro allI impI)
  fix w :: "'a auth_world_scheme"
  assume "sess_inv E w"
  with assms have "sess_inv E (w\<lparr>trace := trace w @ [Stat (pw_path w)]\<rparr>)" by (rule sess_inv_later)
  then show "sess_inv E (snd (run_state (do { w \<leftarrow> getw; f \<leftarrow> au_stat E (pw_path w);
     modify (\<lambda>w. w\<lparr>au_sessions := (au_sessions w)(s \<mapsto>
       \<lparr>si_expires = t, si_pwVersion = version_of f, si_file = f\<rparr>)\<rparr>); ret x }) w))"
    by (auto simp: au_stat_def sess_inv_def)
qed

lemma bound_ops:
  assumes "file_clock E"
  shows "bound E (tok_generate E)" "bound E (new_token_store E)" "bound E (tok_rotate E)" "bound E (hasPassword E)"
    "bound E (authDisabled E)" "bound E (auth_skip E)" "bound E (setPassword E argon pw)" "bound E (verifyPassword E argon pw)"
    "bound E (createSession E)" "bound E (auth_disable E argon pw)" "bound E (verifyRequest E r)" "bound E (resetPassword E)"
proof -
  note ao = auth_only [THEN bound_only [OF assms]]
    and eo = only_basic [THEN bound_only [OF assms]]
    and wr = bound_write [OF assms] bound_remove [OF assms]
  show g: "bound E (tok_generate E)"
    unfolding tok_generate_def Let_def by (intro bound_intros ao eo wr)
  show "bound E (new_token_store E)" "bound E (tok_rotate E)"
    unfolding new_token_store_def tok_rotate_def by (intro bound_intros ao eo g)+
  show "bound E (hasPassword E)" by (rule ao)
  show "bound E (authDisabled E)" "bound E (auth_skip E)" "bound E (setPassword E argon pw)" "bound E (resetPassword E)"
    unfolding authDisabled_def auth_skip_def setPassword_def resetPassword_def by (intro bound_intros ao eo wr)+
  have e: "bound E (verify_end E ok)" for ok
    unfolding verify_end_def by (intro bound_intros eo)
  show v: "bound E (verifyPassword E argon pw)"
    unfolding verifyPassword_def by (intro bound_intros ao eo e)
  show "bound E (auth_disable E argon pw)"
    unfolding auth_disable_def by (intro bound_intros v wr eo)
  show "bound E (createSession E)"
    unfolding createSession_def Let_def by (intro bound_bind ao eo bound_new_session [OF assms])
  show "bound E (verifyRequest E r)"
    unfolding verifyRequest_def by (intro bound_intros ao eo)
qed

text \<open>What may happen on the agent and its files: any operation of the token store and the session manager, by any
  number of requests, the reset command of the other process, and anything that leaves them alone.\<close>

inductive auth_step :: "env \<Rightarrow> kdf \<Rightarrow> 'z auth_world_scheme \<Rightarrow> 'z auth_world_scheme \<Rightarrow> bool" for E argon where
  token_read: "auth_step E argon w (snd (run_state (new_token_store E) w))"
| token_rotated: "auth_step E argon w (snd (run_state (tok_rotate E) w))"
| disabled_read: "auth_step E argon w (snd (run_state (authDisabled E) w))"
| skipped: "auth_step E argon w (snd (run_state (auth_skip E) w))"
| password_set: "auth_step E argon w (snd (run_state (setPassword E argon pw) w))"
| password_tried: "auth_step E argon w (snd (run_state (verifyPassword E argon pw) w))"
| session_made: "auth_step E argon w (snd (run_state (createSession E) w))"
| session_dropped: "auth_step E argon w (snd (run_state (dropSession s) w))"
| all_dropped: "auth_step E argon w (snd (run_state dropAllSessions w))"
| disabled: "auth_step E argon w (snd (run_state (auth_disable E argon pw) w))"
| requested: "auth_step E argon w (snd (run_state (verifyRequest E (r :: request)) w))"
| password_reset: "auth_step E argon w (snd (run_state (resetPassword E) w))"
| elsewhere: "trace v = trace w @ es \<Longrightarrow> au_files v = au_files w \<Longrightarrow> au_sessions v = au_sessions w \<Longrightarrow> au_dir v = au_dir w \<Longrightarrow>
    auth_step E argon w v"

inductive auth_reach :: "env \<Rightarrow> kdf \<Rightarrow> 'z auth_world_scheme \<Rightarrow> bool" for E argon where
  start: "(\<And>g. au_files w (authDir @ ''/password'') = Some g \<Longrightarrow> af_mtime g \<le> env_clock E (trace w)) \<Longrightarrow>
    auth_reach E argon (newSessionManager authDir w)"
| step: "auth_reach E argon w \<Longrightarrow> auth_step E argon w v \<Longrightarrow> auth_reach E argon v"

lemma auth_step_inv:
  assumes "auth_step E argon w v" and "file_clock E" and "sess_inv E w"
  shows "sess_inv E v"
proof -
  note ops = bound_ops [OF assms(2)] bound_modify(4,5)
  show ?thesis
    using assms(1)
  proof (cases rule: auth_step.cases)
    case (elsewhere es)
    from sess_inv_later [OF assms(2,3), of es] elsewhere show ?thesis by (simp add: sess_inv_def)
  qed (simp_all only: bound_def ops [unfolded bound_def, rule_format, OF assms(3)])
qed

lemma auth_reach_inv: "auth_reach E argon w \<Longrightarrow> file_clock E \<Longrightarrow> sess_inv E w"
proof (induction rule: auth_reach.induct)
  case (step w v)
  then show ?case by (blast intro: auth_step_inv)
qed (simp add: sess_inv_def newSessionManager_def)

lemma same_file:
  assumes "sess_inv E w" and "au_sessions w s = Some info" and "si_pwVersion info = version_of (au_files w (pw_path w))"
  shows "si_file info = au_files w (pw_path w)"
proof -
  from assms have "version_of (si_file info) = version_of (au_files w (pw_path w))" by (simp add: sess_inv_def)
  from version_inj [OF this] show ?thesis
    using assms(1,2) by (cases "si_file info"; cases "au_files w (pw_path w)") (auto simp: sess_inv_def)
qed

text \<open>A request accepted by its cookies.\<close>

lemma verifyRequest_true:
  assumes "run_state (verifyRequest E r) w = (True, v)"
  obtains s info where "map_of (rq_cookies r) sessionCookie = Some s" and "au_sessions w s = Some info"
    and "env_clock E (trace w) \<le> si_expires info"
    and "si_pwVersion info = version_of (if env_flag E (trace w @ [Clock]) (pw_path w) then au_files w (pw_path w) else None)"
    and "safe_method (rq_method r) \<or> csrf_ok r"
  using assms
  by (auto simp: verifyRequest_def pwVersion_def au_stat_def dropSession_def split: option.splits if_splits)


definition demo_auth :: auth_world where
  "demo_auth = \<lparr>trace = [], au_dir = ''/data/auth'', au_files = [''/data/auth/password'' \<mapsto> \<lparr>af_text = ''h'', af_mtime = 0\<rparr>],
     au_token = ''dtr_'', au_sessions = (\<lambda>_. None), au_failures = 0, au_blockedTo = None\<rparr>"

definition demo_cookie :: string where
  "demo_cookie = hex_encode (replicate 32 (char_of (0::nat)))"

definition demo_get :: request where
  "demo_get = \<lparr>rq_method = ''GET'', rq_host = ''localhost'', rq_headers = [], rq_cookies = [(sessionCookie, demo_cookie)]\<rparr>"

lemma ok_facts: "env_flag ok_env h p" "env_clock ok_env h = int (length h)" "env_read ok_env h p = Inr []"
  "env_write ok_env h p c = None" "env_fs ok_env h p as = None"
  by (simp_all add: ok_env_def)

lemma ok_file_clock: "file_clock ok_env"
  by (simp add: file_clock_def ok_env_def)

lemma demo_login: "run_state (createSession ok_env) demo_auth = ((demo_cookie, demo_cookie),
   demo_auth\<lparr>trace := [ReadFile ''/dev/urandom'', ReadFile ''/dev/urandom'', Clock, Stat ''/data/auth/password''],
     au_sessions := [demo_cookie \<mapsto> \<lparr>si_expires = 2 + sessionTTL, si_pwVersion = version_of (Some \<lparr>af_text = ''h'', af_mtime = 0\<rparr>),
       si_file = Some \<lparr>af_text = ''h'', af_mtime = 0\<rparr>\<rparr>]\<rparr>)"
  by (simp add: createSession_def rand_bytes_def ok_env_def au_stat_def rand_or_def demo_auth_def demo_cookie_def Let_def)


section \<open>The password\<close>

lemma make_phc_trim:
  assumes "length (argon pw salt argonTime argonMemory argonThreads argonKeyLen) = argonKeyLen"
  shows "trim_space (make_phc argon pw salt) = make_phc argon pw salt"
proof -
  let ?key = "b64_encode (argon pw salt argonTime argonMemory argonThreads argonKeyLen)"
  obtain a where a: "make_phc argon pw salt = CHR ''$'' # a @ ?key" by (simp add: make_phc_def Let_def)
  have "argon pw salt argonTime argonMemory argonThreads argonKeyLen \<noteq> []" using assms by (auto simp: argonKeyLen_def)
  then have "?key \<noteq> []" by (cases rule: b64_encode.cases [of "argon pw salt argonTime argonMemory argonThreads argonKeyLen"]) (auto simp: Let_def)
  then have "last (make_phc argon pw salt) \<in> set ?key" by (simp add: a)
  then have "\<not> is_space (last (make_phc argon pw salt))" using b64_chars b64_char_not(4) by blast
  then show ?thesis by (intro trim_space_id) (simp add: a is_space_def)
qed

text \<open>C38: A password that was set is the one that is asked for. After \<open>SetPassword\<close> returned no error, a comparison
  accepts exactly the passwords with the same key (for the salt drawn), the set one among them; the protection
  is on, and no marker remains.\<close>

theorem password_set_is_checked:
  assumes "run_state (setPassword E argon pw) w = (None, v)"
    and "\<And>p s t m n. length (argon p s t m n argonKeyLen) = argonKeyLen"
  shows "au_files v (disabled_path v) = None \<and> au_dir v = au_dir w \<and> (\<exists>salt. length salt = 16 \<and>
    (\<forall>es m x. env_read E (trace v @ es) (pw_path v) = Inr x \<longrightarrow>
      fst (run_state (verify_compare E argon pw') (v\<lparr>trace := trace v @ es\<rparr>)) =
        Inr (argon pw' salt argonTime argonMemory argonThreads argonKeyLen = argon pw salt argonTime argonMemory argonThreads argonKeyLen)))"
proof -
  obtain salt where salt: "fst (run_state (rand_bytes E 16) w) = Inr salt" "length salt = 16"
    using assms(1) by (auto simp: setPassword_def rand_bytes_def split: sum.splits)
  let ?phc = "make_phc argon pw salt"
  have files: "au_files v (disabled_path v) = None" "au_dir v = au_dir w" "map_option af_text (au_files v (pw_path v)) = Some (?phc @ [newline])"
    using assms(1) salt(1)
    by (auto simp: setPassword_def rand_bytes_def then_go_def au_mkdir_def au_write_def au_put_def au_remove_def
        split: sum.splits option.splits if_splits)
  have "trim_space (?phc @ [newline]) = ?phc"
    using make_phc_trim assms(2) by simp
  with files show ?thesis
    using salt(2) verify_make [of argon pw salt pw'] assms(2)
    by (intro conjI exI [of _ salt]) (auto simp: verify_compare_def au_read_def)
qed

definition demo_kdf :: kdf where
  "demo_kdf pw salt t m p n = take n (pw @ salt @ replicate n (CHR ''x''))"

theorem password_set_is_checked_witness:
  "fst (run_state (verify_compare ok_env demo_kdf ''hunter2'')
     (snd (run_state (setPassword ok_env demo_kdf ''hunter2'') demo_auth))) = Inr True"
proof -
  have len: "length (demo_kdf p s t m n argonKeyLen) = argonKeyLen" for p s t m n
    by (simp add: demo_kdf_def)
  obtain v where run: "run_state (setPassword ok_env demo_kdf ''hunter2'') demo_auth = (None, v)"
    by (simp add: setPassword_def rand_bytes_def then_go_def au_mkdir_def au_write_def au_put_def au_remove_def ok_facts)
  have read: "env_read ok_env (trace v @ []) (pw_path v) = Inr []" by (simp add: ok_facts)
  from password_set_is_checked [OF run len, of "''hunter2''"] obtain salt where
    ok: "\<forall>es m x. env_read ok_env (trace v @ es) (pw_path v) = Inr x \<longrightarrow>
      fst (run_state (verify_compare ok_env demo_kdf ''hunter2'') (v\<lparr>trace := trace v @ es\<rparr>)) =
        Inr (demo_kdf ''hunter2'' salt argonTime argonMemory argonThreads argonKeyLen =
          demo_kdf ''hunter2'' salt argonTime argonMemory argonThreads argonKeyLen)"
    by (elim conjE exE)
  from ok [rule_format, OF read] have "fst (run_state (verify_compare ok_env demo_kdf ''hunter2'') v) = Inr True" by simp
  then show ?thesis by (simp add: run)
qed

section \<open>The throttle\<close>

text \<open>A sequence of attempts, one after the other, with any pauses and any changes of the files between them.\<close>

inductive attempts :: "env \<Rightarrow> kdf \<Rightarrow> 'z auth_world_scheme \<Rightarrow> bool res list \<Rightarrow> 'z auth_world_scheme \<Rightarrow> bool" for E argon where
  none: "attempts E argon w [] w"
| more: "prefix (trace w) (trace x) \<Longrightarrow> au_failures x = au_failures w \<Longrightarrow> au_blockedTo x = au_blockedTo w \<Longrightarrow>
    run_state (verifyPassword E argon pw) x = (r, u) \<Longrightarrow> attempts E argon u rs v \<Longrightarrow> attempts E argon w (r # rs) v"

lemma attempts_later: "attempts E argon w rs v \<Longrightarrow> file_clock E \<Longrightarrow> env_clock E (trace w) \<le> env_clock E (trace v)"
proof (induction rule: attempts.induct)
  case (more w x pw r u rs v)
  have ext: "extending (verifyPassword E argon pw)"
    unfolding verifyPassword_def verify_end_def by (intro ext_intros auth_only [THEN only_extending]; simp)
  then obtain es where "trace u = trace x @ es" using more(4) unfolding extending_def by (metis snd_conv)
  moreover obtain fs where "trace x = trace w @ fs" using more(1) by (auto simp: prefix_def)
  ultimately have "env_clock E (trace w) \<le> env_clock E (trace u)"
    using more.prems by (simp add: file_clock_def)
  with more show ?case by simp
qed simp

text \<open>One attempt that does not succeed.\<close>

lemma attempt_cases:
  assumes "run_state (verifyPassword E argon pw) x = (r, u)" and "r \<noteq> Inr True"
  obtains (blocked) t es where "r = Inl Throttled" "au_blockedTo x = Some t" "env_clock E (trace x) < t"
      "trace u = trace x @ es" "au_failures u = au_failures x" "au_blockedTo u = au_blockedTo x"
    | (error) e es where "r = Inl e" "trace u = trace x @ es" "au_failures u = au_failures x" "au_blockedTo u = au_blockedTo x"
    | (wrong) es where "r = Inr False" "\<And>t. au_blockedTo x = Some t \<Longrightarrow> t \<le> env_clock E (trace x)" "trace u = trace x @ es"
        "Suc (au_failures x) < throttleAfter" "au_failures u = Suc (au_failures x)" "au_blockedTo u = au_blockedTo x"
    | (last) es fs where "r = Inr False" "\<And>t. au_blockedTo x = Some t \<Longrightarrow> t \<le> env_clock E (trace x)"
        "trace u = trace x @ es @ fs" "throttleAfter \<le> Suc (au_failures x)" "au_failures u = 0"
        "au_blockedTo u = Some (env_clock E (trace x @ es) + throttleFor)"
proof -
  obtain c y where c: "run_state (verify_compare E argon pw) (x\<lparr>trace := trace x @ [Clock]\<rparr>) = (c, y)" by fastforce
  obtain es where y: "y = x\<lparr>trace := trace x @ Clock # es\<rparr>"
    using auth_only(8) [of E argon pw] c by (auto elim!: only_run)
  show thesis
  proof (cases "case au_blockedTo x of None \<Rightarrow> True | Some t \<Rightarrow> \<not> env_clock E (trace x) < t")
    case False
    then obtain t where t: "au_blockedTo x = Some t" "env_clock E (trace x) < t" by (auto split: option.splits)
    with assms(1) have "r = Inl Throttled" "u = x\<lparr>trace := trace x @ [Clock]\<rparr>"
      by (auto simp: verifyPassword_def verify_begin_def)
    with t show thesis by (intro blocked) auto
  next
    case True
    then have free: "t \<le> env_clock E (trace x)" if "au_blockedTo x = Some t" for t using that by auto
    show thesis
    proof (cases c)
      case (Inl e)
      with assms(1) True c have "r = Inl e" "u = y" by (auto simp: verifyPassword_def verify_begin_def run_attempt)
      with y show thesis by (intro error [of e "Clock # es"]) auto
    next
      case (Inr ok)
      with assms(1) True c have "r = Inr ok" "run_state (verify_end E ok) y = ((), u)"
        by (auto simp: verifyPassword_def verify_begin_def run_attempt split: prod.splits)
      with assms(2) have ok: "r = Inr False" "run_state (verify_end E False) y = ((), u)" by auto
      show thesis
      proof (cases "throttleAfter \<le> Suc (au_failures x)")
        case True
        with ok(2) y have "u = y\<lparr>trace := trace y @ [Clock], au_blockedTo := Some (env_clock E (trace y) + throttleFor), au_failures := 0\<rparr>"
          by (auto simp: verify_end_def)
        with ok(1) free True y show thesis by (intro last [of "Clock # es" "[Clock]"]) auto
      next
        case False
        with ok(2) y have "u = y\<lparr>au_failures := Suc (au_failures x)\<rparr>" by (simp add: verify_end_def)
        with ok(1) free False y show thesis by (intro wrong [of "Clock # es"]) auto
      qed
    qed
  qed
qed

text \<open>What is left to an attacker at a state, if the last attempt ends at \<open>T\<close>.\<close>

definition free_from :: "env \<Rightarrow> 'z auth_world_scheme \<Rightarrow> int" where
  "free_from E w = (case au_blockedTo w of None \<Rightarrow> env_clock E (trace w) | Some t \<Rightarrow> max t (env_clock E (trace w)))"

definition guesses_left :: "env \<Rightarrow> int \<Rightarrow> 'z auth_world_scheme \<Rightarrow> int" where
  "guesses_left E T w = (if T < free_from E w then 0
     else int (throttleAfter - au_failures w) + int throttleAfter * ((T - free_from E w) div throttleFor))"

lemma guesses_left_mono:
  "free_from E w \<le> free_from E x \<Longrightarrow> au_failures w = au_failures x \<Longrightarrow> guesses_left E T x \<le> guesses_left E T w"
  "0 \<le> guesses_left E T w"
proof -
  have F: "0 < throttleFor" by (simp add: throttleFor_def seconds_def)
  show "free_from E w \<le> free_from E x \<Longrightarrow> au_failures w = au_failures x \<Longrightarrow> guesses_left E T x \<le> guesses_left E T w"
    using F by (auto simp: guesses_left_def pos_imp_zdiv_nonneg_iff intro!: mult_left_mono zdiv_mono1)
  show "0 \<le> guesses_left E T w"
    using F by (simp add: guesses_left_def pos_imp_zdiv_nonneg_iff)
qed

lemma guess_counted:
  assumes "free_from E w \<le> free_from E u" "free_from E u \<le> T" "au_failures u = Suc (au_failures w)" "Suc (au_failures w) < throttleAfter"
  shows "guesses_left E T u + 1 \<le> guesses_left E T w"
proof -
  have "guesses_left E T (u\<lparr>au_failures := au_failures w\<rparr>) \<le> guesses_left E T w"
    using assms(1) by (intro guesses_left_mono) (auto simp: free_from_def split: option.splits)
  moreover have "guesses_left E T u + 1 = guesses_left E T (u\<lparr>au_failures := au_failures w\<rparr>)"
    using assms(2-4) by (auto simp: guesses_left_def free_from_def split: option.splits)
  ultimately show ?thesis by simp
qed

lemma guess_blocked:
  assumes "free_from E w \<le> s" "s \<le> T" "s + throttleFor \<le> free_from E u" "throttleAfter \<le> Suc (au_failures w)"
    "au_failures w < throttleAfter" "au_failures u = 0"
  shows "guesses_left E T u + 1 \<le> guesses_left E T w"
proof -
  have F: "0 < throttleFor" by (simp add: throttleFor_def seconds_def)
  have w: "guesses_left E T w = 1 + int throttleAfter * ((T - free_from E w) div throttleFor)"
    using assms(1,2,4,5) by (simp add: guesses_left_def)
  show ?thesis
  proof (cases "T < free_from E u")
    case True
    then have "guesses_left E T u = 0" by (simp add: guesses_left_def)
    then show ?thesis using w assms(1,2) F by (simp add: pos_imp_zdiv_nonneg_iff)
  next
    case False
    have "(T - free_from E u) div throttleFor \<le> (T - free_from E w - throttleFor) div throttleFor"
      using F assms(1,3) by (intro zdiv_mono1) auto
    also have "\<dots> = (T - free_from E w) div throttleFor - 1"
      using F div_add_self2 [of throttleFor "T - free_from E w - throttleFor"] by simp
    finally have "int throttleAfter * ((T - free_from E u) div throttleFor + 1) \<le> int throttleAfter * ((T - free_from E w) div throttleFor)"
      by (intro mult_left_mono) auto
    then show ?thesis using w False assms(6) by (simp add: guesses_left_def distrib_left)
  qed
qed

lemma attempts_bounded:
  assumes "attempts E argon w rs v" and "file_clock E" and "Inr True \<notin> set rs" and "au_failures w < throttleAfter"
  shows "int (length (filter (\<lambda>r. r = Inr False) rs)) \<le> guesses_left E (env_clock E (trace v)) w"
  using assms
proof (induction rule: attempts.induct)
  case (none w)
  then show ?case using guesses_left_mono(2) by simp
next
  case (more w x pw r u rs v)
  let ?T = "env_clock E (trace v)"
  have later: "env_clock E h \<le> env_clock E (h @ es)" for h es using more.prems(1) by (simp add: file_clock_def)
  obtain fs where "trace x = trace w @ fs" using more(1) by (auto simp: prefix_def)
  then have wx: "free_from E w \<le> free_from E x"
    using more(2,3) later by (auto simp: free_from_def max.coboundedI2 split: option.split)
  have uT: "env_clock E (trace u) \<le> ?T" using attempts_later [OF more(5)] more.prems(1) by simp
  have IH: "au_failures u < throttleAfter \<Longrightarrow> int (length (filter (\<lambda>r. r = Inr False) rs)) \<le> guesses_left E ?T u"
    using more by simp
  have same: ?case if "r \<noteq> Inr False" "trace u = trace x @ es" "au_failures u = au_failures x" "au_blockedTo u = au_blockedTo x" for es
  proof -
    have "free_from E w \<le> free_from E u"
      using wx that later [of "trace x" es] by (auto simp: free_from_def split: option.splits)
    from guesses_left_mono(1) [OF this, of ?T] that IH more show ?thesis by simp
  qed
  have "r \<noteq> Inr True" using more.prems(2) by auto
  with more(4) show ?case
  proof (cases rule: attempt_cases)
    case (blocked t es)
    then show ?thesis by (intro same) auto
  next
    case (error e es)
    then show ?thesis by (intro same) auto
  next
    case (wrong es)
    then have x: "free_from E x = env_clock E (trace x)" and u: "free_from E u = env_clock E (trace u)"
      using later [of "trace x" es] by (auto simp: free_from_def max_def split: option.splits)
    with wrong wx uT later [of "trace x" es] more(2)
    have "guesses_left E ?T u + 1 \<le> guesses_left E ?T w" by (intro guess_counted) auto
    with IH wrong show ?thesis by simp
  next
    case (last es fs)
    then have x: "free_from E x = env_clock E (trace x)"
      by (auto simp: free_from_def max_def split: option.splits) 
    have "free_from E x + throttleFor \<le> free_from E u"
      using last later [of "trace x" es] x by (auto simp: free_from_def [of E u])
    moreover have "free_from E x \<le> ?T"
      using x uT last later [of "trace x" "es @ fs"] by simp
    ultimately have "guesses_left E ?T u + 1 \<le> guesses_left E ?T w"
      using last wx more(2) more.prems(3) by (intro guess_blocked) auto
    with IH last show ?thesis by (simp add: throttleAfter_def)
  qed
qed


lemma demo_hash: "trim_space ''h'' = ''h''" "\<not> verifyPHC demo_kdf ''h'' ''guess''"
proof -
  show "trim_space ''h'' = ''h''" by (simp add: trim_space_def trim_left_def trim_right_def is_space_def)
  have "length (split_on CHR ''$'' ''h'') \<noteq> 6" by simp
  then show "\<not> verifyPHC demo_kdf ''h'' ''guess''" by (simp only: verifyPHC_def Let_def simp_thms if_True)
qed

lemma demo_compare: "run_state (verify_compare ok_env demo_kdf ''guess'') (demo_auth\<lparr>trace := h, au_failures := n\<rparr>) =
    (Inr False, demo_auth\<lparr>trace := h @ [ReadFile ''/data/auth/password''], au_failures := n\<rparr>)"
  by (simp add: verify_compare_def au_read_def ok_facts demo_auth_def demo_hash)

lemma demo_try: "Suc n < 5 \<Longrightarrow> run_state (verifyPassword ok_env demo_kdf ''guess'') (demo_auth\<lparr>trace := h, au_failures := n\<rparr>) =
    (Inr False, demo_auth\<lparr>trace := h @ [Clock, ReadFile ''/data/auth/password''], au_failures := Suc n\<rparr>)"
  using demo_compare [of n "h @ [Clock]"]
  by (simp add: verifyPassword_def verify_begin_def run_attempt verify_end_def throttleAfter_def) (simp add: demo_auth_def throttleAfter_def)


section \<open>The token over rotations and restarts\<close>

text \<open>Also: A rotated token replaces the old one, in memory and on disk. After \<open>Rotate\<close> returned \<open>tok\<close>, the verification
  accepts \<open>tok\<close> and nothing else, and an agent started on the same directory, if it can read the file, has the same
  token without writing anything; a failed \<open>Rotate\<close> leaves the old token in force.\<close>

theorem token_survives_restart:
  assumes "run_state (tok_rotate E) w = (r, v)"
  shows "(\<forall>tok. r = Inr tok \<longrightarrow>
      (\<forall>t. fst (run_state (tok_verify t) v) = (t = tok)) \<and>
      (\<forall>u. au_dir u = au_dir v \<longrightarrow> au_files u = au_files v \<longrightarrow> (\<exists>x. env_read E (trace u) (token_path v) = Inr x) \<longrightarrow>
        run_state (new_token_store E) u = (None, u\<lparr>trace := trace u @ [ReadFile (token_path v)], au_token := tok\<rparr>))) \<and>
    (\<forall>err. r = Inl err \<longrightarrow> au_token v = au_token w)"
proof (intro conjI allI impI)
  have mem: "au_token v = (case r of Inl _ \<Rightarrow> au_token w | Inr t \<Rightarrow> t)"
    using assms by (auto simp: tok_rotate_def tok_generate_def Let_def rand_bytes_def then_go_def au_mkdir_def au_write_def au_put_def
        split: sum.splits option.splits if_splits prod.splits)
  then show "au_token v = au_token w" if "r = Inl err" for err using that by simp
  fix tok assume r: "r = Inr tok"
  obtain b where rb: "fst (run_state (rand_bytes E 32) w) = Inr b" and len: "length b = 32"
    using assms unfolding r by (auto simp: tok_rotate_def tok_generate_def rand_bytes_def split: sum.splits prod.splits)
  have b: "tok = ''dtr_'' @ hex_encode b" "map_option af_text (au_files v (token_path v)) = Some (tok @ [newline])"
    using assms rb unfolding r
    by (auto simp: tok_rotate_def tok_generate_def Let_def rand_bytes_def then_go_def au_mkdir_def au_write_def au_put_def
        split: sum.splits option.splits if_splits prod.splits)
  show "fst (run_state (tok_verify t) v) = (t = tok)" for t
    using mem b(1) by (auto simp: r tok_verify_def)
  have "\<forall>c \<in> set tok. \<not> is_space c" using b(1) hex_facts(2) [of _ b] by (auto simp: is_space_def)
  then have trim: "trim_space (tok @ [newline]) = tok" by (simp only: trim_space_append_newline trim_space_no_space)
  have long: "32 \<le> length tok" using b(1) len by (simp add: hex_facts(1))
  fix u :: "'b auth_world_scheme"
  assume "au_dir u = au_dir v" "au_files u = au_files v" "\<exists>x. env_read E (trace u) (token_path v) = Inr x"
  with b(2) trim long show "run_state (new_token_store E) u = (None, u\<lparr>trace := trace u @ [ReadFile (token_path v)], au_token := tok\<rparr>)"
    by (auto simp: new_token_store_def au_read_def)
qed


theorem token_survives_restart_witness:
  "\<exists>tok v. run_state (tok_rotate ok_env) demo_auth = (Inr tok, v) \<and> fst (run_state (tok_verify tok) v) \<and>
     au_token (snd (run_state (new_token_store ok_env) v)) = tok"
proof -
  obtain tok v where run: "run_state (tok_rotate ok_env) demo_auth = (Inr tok, v)"
    by (simp add: tok_rotate_def tok_generate_def Let_def rand_bytes_def then_go_def au_mkdir_def au_write_def au_put_def ok_facts)
  have "\<exists>x. env_read ok_env (trace v) (token_path v) = Inr x" by (simp add: ok_facts)
  with token_survives_restart [OF run] run show ?thesis by auto
qed

end
