(* ===== verification/Ops.thy ===== *)
theory Ops
  imports Auth
begin

text \<open>
  The asynchronous operations behind \<open>/v1/actions/*\<close> (\<open>internal/api/operations.go\<close>). \<open>Start\<close>
  registers an operation and starts a goroutine, which runs the action and writes the outcome into the
  operation it holds a pointer to; the map of the manager points to the same object. The objects are a heap
  (\<open>om_heap\<close>, an address is a position in it), and the goroutines still running are kept with what
  they captured (\<open>om_live\<close>).
\<close>

section \<open>The operations of the manager\<close>

datatype op_status = OpRunning | OpSucceeded | OpFailed

record operation =
  opn_id :: string
  opn_action :: string
  opn_status :: op_status
  opn_startedAt :: int
  opn_finishedAt :: "int option"
  opn_errorCode :: string
  opn_error :: string

record ops_world = auth_world +
  om_heap :: "operation list"
  om_ops :: "string \<Rightarrow> nat option"
  om_byResource :: "string \<Rightarrow> string option"
  om_live :: "(nat \<times> string) list"

definition newOpManager :: "'z ops_world_scheme \<Rightarrow> 'z ops_world_scheme" where
  "newOpManager w = w\<lparr>om_heap := [], om_ops := (\<lambda>_. None), om_byResource := (\<lambda>_. None), om_live := []\<rparr>"

definition newOpID :: "env \<Rightarrow> ('z world_scheme, string) state" where
  "newOpID E = do {
     r \<leftarrow> rand_bytes E 8;
     ret (''op_'' @ hex_encode (rand_or (replicate 8 (char_of (0::nat))) r))
   }"

definition op_start :: "env \<Rightarrow> string \<Rightarrow> string \<Rightarrow> ('z ops_world_scheme, nat res) state" where
  "op_start E action resource = do {
     w \<leftarrow> getw;
     (case om_byResource w resource of
        Some i \<Rightarrow> ret (Inl (ConflictError i))
      | None \<Rightarrow> do {
          i \<leftarrow> newOpID E;
          now \<leftarrow> do_clock E;
          modify (\<lambda>w. w\<lparr>
            om_heap := om_heap w @ [\<lparr>opn_id = i, opn_action = action, opn_status = OpRunning, opn_startedAt = now,
              opn_finishedAt = None, opn_errorCode = [], opn_error = []\<rparr>],
            om_ops := (om_ops w)(i \<mapsto> length (om_heap w)),
            om_byResource := (om_byResource w)(resource \<mapsto> i),
            om_live := om_live w @ [(length (om_heap w), resource)]\<rparr>);
          ret (Inr (length (om_heap w)))
        })
   }"

text \<open>The goroutine once the action has returned \<open>err\<close>.\<close>

definition op_outcome :: "int \<Rightarrow> go_error option \<Rightarrow> operation \<Rightarrow> operation" where
  "op_outcome now err p = (let p = p\<lparr>opn_finishedAt := Some now\<rparr> in
     case err of
       None \<Rightarrow> p\<lparr>opn_status := OpSucceeded\<rparr>
     | Some e \<Rightarrow> (case e of
         ActionError code m \<Rightarrow> p\<lparr>opn_status := OpFailed, opn_errorCode := code, opn_error := m\<rparr>
       | _ \<Rightarrow> p\<lparr>opn_status := OpFailed, opn_errorCode := ''internal'', opn_error := err_text e\<rparr>))"

definition op_finish :: "env \<Rightarrow> nat \<Rightarrow> string \<Rightarrow> go_error option \<Rightarrow> ('z ops_world_scheme, unit) state" where
  "op_finish E a resource err = do {
     now \<leftarrow> do_clock E;
     modify (\<lambda>w. w\<lparr>
       om_heap := (om_heap w)[a := op_outcome now err (om_heap w ! a)],
       om_byResource := (om_byResource w)(resource := None),
       om_live := remove1 (a, resource) (om_live w)\<rparr>)
   }"

definition op_get :: "string \<Rightarrow> 'z ops_world_scheme \<Rightarrow> operation option" where
  "op_get i w = map_option ((!) (om_heap w)) (om_ops w i)"

section \<open>Steps\<close>

text \<open>Requests start operations, goroutines finish in any order, and everything else leaves the manager alone.\<close>

inductive op_step :: "env \<Rightarrow> 'z ops_world_scheme \<Rightarrow> 'z ops_world_scheme \<Rightarrow> bool" for E where
  started: "op_step E w (snd (run_state (op_start E action resource) w))"
| finished: "(a, resource) \<in> set (om_live w) \<Longrightarrow> op_step E w (snd (run_state (op_finish E a resource err) w))"
| beside: "om_heap v = om_heap w \<Longrightarrow> om_ops v = om_ops w \<Longrightarrow> om_byResource v = om_byResource w \<Longrightarrow>
    om_live v = om_live w \<Longrightarrow> op_step E w v"

inductive op_reach :: "env \<Rightarrow> 'z ops_world_scheme \<Rightarrow> 'z ops_world_scheme \<Rightarrow> bool" for E where
  here: "op_reach E w w"
| further: "op_reach E w v \<Longrightarrow> op_step E v u \<Longrightarrow> op_reach E w u"

text \<open>How far an operation is: a running one may become anything, the two ends are final.\<close>

instantiation op_status :: order
begin

definition less_eq_op_status :: "op_status \<Rightarrow> op_status \<Rightarrow> bool" where
  "less_eq_op_status s t \<longleftrightarrow> s = OpRunning \<or> s = t"

definition less_op_status :: "op_status \<Rightarrow> op_status \<Rightarrow> bool" where
  "less_op_status s t \<longleftrightarrow> s = OpRunning \<and> t \<noteq> OpRunning"

instance
  by standard (auto simp: less_eq_op_status_def less_op_status_def)

end

section \<open>The invariant\<close>

definition op_ok :: "operation \<Rightarrow> bool" where
  "op_ok p \<longleftrightarrow> (opn_status p = OpRunning \<longleftrightarrow> opn_finishedAt p = None) \<and>
     (opn_status p \<noteq> OpFailed \<longrightarrow> opn_errorCode p = [] \<and> opn_error p = [])"

definition objects_ok :: "operation list \<Rightarrow> (string \<Rightarrow> nat option) \<Rightarrow> bool" where
  "objects_ok h ops \<longleftrightarrow> (\<forall>a < length h. op_ok (h ! a)) \<and> (\<forall>i a. ops i = Some a \<longrightarrow> a < length h \<and> opn_id (h ! a) = i)"

definition live_ok :: "operation list \<Rightarrow> (nat \<times> string) list \<Rightarrow> bool" where
  "live_ok h live \<longleftrightarrow> distinct (map fst live) \<and> distinct (map snd live) \<and>
     (\<forall>a. a \<in> fst ` set live \<longleftrightarrow> a < length h \<and> opn_status (h ! a) = OpRunning)"

definition locks_ok :: "operation list \<Rightarrow> (nat \<times> string) list \<Rightarrow> (string \<Rightarrow> string option) \<Rightarrow> bool" where
  "locks_ok h live locks \<longleftrightarrow> (\<forall>r i. locks r = Some i \<longleftrightarrow> (\<exists>a. (a, r) \<in> set live \<and> opn_id (h ! a) = i))"

definition ops_inv :: "'z ops_world_scheme \<Rightarrow> bool" where
  "ops_inv w \<longleftrightarrow> objects_ok (om_heap w) (om_ops w) \<and> live_ok (om_heap w) (om_live w) \<and>
     locks_ok (om_heap w) (om_live w) (om_byResource w)"

lemma op_outcome_facts [simp]:
  "opn_id (op_outcome now err p) = opn_id p" "opn_status (op_outcome now err p) \<noteq> OpRunning"
  "op_ok p \<Longrightarrow> opn_status p = OpRunning \<Longrightarrow> op_ok (op_outcome now err p)"
  by (auto simp: op_outcome_def op_ok_def Let_def split: option.split go_error.split)

lemma start_cases:
  obtains (busy) i where "om_byResource w resource = Some i" "run_state (op_start E action resource) w = (Inl (ConflictError i), w)"
  | (fresh) i now es where "om_byResource w resource = None"
      "run_state (op_start E action resource) w = (Inr (length (om_heap w)), w\<lparr>trace := trace w @ es,
        om_heap := om_heap w @ [\<lparr>opn_id = i, opn_action = action, opn_status = OpRunning, opn_startedAt = now,
              opn_finishedAt = None, opn_errorCode = [], opn_error = []\<rparr>],
        om_ops := (om_ops w)(i \<mapsto> length (om_heap w)), om_byResource := (om_byResource w)(resource \<mapsto> i),
        om_live := om_live w @ [(length (om_heap w), resource)]\<rparr>)"
  by (cases "om_byResource w resource") (auto simp: op_start_def newOpID_def rand_bytes_def)

lemma live_below: "live_ok h live \<Longrightarrow> (a, r) \<in> set live \<Longrightarrow> a < length h \<and> opn_status (h ! a) = OpRunning"
  by (force simp: live_ok_def)

lemma ops_inv_start:
  assumes "ops_inv w"
  shows "ops_inv (snd (run_state (op_start E action resource) w))"
proof (cases rule: start_cases [of w resource E action])
  case (fresh i now es)
  let ?h = "om_heap w" and ?l = "om_live w"
  have inv: "objects_ok ?h (om_ops w)" "live_ok ?h ?l" "locks_ok ?h ?l (om_byResource w)"
    using assms by (simp_all add: ops_inv_def)
  have new: "(a, resource) \<notin> set ?l" for a
    using inv(3) fresh(1) by (force simp: locks_ok_def)
  have old: "(a, r) \<in> set ?l \<Longrightarrow> a < length ?h" for a r using live_below [OF inv(2)] by blast
  obtain p where p: "p = \<lparr>opn_id = i, opn_action = action, opn_status = OpRunning, opn_startedAt = now,
              opn_finishedAt = None, opn_errorCode = [], opn_error = []\<rparr>" by simp
  have "objects_ok (?h @ [p]) ((om_ops w)(i \<mapsto> length ?h))"
    using inv(1) by (auto simp: objects_ok_def nth_append op_ok_def p less_Suc_eq)
  moreover have "live_ok (?h @ [p]) (?l @ [(length ?h, resource)])"
    using inv(2) new by (auto simp: live_ok_def nth_append p less_Suc_eq)
  moreover have "locks_ok (?h @ [p]) (?l @ [(length ?h, resource)]) ((om_byResource w)(resource \<mapsto> i))"
    using inv(3) new old by (auto simp: locks_ok_def nth_append p)
  ultimately show ?thesis unfolding fresh(2) by (simp add: ops_inv_def p)
qed (use assms in simp)

lemma objects_finish:
  "objects_ok h ops \<Longrightarrow> a < length h \<Longrightarrow> op_ok p \<Longrightarrow> opn_id p = opn_id (h ! a) \<Longrightarrow> objects_ok (h[a := p]) ops"
  by (auto simp: objects_ok_def nth_list_update)

lemma live_finish:
  assumes "live_ok h live" and "(a, r) \<in> set live" and "opn_status p \<noteq> OpRunning"
  shows "live_ok (h[a := p]) (remove1 (a, r) live)"
    and "locks_ok h live locks \<Longrightarrow> opn_id p = opn_id (h ! a) \<Longrightarrow> locks_ok (h[a := p]) (remove1 (a, r) live) (locks(r := None))"
proof -
  have dist: "distinct (map fst live)" "distinct (map snd live)" using assms(1) by (auto simp: live_ok_def)
  have rest: "set (remove1 (a, r) live) = set live - {(a, r)}" using dist by (simp add: distinct_map)
  have uniq: "s = r" if "(a, s) \<in> set live" for s
    using inj_onD [of fst "set live" "(a, s)" "(a, r)"] dist(1) assms(2) that by (simp add: distinct_map)
  have uniq2: "b = a" if "(b, r) \<in> set live" for b
    using inj_onD [of snd "set live" "(b, r)" "(a, r)"] dist(2) assms(2) that by (simp add: distinct_map)
  have a: "a < length h" using live_below [OF assms(1,2)] by blast
  have "distinct (map fst (remove1 (a, r) live))" "distinct (map snd (remove1 (a, r) live))"
    using dist by (metis distinct_map distinct_remove1 inj_on_subset set_remove1_subset)+
  moreover have "b \<in> fst ` set (remove1 (a, r) live) \<longleftrightarrow> b \<in> fst ` set live \<and> b \<noteq> a" for b
    unfolding rest using uniq by (auto simp: image_iff Bex_def)
  ultimately show "live_ok (h[a := p]) (remove1 (a, r) live)"
    using assms(1,3) a by (auto simp: live_ok_def nth_list_update)
  show "locks_ok (h[a := p]) (remove1 (a, r) live) (locks(r := None))"
    if "locks_ok h live locks" "opn_id p = opn_id (h ! a)"
    unfolding locks_ok_def
  proof (intro allI)
    fix s i
    show "(locks(r := None)) s = Some i \<longleftrightarrow> (\<exists>b. (b, s) \<in> set (remove1 (a, r) live) \<and> opn_id (h[a := p] ! b) = i)"
    proof (cases "s = r")
      case True
      then show ?thesis using uniq2 by (auto simp: rest)
    next
      case False
      then show ?thesis using that a by (simp add: rest locks_ok_def nth_list_update)
    qed
  qed
qed

lemma ops_inv_finish:
  assumes "ops_inv w" and "(a, resource) \<in> set (om_live w)"
  shows "ops_inv (snd (run_state (op_finish E a resource err) w))"
proof -
  have inv: "objects_ok (om_heap w) (om_ops w)" "live_ok (om_heap w) (om_live w)" "locks_ok (om_heap w) (om_live w) (om_byResource w)"
    using assms(1) by (simp_all add: ops_inv_def)
  have "op_ok (op_outcome (env_clock E (trace w)) err (om_heap w ! a))"
    using live_below [OF inv(2) assms(2)] inv(1) by (simp add: objects_ok_def)
  then show ?thesis
    using live_finish [OF inv(2) assms(2)] objects_finish [OF inv(1)] inv(3) live_below [OF inv(2) assms(2)] by (simp add: op_finish_def ops_inv_def)
qed

lemma op_step_inv: "op_step E w v \<Longrightarrow> ops_inv w \<Longrightarrow> ops_inv v"
  by (induction rule: op_step.induct) (auto simp: ops_inv_start ops_inv_finish, auto simp: ops_inv_def)

lemma op_reach_inv: "op_reach E w v \<Longrightarrow> ops_inv w \<Longrightarrow> ops_inv v"
  by (induction rule: op_reach.induct) (auto intro: op_step_inv)

lemma new_manager_inv: "ops_inv (newOpManager w)"
  by (simp add: newOpManager_def ops_inv_def objects_ok_def live_ok_def locks_ok_def)

text \<open>An operation only moves forward, and its identity stays.\<close>

definition op_later :: "operation \<Rightarrow> operation \<Rightarrow> bool" where
  "op_later p q \<longleftrightarrow> opn_id q = opn_id p \<and> opn_action q = opn_action p \<and> opn_startedAt q = opn_startedAt p \<and>
     opn_status p \<le> opn_status q \<and> (opn_status p \<noteq> OpRunning \<longrightarrow> q = p)"

lemma op_later_trans: "op_later p q \<Longrightarrow> op_later q r \<Longrightarrow> op_later p r"
  unfolding op_later_def by (metis order.trans less_eq_op_status_def)

lemma outcome_later: "opn_status p = OpRunning \<Longrightarrow> op_later p (op_outcome now err p)"
  by (simp add: op_later_def op_outcome_def Let_def less_eq_op_status_def split: option.split go_error.split)

lemma op_step_later:
  assumes "op_step E w v" and "ops_inv w" and "a < length (om_heap w)"
  shows "a < length (om_heap v) \<and> op_later (om_heap w ! a) (om_heap v ! a)"
  using assms(1)
proof (cases rule: op_step.cases)
  case (started action resource)
  then show ?thesis
    using assms(3) by (cases rule: start_cases [of w resource E action]) (auto simp: op_later_def nth_append)
next
  case (finished b resource err)
  have "opn_status (om_heap w ! b) = OpRunning"
    using live_below [of "om_heap w" "om_live w" b resource] assms(2) finished(2) by (simp add: ops_inv_def)
  then have "op_later (om_heap w ! b) (op_outcome (env_clock E (trace w)) err (om_heap w ! b))" by (rule outcome_later)
  then show ?thesis
    using assms(3) finished(1) by (cases "a = b") (simp_all add: op_finish_def op_later_def)
next
  case beside
  then show ?thesis using assms(3) by (simp add: op_later_def)
qed

lemma op_reach_later:
  "op_reach E w v \<Longrightarrow> ops_inv w \<Longrightarrow> a < length (om_heap w) \<Longrightarrow>
     a < length (om_heap v) \<and> op_later (om_heap w ! a) (om_heap v ! a)"
proof (induction rule: op_reach.induct)
  case (further w v u)
  then show ?case using op_step_later [of E v u a] op_reach_inv [of E w v] op_later_trans by blast
qed (simp add: op_later_def)

text \<open>C39: Every operation a client can read is well formed. Whatever is started and however the goroutines finish,
  an operation found under an id carries that id, has a finishing time exactly when it is not running, and carries an
  error only when it failed.\<close>

theorem operations_well_formed:
  assumes "op_reach E (newOpManager u) w" and "op_get i w = Some p"
  shows "opn_id p = i \<and> (opn_status p = OpRunning \<longleftrightarrow> opn_finishedAt p = None) \<and>
    (opn_status p \<noteq> OpFailed \<longrightarrow> opn_errorCode p = [] \<and> opn_error p = [])"
proof -
  have "ops_inv w" using op_reach_inv [OF assms(1)] new_manager_inv by blast
  with assms(2) have "op_ok p" "opn_id p = i" by (auto simp: op_get_def ops_inv_def objects_ok_def)
  then show ?thesis by (simp add: op_ok_def)
qed

lemma op_reach_live:
  "op_reach E w v \<Longrightarrow> ops_inv w \<Longrightarrow> a < length (om_heap w) \<Longrightarrow> (a, r) \<in> set (om_live v) \<Longrightarrow> (a, r) \<in> set (om_live w)"
proof (induction rule: op_reach.induct)
  case (further w v u)
  have a: "a < length (om_heap v)" using op_reach_later [OF further.hyps(1) further.prems(1,2)] ..
  from further.hyps(2) have "(a, r) \<in> set (om_live v)"
  proof (cases rule: op_step.cases)
    case (started action resource)
    then show ?thesis
      using further.prems(3) a by (cases rule: start_cases [of v resource E action]) auto
  next
    case (finished b resource err)
    then show ?thesis using further.prems(3) notin_set_remove1 by (force simp: op_finish_def)
  qed (use further.prems(3) in simp)
  with further show ?case by blast
qed

text \<open>C21: Actions on one resource exclude each other. In every reachable state at most one goroutine runs per resource,
  and \<open>Start\<close> is refused exactly when one does, with the id of its operation. An operation that was started keeps its
  identity, runs exactly as long as its goroutine, and does not change once it has ended; its end frees the resource.\<close>

theorem one_operation_per_resource:
  assumes "op_reach E (newOpManager u) w"
  shows "((a, r) \<in> set (om_live w) \<and> (b, r) \<in> set (om_live w) \<longrightarrow> a = b) \<and>
    (fst (run_state (op_start E action r) w) = Inl (ConflictError i) \<longleftrightarrow>
      (\<exists>a. (a, r) \<in> set (om_live w) \<and> opn_id (om_heap w ! a) = i \<and> opn_status (om_heap w ! a) = OpRunning)) \<and>
    (run_state (op_start E action r) w = (Inr c, x) \<and> op_reach E x v \<longrightarrow>
      op_later (om_heap x ! c) (om_heap v ! c) \<and>
      (opn_status (om_heap v ! c) = OpRunning \<longleftrightarrow> (c, r) \<in> set (om_live v)) \<and>
      fst (run_state (op_start E action r) (snd (run_state (op_finish E c r err) v))) \<noteq> Inl (ConflictError i))"
proof -
  have inv: "ops_inv w" using op_reach_inv [OF assms] new_manager_inv by blast
  then have live: "live_ok (om_heap w) (om_live w)" and locks: "locks_ok (om_heap w) (om_live w) (om_byResource w)"
    by (simp_all add: ops_inv_def)
  have one: "a = b" if "(a, r) \<in> set (om_live w) \<and> (b, r) \<in> set (om_live w)"
    using inj_onD [of snd "set (om_live w)" "(a, r)" "(b, r)"] live that by (simp add: live_ok_def distinct_map)
  have "fst (run_state (op_start E action r) w) = Inl (ConflictError i) \<longleftrightarrow> om_byResource w r = Some i"
    by (cases rule: start_cases [of w r E action]) auto
  also have "\<dots> \<longleftrightarrow> (\<exists>a. (a, r) \<in> set (om_live w) \<and> opn_id (om_heap w ! a) = i)"
    using locks by (simp add: locks_ok_def)
  finally have refused: "fst (run_state (op_start E action r) w) = Inl (ConflictError i) \<longleftrightarrow>
      (\<exists>a. (a, r) \<in> set (om_live w) \<and> opn_id (om_heap w ! a) = i \<and> opn_status (om_heap w ! a) = OpRunning)"
    using live_below [OF live] by blast
  have "op_later (om_heap x ! c) (om_heap v ! c) \<and>
      (opn_status (om_heap v ! c) = OpRunning \<longleftrightarrow> (c, r) \<in> set (om_live v)) \<and>
      fst (run_state (op_start E action r) (snd (run_state (op_finish E c r err) v))) \<noteq> Inl (ConflictError i)"
    if run: "run_state (op_start E action r) w = (Inr c, x)" and reach: "op_reach E x v"
  proof (intro conjI)
    have fresh: "c = length (om_heap w)" "length (om_heap x) = Suc c" "om_live x = om_live w @ [(c, r)]"
      using run by (cases rule: start_cases [of w r E action]; auto)+
    have x: "ops_inv x" "c < length (om_heap x)"
      using ops_inv_start [OF inv, of E action r] run fresh(2) by simp_all
    have own: "s = r" if "(c, s) \<in> set (om_live x)" for s
      using that live_below [OF live, of c s] by (auto simp: fresh)
    have later: "c < length (om_heap v)" "op_later (om_heap x ! c) (om_heap v ! c)"
      using op_reach_later [OF reach x] by blast+
    show "op_later (om_heap x ! c) (om_heap v ! c)" by (rule later)
    have "live_ok (om_heap v) (om_live v)" using op_reach_inv [OF reach x(1)] by (simp add: ops_inv_def)
    then have "opn_status (om_heap v ! c) = OpRunning \<longleftrightarrow> c \<in> fst ` set (om_live v)"
      using later(1) by (simp add: live_ok_def)
    also have "\<dots> \<longleftrightarrow> (c, r) \<in> set (om_live v)"
      using op_reach_live [OF reach x] own by (auto simp: image_iff Bex_def)
    finally show "opn_status (om_heap v ! c) = OpRunning \<longleftrightarrow> (c, r) \<in> set (om_live v)" .
    show "fst (run_state (op_start E action r) (snd (run_state (op_finish E c r err) v))) \<noteq> Inl (ConflictError i)"
      by (cases rule: start_cases [of "snd (run_state (op_finish E c r err) v)" r E action]) (auto simp: op_finish_def)
  qed
  with one refused show ?thesis by blast
qed

definition demo_ops :: ops_world where
  "demo_ops = newOpManager (auth_world.extend demo_auth
     \<lparr>om_heap = [], om_ops = (\<lambda>_. None), om_byResource = (\<lambda>_. None), om_live = []\<rparr>)"

lemma demo_started: "run_state (op_start ok_env ''login'' ''account'') demo_ops =
   (Inr 0, snd (run_state (op_start ok_env ''login'' ''account'') demo_ops))"
  by (simp add: op_start_def demo_ops_def newOpManager_def newOpID_def rand_bytes_def ok_facts)

lemma demo_id: "hex_encode (replicate 8 (char_of (0::nat))) = ''0000000000000000''"
  by code_simp

theorem operations_well_formed_witness:
  "\<exists>p. op_get ''op_0000000000000000'' (snd (run_state (op_start ok_env ''login'' ''account'') demo_ops)) = Some p \<and>
     opn_id p = ''op_0000000000000000'' \<and> opn_finishedAt p = None"
proof -
  let ?w = "snd (run_state (op_start ok_env ''login'' ''account'') demo_ops)"
  have reach: "op_reach ok_env (newOpManager demo_ops) ?w"
    using op_reach.further [OF op_reach.here op_step.started] by (simp add: newOpManager_def demo_ops_def)
  obtain p where p: "op_get ''op_0000000000000000'' ?w = Some p" "opn_status p = OpRunning"
    by (simp add: op_get_def op_start_def demo_ops_def newOpManager_def newOpID_def rand_bytes_def ok_facts
        rand_or_def demo_id)
  with operations_well_formed [OF reach p(1)] show ?thesis by blast
qed

theorem one_operation_per_resource_witness:
  "fst (run_state (op_start ok_env ''logout'' ''account'') demo_ops) \<noteq> Inl (ConflictError [])"
proof -
  have reach: "op_reach ok_env (newOpManager demo_ops) demo_ops"
    using op_reach.here by (simp add: newOpManager_def demo_ops_def)
  from one_operation_per_resource [OF reach, where action = "''logout''" and r = "''account''" and i = "[]"]
  have "fst (run_state (op_start ok_env ''logout'' ''account'') demo_ops) = Inl (ConflictError []) \<longleftrightarrow>
      (\<exists>a. (a, ''account'') \<in> set (om_live demo_ops) \<and> opn_id (om_heap demo_ops ! a) = [] \<and> opn_status (om_heap demo_ops ! a) = OpRunning)"
    by blast
  then show ?thesis by (simp add: demo_ops_def newOpManager_def)
qed

end
