(* ===== verification/Logs.thy ===== *)
theory Logs
  imports State_Store Go_Strings
begin

text \<open>
  The journal (\<open>internal/logs\<close>): a ring buffer of entries with subscriptions, the redactor of
  registered secrets that every message passes on its way in, and the \<open>slog.Handler\<close> in front of
  it. The ring buffer is specified by the list of its entries in the order of time (\<open>contents\<close>):
  appending keeps the last \<open>capacity\<close> entries, \<open>Query\<close> gives the last \<open>limit\<close> matching ones.
\<close>

section \<open>The redactor\<close>

text \<open>\<open>Redactor.Add\<close> and \<open>Redactor.Redact\<close> on the list of secrets.\<close>

definition red_add :: "string \<Rightarrow> string list \<Rightarrow> string list" where
  "red_add secret secrets =
     (if length secret < 4 then secrets
      else if secret \<in> set secrets then secrets
      else secrets @ [secret])"

definition redact :: "string list \<Rightarrow> string \<Rightarrow> string" where
  "redact secrets s = foldl (\<lambda>s sec. replace_all sec ''***'' s) s secrets"

section \<open>The ring buffer\<close>

definition Components :: "string list" where
  "Components = [''agent'', ''expressvpn'', ''uplink'', ''proxy'', ''killswitch'']"

record log_entry =
  le_Time :: int
  le_Level :: string
  le_Component :: string
  le_Message :: string

record log_buffer =
  lb_entries :: "log_entry list"
  lb_next :: nat
  lb_full :: bool
  lb_subs :: "nat list"
  lb_chans :: "nat \<Rightarrow> log_entry list"
  lb_made :: nat
  lb_red :: "string list"

definition zero_entry :: log_entry where
  "zero_entry = \<lparr>le_Time = 0, le_Level = [], le_Component = [], le_Message = []\<rparr>"

definition new_buffer :: "nat \<Rightarrow> string list \<Rightarrow> log_buffer" where
  "new_buffer capacity red = \<lparr>lb_entries = replicate capacity zero_entry, lb_next = 0, lb_full = False,
     lb_subs = [], lb_chans = (\<lambda>_. []), lb_made = 0, lb_red = red\<rparr>"

text \<open>A subscriber that lags behind misses the entry.\<close>

definition sub_cap :: nat where
  "sub_cap = 64"

definition offer_entry :: "'a \<Rightarrow> 'a list \<Rightarrow> 'a list" where
  "offer_entry e b = (case chan_send sub_cap e b of Some b' \<Rightarrow> b' | None \<Rightarrow> b)"

definition deliver :: "log_entry \<Rightarrow> nat \<Rightarrow> log_buffer \<Rightarrow> log_buffer" where
  "deliver e ch b = b\<lparr>lb_chans := (lb_chans b)(ch := offer_entry e (lb_chans b ch))\<rparr>"

text \<open>\<open>Append\<close> at the time \<open>now\<close>; \<open>None\<close> is the panic of an index out of range.\<close>

definition log_append :: "int \<Rightarrow> string \<Rightarrow> string \<Rightarrow> string \<Rightarrow> log_buffer \<Rightarrow> log_buffer option" where
  "log_append now component level message b =
     (let e = \<lparr>le_Time = now, le_Level = level, le_Component = component, le_Message = redact (lb_red b) message\<rparr>
      in if length (lb_entries b) \<le> lb_next b then None
         else let next = Suc (lb_next b) mod length (lb_entries b);
                  b1 = b\<lparr>lb_entries := (lb_entries b)[lb_next b := e], lb_next := next,
                    lb_full := (next = 0 \<or> lb_full b)\<rparr>
              in Some (fold (deliver e) (lb_subs b) b1))"

definition entry_matches :: "string \<Rightarrow> int option \<Rightarrow> log_entry \<Rightarrow> bool" where
  "entry_matches component since e \<longleftrightarrow>
     \<not> (component \<noteq> [] \<and> le_Component e \<noteq> component) \<and> \<not> (case since of None \<Rightarrow> False | Some t \<Rightarrow> le_Time e < t)"

text \<open>The loop of \<open>Query\<close> over \<open>i\<close>, from the newest entry to the oldest.\<close>

fun query_loop :: "log_buffer \<Rightarrow> string \<Rightarrow> int option \<Rightarrow> nat \<Rightarrow> nat list \<Rightarrow> log_entry list \<Rightarrow> log_entry list" where
  "query_loop b component since limit [] out = out"
| "query_loop b component since limit (i # is) out =
     (if length out < limit
      then let idx = (lb_next b + length (lb_entries b) - 1 - i) mod length (lb_entries b);
               e = lb_entries b ! idx
           in query_loop b component since limit is (if entry_matches component since e then out @ [e] else out)
      else out)"

definition log_query :: "string \<Rightarrow> int option \<Rightarrow> nat \<Rightarrow> log_buffer \<Rightarrow> log_entry list" where
  "log_query component since limit b =
     (let total = (if lb_full b then length (lb_entries b) else lb_next b)
      in rev (query_loop b component since limit [0..<total] []))"

definition log_subscribe :: "log_buffer \<Rightarrow> nat \<times> log_buffer" where
  "log_subscribe b = (lb_made b, b\<lparr>lb_subs := lb_subs b @ [lb_made b],
     lb_chans := (lb_chans b)(lb_made b := []), lb_made := Suc (lb_made b)\<rparr>)"

definition log_cancel :: "nat \<Rightarrow> log_buffer \<Rightarrow> log_buffer" where
  "log_cancel ch b = b\<lparr>lb_subs := filter (\<lambda>c. c \<noteq> ch) (lb_subs b)\<rparr>"

definition log_receive :: "nat \<Rightarrow> log_buffer \<Rightarrow> log_entry option \<times> log_buffer" where
  "log_receive ch b = (case lb_chans b ch of
     [] \<Rightarrow> (None, b) | e # r \<Rightarrow> (Some e, b\<lparr>lb_chans := (lb_chans b)(ch := r)\<rparr>))"

section \<open>The handler\<close>

text \<open>\<open>slog.Level.String\<close>.\<close>

definition level_base :: "string \<Rightarrow> int \<Rightarrow> string" where
  "level_base base v = (if v = 0 then base else base @ (if 0 \<le> v then ''+'' else []) @ int_str v)"

definition level_str :: "int \<Rightarrow> string" where
  "level_str l = (if l < 0 then level_base ''DEBUG'' (l + 4)
     else if l < 4 then level_base ''INFO'' l
     else if l < 8 then level_base ''WARN'' (l - 4)
     else level_base ''ERROR'' (l - 8))"

text \<open>An attribute is its key and its value as \<open>%v\<close> prints it.\<close>

type_synonym attr = "string \<times> string"

record log_handler =
  lh_component :: string
  lh_attrs :: "attr list"

record log_record =
  lr_Level :: int
  lr_Message :: string
  lr_Attrs :: "attr list"

definition new_handler :: log_handler where
  "new_handler = \<lparr>lh_component = ''agent'', lh_attrs = []\<rparr>"

definition enabled :: "int \<Rightarrow> bool" where
  "enabled level \<longleftrightarrow> - 4 \<le> level"

definition attr_text :: "attr \<Rightarrow> string" where
  "attr_text a = '' '' @ fst a @ ''='' @ snd a"

text \<open>\<open>appendAttr\<close> on the pair of the component and the text so far.\<close>

fun append_attr :: "string \<times> string \<Rightarrow> attr \<Rightarrow> string \<times> string" where
  "append_attr (component, text) a =
     (if fst a = ''component'' then (snd a, text) else (component, text @ attr_text a))"

definition render :: "log_handler \<Rightarrow> log_record \<Rightarrow> string \<times> string" where
  "render h r = foldl append_attr (foldl append_attr (lh_component h, lr_Message r) (lh_attrs h)) (lr_Attrs r)"

definition pad5 :: "string \<Rightarrow> string" where
  "pad5 s = s @ replicate (5 - length s) (CHR '' '')"

text \<open>\<open>Handle\<close>: the new buffer and the line for the standard output, whose time is printed as \<open>stamp\<close>.\<close>

definition log_handle :: "int \<Rightarrow> string \<Rightarrow> log_handler \<Rightarrow> log_record \<Rightarrow> log_buffer \<Rightarrow> (log_buffer \<times> string) option" where
  "log_handle now stamp h r b =
     (let (component, msg) = render h r
      in case log_append now component (map lower_char (level_str (lr_Level r))) msg b of
           None \<Rightarrow> None
         | Some b' \<Rightarrow> Some (b', stamp @ '' '' @ pad5 (level_str (lr_Level r)) @ '' ['' @ component @ ''] '' @
             redact (lb_red b') msg @ [newline]))"

definition set_component :: "string \<Rightarrow> attr \<Rightarrow> string" where
  "set_component c a = (if fst a = ''component'' then snd a else c)"

definition with_attrs :: "attr list \<Rightarrow> log_handler \<Rightarrow> log_handler" where
  "with_attrs attrs h = h\<lparr>lh_attrs := lh_attrs h @ attrs,
     lh_component := foldl set_component (lh_component h) attrs\<rparr>"

definition with_group :: "string \<Rightarrow> log_handler \<Rightarrow> log_handler" where
  "with_group g h = h"

section \<open>The list specification\<close>

definition take_last :: "nat \<Rightarrow> 'a list \<Rightarrow> 'a list" where
  "take_last n xs = drop (length xs - n) xs"

definition contents :: "log_buffer \<Rightarrow> log_entry list" where
  "contents b = (if lb_full b then drop (lb_next b) (lb_entries b) @ take (lb_next b) (lb_entries b)
     else take (lb_next b) (lb_entries b))"

definition ring_ok :: "log_buffer \<Rightarrow> bool" where
  "ring_ok b \<longleftrightarrow> lb_next b < length (lb_entries b)"

lemma deliver_fields [simp]:
  "lb_entries (fold (deliver e) chs b) = lb_entries b" "lb_next (fold (deliver e) chs b) = lb_next b"
  "lb_full (fold (deliver e) chs b) = lb_full b" "lb_subs (fold (deliver e) chs b) = lb_subs b"
  "lb_made (fold (deliver e) chs b) = lb_made b" "lb_red (fold (deliver e) chs b) = lb_red b"
  by (induction chs arbitrary: b) (auto simp: deliver_def)

lemma take_last_snoc:
  "take_last n (take_last n xs @ [x]) = take_last n (xs @ [x])"
  by (cases "n \<le> length xs") (auto simp: take_last_def Suc_diff_le)

lemma contents_append:
  assumes "ring_ok b" and "e = \<lparr>le_Time = now, le_Level = l, le_Component = c, le_Message = redact (lb_red b) m\<rparr>"
  shows "\<exists>b'. log_append now c l m b = Some b' \<and> ring_ok b' \<and> length (lb_entries b') = length (lb_entries b) \<and>
    lb_red b' = lb_red b \<and> contents b' = take_last (length (lb_entries b)) (contents b @ [e])"
proof -
  let ?n = "lb_next b" and ?es = "lb_entries b"
  let ?next = "Suc ?n mod length ?es"
  have n: "?n < length ?es" using assms(1) by (simp add: ring_ok_def)
  define b' where "b' = fold (deliver e) (lb_subs b)
    (b\<lparr>lb_entries := ?es[?n := e], lb_next := ?next, lb_full := (?next = 0 \<or> lb_full b)\<rparr>)"
  have run: "log_append now c l m b = Some b'"
    using n by (simp add: log_append_def Let_def assms(2) b'_def)
  have b': "lb_entries b' = ?es[?n := e]" "lb_next b' = ?next" "lb_full b' = (?next = 0 \<or> lb_full b)" "lb_red b' = lb_red b"
    by (simp_all add: b'_def)
  have upd: "?es[?n := e] = take ?n ?es @ e # drop (Suc ?n) ?es" using n by (rule upd_conv_take_nth_drop)
  have "contents b' = take_last (length ?es) (contents b @ [e])"
  proof (cases "Suc ?n = length ?es")
    case True
    then have l: "length ?es = Suc ?n" by simp
    show ?thesis
      using l by (auto simp: contents_def b' upd take_last_def)
  next
    case False
    with n have nx: "?next = Suc ?n" by simp
    show ?thesis
      using n False by (auto simp: contents_def b' nx upd take_last_def min_def)
  qed
  moreover have "0 < length ?es" using n by linarith
  then have "ring_ok b'" by (simp add: ring_ok_def b')
  ultimately show ?thesis using run b' by auto
qed


lemma take_last_filter_rev: "rev (take n (rev xs)) = take_last n xs"
  by (simp add: take_last_def take_rev)

definition newest :: "log_buffer \<Rightarrow> nat \<Rightarrow> log_entry" where
  "newest b i = lb_entries b ! ((lb_next b + length (lb_entries b) - 1 - i) mod length (lb_entries b))"

lemma newest_contents:
  assumes "ring_ok b"
  shows "map (newest b) [0..<if lb_full b then length (lb_entries b) else lb_next b] = rev (contents b)"
proof (rule nth_equalityI)
  let ?n = "lb_next b" and ?es = "lb_entries b"
  let ?l = "length ?es"
  have n: "?n < ?l" using assms by (simp add: ring_ok_def)
  show "length (map (newest b) [0..<if lb_full b then ?l else ?n]) = length (rev (contents b))"
    using n by (simp add: contents_def)
  fix i
  assume "i < length (map (newest b) [0..<if lb_full b then ?l else ?n])"
  then have i: "i < (if lb_full b then ?l else ?n)" by simp
  then have lhs: "map (newest b) [0..<if lb_full b then ?l else ?n] ! i = newest b i" by simp
  show "map (newest b) [0..<if lb_full b then ?l else ?n] ! i = rev (contents b) ! i"
  proof (cases "lb_full b")
    case False
    with i have "i < ?n" by simp
    then have "?n + ?l - 1 - i = (?n - Suc i) + ?l" by linarith
    then have "(?n + ?l - 1 - i) mod ?l = ?n - Suc i" using n by (metis less_imp_diff_less mod_add_self2 mod_less)
    then have "newest b i = ?es ! (?n - Suc i)" by (simp add: newest_def)
    then show ?thesis unfolding lhs
      using \<open>i < ?n\<close> n False by (simp add: rev_nth contents_def)
  next
    case True
    with i have "i < ?l" by simp
    define j where "j = ?l - Suc i"
    have "?n + ?l - 1 - i = ?n + j" and j: "j < ?l" using \<open>i < ?l\<close> by (simp_all add: j_def)
    then have new: "newest b i = ?es ! ((?n + j) mod ?l)" by (simp add: newest_def)
    have "rev (contents b) ! i = (drop ?n ?es @ take ?n ?es) ! j"
      using rev_nth [of i "contents b"] \<open>i < ?l\<close> True n by (simp add: contents_def j_def del: rev_append)
    also have "\<dots> = ?es ! ((?n + j) mod ?l)"
    proof (cases "j < ?l - ?n")
      case False
      then have "?n + j = (j - (?l - ?n)) + ?l" "j - (?l - ?n) < ?n" using n j by linarith+
      moreover from this n have "(?n + j) mod ?l = j - (?l - ?n)"
        by (metis less_trans mod_add_self2 mod_less)
      ultimately show ?thesis using False n by (simp add: nth_append)
    next
      case True
      then show ?thesis using n by (simp add: nth_append)
    qed
    finally show ?thesis unfolding lhs new by simp
  qed
qed

lemma query_loop_Cons:
  "query_loop b c s limit (j # js) out = (if length out < limit
     then query_loop b c s limit js (if entry_matches c s (newest b j) then out @ [newest b j] else out) else out)"
  by (simp add: Let_def newest_def)

lemma query_loop_spec:
  "length out \<le> limit \<Longrightarrow> query_loop b c s limit js out = take limit (out @ filter (entry_matches c s) (map (newest b) js))"
proof (induction js arbitrary: out)
  case (Cons j js)
  show ?case
  proof (cases "length out < limit")
    case True
    then obtain k where "limit = Suc (length out + k)" using less_imp_Suc_add by blast
    with Cons.IH [of out] Cons.IH [of "out @ [newest b j]"] show ?thesis
      by (simp add: query_loop_Cons del: query_loop.simps)
  qed (use Cons.prems in \<open>simp add: query_loop_Cons del: query_loop.simps\<close>)
qed simp

lemma query_spec:
  assumes "ring_ok b"
  shows "log_query c s limit b = take_last limit (filter (entry_matches c s) (contents b))"
proof -
  have "log_query c s limit b = rev (take limit (filter (entry_matches c s) (rev (contents b))))"
    by (simp only: log_query_def Let_def query_loop_spec list.size(3) zero_le append_Nil newest_contents [OF assms])
  then show ?thesis by (simp add: rev_filter [symmetric] take_last_filter_rev)
qed

section \<open>Redaction\<close>

abbreviation starless :: "string \<Rightarrow> bool" where
  "starless s \<equiv> CHR ''*'' \<notin> set s"

lemma replace_all_Cons:
  "sec \<noteq> [] \<and> prefix sec (x # xs) \<Longrightarrow> replace_all sec new (x # xs) = new @ replace_all sec new (drop (length sec) (x # xs))"
  "\<not> (sec \<noteq> [] \<and> prefix sec (x # xs)) \<Longrightarrow> replace_all sec new (x # xs) = x # replace_all sec new xs"
  by (simp_all only: replace_all.simps if_True if_False simp_thms)

lemma replaced_prefix: "prefix u (replace_all sec ''***'' s) \<Longrightarrow> starless u \<Longrightarrow> prefix u s"
proof (induction sec "''***''" s arbitrary: u rule: replace_all.induct)
  case (2 sec x xs)
  then show ?case by (cases u) (auto split: if_splits)
qed simp

lemma contains_suffix: "contains t (drop n s) \<Longrightarrow> contains t s"
  unfolding contains_iff by (metis append.assoc append_take_drop_id)

lemma contains_stars: "contains t (''***'' @ s) \<Longrightarrow> starless t \<Longrightarrow> t \<noteq> [] \<Longrightarrow> contains t s"
  by (cases t) auto

lemma replaced_contains:
  "contains t (replace_all sec ''***'' s) \<Longrightarrow> starless t \<Longrightarrow> t \<noteq> [] \<Longrightarrow> contains t s"
proof (induction sec "''***''" s rule: replace_all.induct)
  case (2 sec x xs)
  show ?case
  proof (cases "sec \<noteq> [] \<and> prefix sec (x # xs)")
    case True
    from 2(3) have "contains t (''***'' @ replace_all sec ''***'' (drop (length sec) (x # xs)))"
      unfolding replace_all_Cons(1) [OF True] .
    then have "contains t (replace_all sec ''***'' (drop (length sec) (x # xs)))" using 2(4,5) by (rule contains_stars)
    with 2(1) [OF True] 2(4,5) show ?thesis by (blast intro: contains_suffix)
  next
    case False
    note no = replace_all_Cons(2) [OF False, of "''***''"]
    from 2(3) have "prefix t (replace_all sec ''***'' (x # xs)) \<or> contains t (replace_all sec ''***'' xs)"
      unfolding no contains.simps .
    then show ?thesis
      using replaced_prefix [of t sec "x # xs"] 2(2) [OF False] 2(4,5) by auto
  qed
qed simp

lemma replaced_gone: "sec \<noteq> [] \<Longrightarrow> starless sec \<Longrightarrow> \<not> contains sec (replace_all sec ''***'' s)"
proof (induction sec "''***''" s rule: replace_all.induct)
  case (2 sec x xs)
  show ?case
  proof (cases "prefix sec (x # xs)")
    case True
    then have T: "sec \<noteq> [] \<and> prefix sec (x # xs)" using 2(3) by simp
    from 2(1) [OF T 2(3,4)] have "\<not> contains sec (replace_all sec ''***'' (drop (length sec) (x # xs)))" .
    with contains_stars [of sec] 2(3,4) show ?thesis unfolding replace_all_Cons(1) [OF T] by blast
  next
    case False
    then have F: "\<not> (sec \<noteq> [] \<and> prefix sec (x # xs))" by simp
    have "\<not> prefix sec (replace_all sec ''***'' (x # xs))"
      using replaced_prefix [of sec sec "x # xs"] 2(4) False by blast
    with 2(2) [OF F 2(3,4)] show ?thesis unfolding replace_all_Cons(2) [OF F] contains.simps by blast
  qed
qed simp

lemma redact_keeps_out: "\<not> contains t s \<Longrightarrow> starless t \<Longrightarrow> t \<noteq> [] \<Longrightarrow> \<not> contains t (redact secrets s)"
  unfolding redact_def by (induction secrets arbitrary: s) (auto dest: replaced_contains)

lemma redact_gone: "t \<in> set secrets \<Longrightarrow> starless t \<Longrightarrow> t \<noteq> [] \<Longrightarrow> \<not> contains t (redact secrets s)"
proof (induction secrets arbitrary: s)
  case (Cons sec secrets)
  have step: "redact (sec # secrets) s = redact secrets (replace_all sec ''***'' s)" by (simp add: redact_def)
  show ?case
  proof (cases "t = sec")
    case True
    with Cons.prems replaced_gone redact_keeps_out show ?thesis unfolding step by metis
  qed (use Cons step in auto)
qed simp

text \<open>A secret is never lost from the redactor.\<close>

lemma red_add_mono: "set secrets \<subseteq> set (red_add s secrets)"
  by (auto simp: red_add_def)

lemma red_add_in: "4 \<le> length s \<Longrightarrow> s \<in> set (red_add s secrets)"
  by (auto simp: red_add_def)

section \<open>Sequences of operations\<close>

datatype log_op =
    LogAppend int string string string
  | LogSecret string
  | LogSubscribe
  | LogCancel nat
  | LogReceive nat

fun log_do :: "log_op \<Rightarrow> log_buffer \<Rightarrow> log_buffer option" where
  "log_do (LogAppend now c l m) b = log_append now c l m b"
| "log_do (LogSecret s) b = Some (b\<lparr>lb_red := red_add s (lb_red b)\<rparr>)"
| "log_do LogSubscribe b = Some (snd (log_subscribe b))"
| "log_do (LogCancel ch) b = Some (log_cancel ch b)"
| "log_do (LogReceive ch) b = Some (snd (log_receive ch b))"

fun log_run :: "log_op list \<Rightarrow> log_buffer \<Rightarrow> log_buffer option" where
  "log_run [] b = Some b"
| "log_run (op # ops) b = Option.bind (log_do op b) (log_run ops)"

text \<open>The entries that a sequence of operations logs.\<close>

fun logged :: "string list \<Rightarrow> log_op list \<Rightarrow> log_entry list" where
  "logged red [] = []"
| "logged red (LogAppend now c l m # ops) =
     \<lparr>le_Time = now, le_Level = l, le_Component = c, le_Message = redact red m\<rparr> # logged red ops"
| "logged red (LogSecret s # ops) = logged (red_add s red) ops"
| "logged red (op # ops) = logged red ops"

lemma take_last_append: "take_last n (take_last n xs @ ys) = take_last n (xs @ ys)"
  by (cases "n \<le> length xs") (auto simp: take_last_def drop_append add.commute)

lemma set_take_last: "set (take_last n xs) \<subseteq> set xs"
  by (simp add: take_last_def set_drop_subset)

lemma take_last_all: "length xs \<le> n \<Longrightarrow> take_last n xs = xs"
  by (simp add: take_last_def)

lemma contents_length: "ring_ok b \<Longrightarrow> length (contents b) \<le> length (lb_entries b)"
  by (auto simp: contents_def ring_ok_def)

lemma quiet_ops:
  assumes "log_do op b = Some b'" and "\<forall>now c l m. op \<noteq> LogAppend now c l m"
  shows "contents b' = contents b" "ring_ok b' = ring_ok b" "lb_entries b' = lb_entries b"
  using assms by (cases op; auto simp: contents_def ring_ok_def log_subscribe_def log_cancel_def log_receive_def split: list.splits)+

lemma log_run_spec:
  assumes "ring_ok b"
  shows "\<exists>b'. log_run ops b = Some b' \<and> ring_ok b' \<and> length (lb_entries b') = length (lb_entries b) \<and>
    contents b' = take_last (length (lb_entries b)) (contents b @ logged (lb_red b) ops)"
  using assms
proof (induction ops arbitrary: b)
  case Nil
  then show ?case using contents_length by (auto simp: take_last_all)
next
  case (Cons op ops)
  show ?case
  proof (cases "\<exists>now c l m. op = LogAppend now c l m")
    case True
    then obtain now c l m where op: "op = LogAppend now c l m" by blast
    from contents_append [OF Cons.prems refl, of now c l m] obtain u where
      u: "log_append now c l m b = Some u" "ring_ok u" "length (lb_entries u) = length (lb_entries b)" "lb_red u = lb_red b"
      "contents u = take_last (length (lb_entries b))
        (contents b @ [\<lparr>le_Time = now, le_Level = l, le_Component = c, le_Message = redact (lb_red b) m\<rparr>])" by blast
    from Cons.IH [OF u(2)] u show ?thesis by (auto simp: op take_last_append)
  next
    case False
    obtain u where u: "log_do op b = Some u" using False by (cases op) auto
    have l: "logged (lb_red b) (op # ops) = logged (lb_red u) ops"
      using u False by (cases op) (auto simp: log_subscribe_def log_cancel_def log_receive_def split: list.splits)
    note q = quiet_ops [OF u]
    from Cons.IH [of u] q False Cons.prems u show ?thesis by (auto simp: l)
  qed
qed

lemma offer_entry_set: "set (offer_entry e b) \<subseteq> insert e (set b)"
  by (auto simp: offer_entry_def chan_send_def)

interpretation lag: bounded_channel offer_entry sub_cap
proof
  show "length b \<le> sub_cap \<Longrightarrow> length (offer_entry x b) \<le> sub_cap" for x :: 'a and b
    by (simp add: offer_entry_def chan_send_def)
qed (rule offer_entry_set)

lemma deliver_chans:
  "set (lb_chans (fold (deliver e) chs b) ch) \<subseteq> insert e (set (lb_chans b ch))"
proof (induction chs arbitrary: b)
  case (Cons c chs)
  have "set (lb_chans (deliver e c b) ch) \<subseteq> insert e (set (lb_chans b ch))"
    using offer_entry_set [of e "lb_chans b c"] by (auto simp: deliver_def)
  with Cons.IH [of "deliver e c b"] show ?case by auto
qed auto

text \<open>\<open>held b\<close>: every entry that can still be read, by a query or from a subscription.\<close>

definition held :: "log_buffer \<Rightarrow> log_entry set" where
  "held b = set (contents b) \<union> (\<Union>ch. set (lb_chans b ch))"

lemma held_step:
  assumes "ring_ok b" and "log_do op b = Some b'"
  shows "held b' \<subseteq> held b \<union> set (logged (lb_red b) [op])"
proof (cases "\<exists>now c l m. op = LogAppend now c l m")
  case True
  then obtain now c l m where op: "op = LogAppend now c l m" by blast
  let ?e = "\<lparr>le_Time = now, le_Level = l, le_Component = c, le_Message = redact (lb_red b) m\<rparr>"
  from contents_append [OF assms(1) refl, of now c l m] assms(2) op
  have "contents b' = take_last (length (lb_entries b)) (contents b @ [?e])" by auto
  then have "set (contents b') \<subseteq> insert ?e (set (contents b))" using set_take_last by fastforce
  moreover have "set (lb_chans b' ch) \<subseteq> insert ?e (set (lb_chans b ch))" for ch
  proof -
    from assms(2) op obtain u where "b' = fold (deliver ?e) (lb_subs b) u" "lb_chans u = lb_chans b"
      by (auto simp: log_append_def Let_def split: if_splits)
    with deliver_chans [of ?e "lb_subs b" u ch] show ?thesis by simp
  qed
  ultimately show ?thesis unfolding held_def op by fastforce
next
  case False
  have "set (lb_chans b' ch) \<subseteq> set (lb_chans b ch)" for ch
    using assms(2) False by (cases op) (auto simp: log_subscribe_def log_cancel_def log_receive_def split: list.splits if_splits)
  moreover have "contents b' = contents b" using quiet_ops(1) [OF assms(2)] False by blast
  ultimately show ?thesis unfolding held_def by (simp, blast)
qed


lemma log_do_red:
  assumes "log_do op b = Some b'"
  shows "set (lb_red b) \<subseteq> set (lb_red b')"
  using assms subsetD [OF red_add_mono]
  by (cases op) (auto simp: log_append_def log_subscribe_def log_cancel_def log_receive_def Let_def split: list.splits if_splits)

lemma held_clean:
  assumes "e \<in> held b'" and "log_run ops b = Some b'" and "ring_ok b" and "sec \<in> set (lb_red b)" and "starless sec" and "sec \<noteq> []"
  shows "e \<in> held b \<or> \<not> contains sec (le_Message e)"
  using assms
proof (induction ops arbitrary: b)
  case (Cons op ops)
  from Cons.prems(2) obtain u where u: "log_do op b = Some u" "log_run ops u = Some b'"
    by (cases "log_do op b") auto
  have "ring_ok u"
    using log_run_spec [OF Cons.prems(3), of "[op]"] u(1) by auto
  from Cons.IH [OF Cons.prems(1) u(2) this _ Cons.prems(5,6)] log_do_red [OF u(1)] Cons.prems(4)
  have "e \<in> held u \<or> \<not> contains sec (le_Message e)" by blast
  moreover have "\<not> contains sec (le_Message e)" if "e \<in> set (logged (lb_red b) [op])"
    using that redact_gone [OF Cons.prems(4-6)] by (cases op) auto
  ultimately show ?case using held_step [OF Cons.prems(3) u(1)] by blast
qed auto

section \<open>Properties\<close>

text \<open>C15: The ring buffer implements the list of the last \<open>capacity\<close> entries: whatever sequence of
  appends, registrations of secrets, subscriptions and receives is run on a new buffer of a positive capacity,
  it never panics, and a query returns the last \<open>limit\<close> entries of the last \<open>capacity\<close> logged ones that
  match its filters, from old to new.\<close>

theorem journal_refines_list:
  assumes "0 < capacity"
  shows "\<exists>b. log_run ops (new_buffer capacity red) = Some b \<and>
    (\<forall>c since limit. log_query c since limit b =
       take_last limit (filter (entry_matches c since) (take_last capacity (logged red ops))))"
proof -
  have new: "ring_ok (new_buffer capacity red)" "contents (new_buffer capacity red) = []"
    "length (lb_entries (new_buffer capacity red)) = capacity" "lb_red (new_buffer capacity red) = red"
    using assms by (simp_all add: ring_ok_def contents_def new_buffer_def)
  from log_run_spec [OF new(1), of ops] obtain b where "log_run ops (new_buffer capacity red) = Some b" "ring_ok b"
    "contents b = take_last capacity (logged red ops)"
    by (auto simp: new)
  then show ?thesis using query_spec by auto
qed

text \<open>A buffer of two entries that has wrapped around.\<close>

definition wrap_ops :: "log_op list" where
  "wrap_ops = [LogAppend 1 ''agent'' ''info'' ''a'', LogAppend 2 ''proxy'' ''info'' ''b'', LogSecret ''hunter2'',
     LogAppend 3 ''agent'' ''warn'' ''pw hunter2'']"

theorem journal_refines_list_witness:
  "\<exists>b. log_run wrap_ops (new_buffer 2 []) = Some b \<and> map le_Message (log_query [] None 5 b) = [''b'', ''pw ***'']"
proof -
  have "logged [] wrap_ops = [\<lparr>le_Time = 1, le_Level = ''info'', le_Component = ''agent'', le_Message = ''a''\<rparr>,
      \<lparr>le_Time = 2, le_Level = ''info'', le_Component = ''proxy'', le_Message = ''b''\<rparr>,
      \<lparr>le_Time = 3, le_Level = ''warn'', le_Component = ''agent'', le_Message = ''pw ***''\<rparr>]"
    by (simp add: wrap_ops_def redact_def red_add_def)
  with journal_refines_list [of 2 wrap_ops "[]"] show ?thesis
    by (auto simp: take_last_def entry_matches_def)
qed



lemma attrs_component:
  "foldl append_attr (c, m) as = (foldl set_component c as, m @ concat (map attr_text (filter (\<lambda>a. fst a \<noteq> ''component'') as)))"
  by (induction as arbitrary: c m) (auto simp: set_component_def attr_text_def)

lemma set_component_again: "foldl set_component (foldl set_component c as) as = foldl set_component c as"
proof (cases "\<exists>v. (''component'', v) \<in> set as")
  case True
  then have "foldl set_component c as = foldl set_component d as" for c d
    by (induction as arbitrary: c d) (auto simp: set_component_def)
  then show ?thesis by blast
next
  case False
  then have "foldl set_component c as = c" for c
    by (induction as arbitrary: c) (auto simp: set_component_def)
  then show ?thesis by simp
qed

text \<open>Also: A handler with attributes logs a record as the plain handler logs it with the attributes in front.\<close>

theorem handler_attrs:
  "render (with_attrs as new_handler) (r\<lparr>lr_Attrs := bs\<rparr>) = render new_handler (r\<lparr>lr_Attrs := as @ bs\<rparr>)"
  by (simp add: render_def with_attrs_def new_handler_def attrs_component set_component_again)

end
