(* ===== verification/Api.thy ===== *)
theory Api
  imports Ops Logs State_Store
begin

text \<open>
  The HTTP server of the agent (\<open>internal/api/server.go\<close>, \<open>auth_handlers.go\<close>,
  \<open>diagnostics.go\<close>, \<open>web.go\<close>): the table of routes, the guard \<open>requireAuth\<close>, and one
  definition per handler. A handler is a program over the state of all components that the server holds
  (\<open>Deps\<close>): the files and sessions of \<open>Auth\<close>, the operations of \<open>Ops\<close>, the configuration
  store, the journal and the snapshot. Responses are values; the JSON encoder is not applied to their bodies.
  The parsers of the standard library (JSON, URL, RFC 3339) are arguments (\<open>api_lib\<close>), and so is what
  the select of a stream picks, one input after the other.
\<close>

section \<open>Requests and responses\<close>

text \<open>\<open>rq_path\<close> holds the segments of the cleaned path; a body that cannot be read is \<open>Inl\<close>.\<close>

record api_request = request +
  rq_path :: "string list"
  rq_query :: "(string \<times> string) list"
  rq_body :: "string + string"
  rq_flusher :: bool

record cookie =
  ck_name :: string
  ck_value :: string
  ck_maxAge :: int
  ck_httpOnly :: bool
  ck_lax :: bool

record version_info =
  vi_agent :: string
  vi_image :: string
  vi_expressvpn :: string
  vi_uplink :: string
  vi_protocols :: "string list"

datatype payload =
    PFields "(string \<times> string) list"
  | PFlags "(string \<times> bool) list"
  | PState snapshot
  | PVersion version_info
  | PConfig config
  | PApplied "string list" "string list"
  | POperation operation
  | PValue json
  | PEntries "log_entry list"
  | PText string
  | PFiles "(string \<times> payload) list"
  | PFrames "string list"
  | PStatic string

record response =
  rs_status :: nat
  rs_headers :: "(string \<times> string) list"
  rs_cookies :: "cookie list"
  rs_body :: payload

datatype action_call =
    CallConnect string
  | CallDisconnect
  | CallReconnect
  | CallLogin string
  | CallLogout
  | CallRefreshLocations
  | CallSelfcheck
  | CallProbeUplink

datatype 'a stream_in = ClientGone | Received 'a | Beat

record api_lib =
  al_unmarshal :: "string \<Rightarrow> json option"
  al_url_host :: "string \<Rightarrow> string option"
  al_rfc3339 :: "string \<Rightarrow> int option"
  al_stamp :: "int \<Rightarrow> string"
  al_file_stamp :: "int \<Rightarrow> string"
  al_state_text :: "snapshot \<Rightarrow> string option"
  al_entry_text :: "log_entry \<Rightarrow> string"
  al_locations :: "json res"
  al_static :: "string \<Rightarrow> bool"
  al_events :: "snapshot stream_in list"
  al_log_events :: "log_entry stream_in list"
  al_argon :: kdf

record deps =
  dp_sessions :: bool
  dp_actions :: bool
  dp_web :: bool
  dp_version :: version_info

record api_world = ops_world +
  ap_cfg :: cfg_world
  ap_state :: snapshot
  ap_logs :: log_buffer
  ap_calls :: "(nat \<times> action_call) list"

text \<open>A program over the configuration store, run inside the server's world.\<close>

definition in_cfg :: "(cfg_world, 'a) state \<Rightarrow> ('z api_world_scheme, 'a) state" where
  "in_cfg m = State (\<lambda>w. let (r, c) = run_state m ((ap_cfg w)\<lparr>world.trace := world.trace w\<rparr>)
     in (r, w\<lparr>world.trace := world.trace c, ap_cfg := c\<rparr>))"

definition json_reply :: "nat \<Rightarrow> payload \<Rightarrow> response" where
  "json_reply status body = \<lparr>rs_status = status, rs_headers = [(''Content-Type'', ''application/json'')],
     rs_cookies = [], rs_body = body\<rparr>"

definition error_reply :: "nat \<Rightarrow> string \<Rightarrow> response" where
  "error_reply status e = json_reply status (PFields [(''error'', e)])"

definition ok_reply :: response where
  "ok_reply = json_reply 200 (PFields [(''status'', ''ok'')])"

definition setSessionCookies :: "string \<Rightarrow> string \<Rightarrow> response \<Rightarrow> response" where
  "setSessionCookies session csrf r = r\<lparr>rs_cookies := rs_cookies r @
     [\<lparr>ck_name = sessionCookie, ck_value = session, ck_maxAge = 30 * 24 * 60 * 60, ck_httpOnly = True, ck_lax = True\<rparr>,
      \<lparr>ck_name = csrfCookie, ck_value = csrf, ck_maxAge = 30 * 24 * 60 * 60, ck_httpOnly = False, ck_lax = True\<rparr>]\<rparr>"

definition clearSessionCookies :: "response \<Rightarrow> response" where
  "clearSessionCookies r = r\<lparr>rs_cookies := rs_cookies r @
     [\<lparr>ck_name = sessionCookie, ck_value = [], ck_maxAge = - 1, ck_httpOnly = True, ck_lax = False\<rparr>,
      \<lparr>ck_name = csrfCookie, ck_value = [], ck_maxAge = - 1, ck_httpOnly = False, ck_lax = False\<rparr>]\<rparr>"

section \<open>The guard\<close>

definition crossSiteBlocked :: "api_lib \<Rightarrow> 'r request_scheme \<Rightarrow> bool" where
  "crossSiteBlocked L r =
     (if safe_method (rq_method r) then False
      else if header_get r ''Sec-Fetch-Site'' \<noteq> [] then header_get r ''Sec-Fetch-Site'' = ''cross-site''
      else if header_get r ''Origin'' \<noteq> [] then
        (case al_url_host L (header_get r ''Origin'') of None \<Rightarrow> True | Some h \<Rightarrow> \<not> equal_fold h (rq_host r))
      else False)"

definition authorized :: "env \<Rightarrow> deps \<Rightarrow> 'r request_scheme \<Rightarrow> ('z auth_world_scheme, bool) state" where
  "authorized E D r = (let h = header_get r ''Authorization'' in
     if h \<noteq> [] then
       (case cut_prefix ''Bearer '' h of Some token \<Rightarrow> tok_verify (trim_space token) | None \<Rightarrow> ret False)
     else if dp_sessions D then verifyRequest E r
     else ret False)"

definition requireAuth :: "env \<Rightarrow> api_lib \<Rightarrow> deps \<Rightarrow> 'r request_scheme \<Rightarrow>
    ('z auth_world_scheme, response) state \<Rightarrow> ('z auth_world_scheme, response) state" where
  "requireAuth E L D r handler = do {
     off \<leftarrow> (if dp_sessions D then authDisabled E else ret False);
     (if off then
        (if crossSiteBlocked L r then ret (error_reply 403 ''cross_site_blocked'') else handler)
      else do {
        ok \<leftarrow> authorized E D r;
        (if ok then handler else ret (error_reply 401 ''unauthorized''))
      })
   }"

section \<open>Bodies\<close>

text \<open>\<open>io.ReadAll(http.MaxBytesReader(w, r.Body, n))\<close>.\<close>

definition read_body :: "nat \<Rightarrow> 'z api_request_scheme \<Rightarrow> string + string" where
  "read_body n r = (case rq_body r of
     Inl m \<Rightarrow> Inl m
   | Inr raw \<Rightarrow> if n < length raw then Inl ''http: request body too large'' else Inr raw)"

text \<open>A struct of strings: its value under each name.\<close>

definition body_field :: "string \<Rightarrow> json \<Rightarrow> (string \<Rightarrow> string) \<Rightarrow> (string \<Rightarrow> string) res" where
  "body_field n v b = map_res (\<lambda>s. b(n := s)) (dec_string n v (b n))"

definition parse_body :: "api_lib \<Rightarrow> string list \<Rightarrow> string \<Rightarrow> (string \<Rightarrow> string) option" where
  "parse_body L names raw = (case al_unmarshal L raw of
     None \<Rightarrow> None
   | Some v \<Rightarrow> (case dec_struct False names body_field [] v (\<lambda>_. []) of Inl e \<Rightarrow> None | Inr b \<Rightarrow> Some b))"

definition readJSONBody :: "api_lib \<Rightarrow> string list \<Rightarrow> 'z api_request_scheme \<Rightarrow> response + (string \<Rightarrow> string)" where
  "readJSONBody L names r = (case read_body (64 * 1024) r of
     Inl m \<Rightarrow> Inl (error_reply 400 ''read body'')
   | Inr raw \<Rightarrow>
       if raw = [] then Inl (error_reply 400 ''empty body'')
       else (case parse_body L names raw of
               None \<Rightarrow> Inl (error_reply 400 ''invalid JSON'')
             | Some b \<Rightarrow> Inr b))"

definition minPasswordLen :: nat where "minPasswordLen = 8"

definition too_short :: response where
  "too_short = json_reply 400 (PFields [(''error'', ''password_too_short''), (''message'', ''minimum 8 characters'')])"

section \<open>The handlers of the password\<close>

definition handleAuthStatus :: "env \<Rightarrow> deps \<Rightarrow> 'r request_scheme \<Rightarrow> ('z auth_world_scheme, response) state" where
  "handleAuthStatus E D r = do {
     disabled \<leftarrow> authDisabled E;
     has \<leftarrow> hasPassword E;
     auth \<leftarrow> (if disabled then ret True else authorized E D r);
     ret (json_reply 200 (PFlags [(''passwordSet'', has), (''authDisabled'', disabled), (''authenticated'', auth)]))
   }"

text \<open>A new session, its cookies on the reply.\<close>

definition logged_in :: "env \<Rightarrow> ('z auth_world_scheme, response) state" where
  "logged_in E = do {
     (session, csrf) \<leftarrow> createSession E;
     ret (setSessionCookies session csrf ok_reply)
   }"

definition handleAuthSetup :: "env \<Rightarrow> api_lib \<Rightarrow> 'r api_request_scheme \<Rightarrow> ('z auth_world_scheme, response) state" where
  "handleAuthSetup E L r = do {
     off \<leftarrow> authDisabled E;
     (if off \<and> crossSiteBlocked L r then ret (error_reply 403 ''cross_site_blocked'')
      else do {
        has \<leftarrow> hasPassword E;
        (if has then ret (error_reply 409 ''password already set'')
         else (case readJSONBody L [''password''] r of
            Inl reply \<Rightarrow> ret reply
          | Inr body \<Rightarrow>
              if length (body ''password'') < minPasswordLen then ret too_short
              else do {
                e \<leftarrow> setPassword E (al_argon L) (body ''password'');
                (case e of Some err \<Rightarrow> ret (error_reply 500 (err_text err)) | None \<Rightarrow> logged_in E)
              }))
      })
   }"

definition handleAuthSkip :: "env \<Rightarrow> ('z auth_world_scheme, response) state" where
  "handleAuthSkip E = do {
     has \<leftarrow> hasPassword E;
     (if has then ret (error_reply 409 ''password already set'')
      else do {
        off \<leftarrow> authDisabled E;
        (if off then ret (error_reply 409 ''already disabled'')
         else do {
           e \<leftarrow> auth_skip E;
           ret (case e of Some err \<Rightarrow> error_reply 500 (err_text err) | None \<Rightarrow> ok_reply)
         })
      })
   }"

definition handleAuthDisable :: "env \<Rightarrow> api_lib \<Rightarrow> 'r api_request_scheme \<Rightarrow> ('z auth_world_scheme, response) state" where
  "handleAuthDisable E L r = do {
     has \<leftarrow> hasPassword E;
     (if \<not> has then ret (error_reply 409 ''no password set'')
      else (case readJSONBody L [''current''] r of
         Inl reply \<Rightarrow> ret reply
       | Inr body \<Rightarrow> do {
           ok \<leftarrow> auth_disable E (al_argon L) (body ''current'');
           ret (case ok of
               Inl err \<Rightarrow> (if err = Throttled then error_reply 429 ''too_many_attempts'' else error_reply 500 (err_text err))
             | Inr False \<Rightarrow> error_reply 401 ''wrong_password''
             | Inr True \<Rightarrow> clearSessionCookies ok_reply)
         }))
   }"

definition handleAuthLogin :: "env \<Rightarrow> api_lib \<Rightarrow> 'r api_request_scheme \<Rightarrow> ('z auth_world_scheme, response) state" where
  "handleAuthLogin E L r = do {
     has \<leftarrow> hasPassword E;
     (if \<not> has then ret (error_reply 409 ''setup_required'')
      else (case readJSONBody L [''password''] r of
         Inl reply \<Rightarrow> ret reply
       | Inr body \<Rightarrow> do {
           ok \<leftarrow> verifyPassword E (al_argon L) (body ''password'');
           (case ok of
              Inl err \<Rightarrow> ret (if err = Throttled then error_reply 429 ''too_many_attempts'' else error_reply 500 (err_text err))
            | Inr False \<Rightarrow> ret (error_reply 401 ''wrong_password'')
            | Inr True \<Rightarrow> logged_in E)
         }))
   }"

definition handleAuthLogout :: "'r request_scheme \<Rightarrow> ('z auth_world_scheme, response) state" where
  "handleAuthLogout r = do {
     (case map_of (rq_cookies r) sessionCookie of Some s \<Rightarrow> dropSession s | None \<Rightarrow> ret ());
     ret (clearSessionCookies ok_reply)
   }"

definition handleAuthLogoutAll :: "('z auth_world_scheme, response) state" where
  "handleAuthLogoutAll = do { dropAllSessions; ret (clearSessionCookies ok_reply) }"

definition handleAuthPassword :: "env \<Rightarrow> api_lib \<Rightarrow> 'r api_request_scheme \<Rightarrow> ('z auth_world_scheme, response) state" where
  "handleAuthPassword E L r = (case readJSONBody L [''current'', ''new''] r of
     Inl reply \<Rightarrow> ret reply
   | Inr body \<Rightarrow> do {
       ok \<leftarrow> verifyPassword E (al_argon L) (body ''current'');
       (if ok = Inl Throttled then ret (error_reply 429 ''too_many_attempts'')
        else if ok \<noteq> Inr True then ret (error_reply 401 ''wrong_password'')
        else if length (body ''new'') < minPasswordLen then ret too_short
        else do {
          e \<leftarrow> setPassword E (al_argon L) (body ''new'');
          (case e of Some err \<Rightarrow> ret (error_reply 500 (err_text err)) | None \<Rightarrow> logged_in E)
        })
     })"

section \<open>The handlers of the server\<close>

definition handleHealthz :: response where
  "handleHealthz = ok_reply"

definition handleState :: "('z api_world_scheme, response) state" where
  "handleState = do { w \<leftarrow> getw; ret (json_reply 200 (PState (ap_state w))) }"

definition handleVersion :: "deps \<Rightarrow> response" where
  "handleVersion D = json_reply 200 (PVersion (dp_version D))"

definition handleConfigGet :: "('z api_world_scheme, response) state" where
  "handleConfigGet = do { w \<leftarrow> getw; ret (json_reply 200 (PConfig (redacted (cw_cur (ap_cfg w))))) }"

definition handleConfigPatch :: "env \<Rightarrow> api_lib \<Rightarrow> 'r api_request_scheme \<Rightarrow> ('z api_world_scheme, response) state" where
  "handleConfigPatch E L r = (case read_body 1048576 r of
     Inl m \<Rightarrow> ret (error_reply 400 (''read body: '' @ m))
   | Inr body \<Rightarrow> do {
       applied \<leftarrow> in_cfg (apply_merge_patch E (al_unmarshal L) body);
       ret (case applied of
           Inl err \<Rightarrow> (case as_field err of
               Some (field, msg) \<Rightarrow> json_reply 400 (PFields [(''error'', ''validation''), (''field'', field), (''message'', msg)])
             | None \<Rightarrow> error_reply 500 (err_text err))
         | Inr keys \<Rightarrow> json_reply 200 (PApplied keys []))
     })"

text \<open>The stream of snapshots: what is written for each choice of the select, until the client is gone.\<close>

fun events_loop :: "(snapshot \<Rightarrow> string option) \<Rightarrow> snapshot stream_in list \<Rightarrow> string list" where
  "events_loop marshal [] = []"
| "events_loop marshal (ClientGone # is) = []"
| "events_loop marshal (Received s # is) =
     (case marshal s of
        None \<Rightarrow> []
      | Some raw \<Rightarrow> (''event: state'' @ [newline] @ ''data: '' @ raw @ [newline, newline]) # events_loop marshal is)"
| "events_loop marshal (Beat # is) = ('': heartbeat'' @ [newline, newline]) # events_loop marshal is"

definition stream_reply :: "string list \<Rightarrow> response" where
  "stream_reply frames = \<lparr>rs_status = 200, rs_headers = [(''Content-Type'', ''text/event-stream''),
     (''Cache-Control'', ''no-store''), (''X-Accel-Buffering'', ''no'')], rs_cookies = [], rs_body = PFrames frames\<rparr>"

definition no_stream :: response where
  "no_stream = \<lparr>rs_status = 500, rs_headers = [(''Content-Type'', ''text/plain; charset=utf-8'')], rs_cookies = [],
     rs_body = PText ''streaming unsupported''\<rparr>"

definition handleEvents :: "api_lib \<Rightarrow> 'r api_request_scheme \<Rightarrow> response" where
  "handleEvents L r = (if \<not> rq_flusher r then no_stream else stream_reply (events_loop (al_state_text L) (al_events L)))"

definition actionResources :: "(string \<times> string) list" where
  "actionResources = [(''connect'', ''connection''), (''disconnect'', ''connection''), (''reconnect'', ''connection''),
     (''login'', ''account''), (''logout'', ''account''), (''refresh-locations'', ''locations''),
     (''selfcheck'', ''selfcheck''), (''probe-uplink'', ''uplink'')]"

definition action_run :: "string \<Rightarrow> (string \<Rightarrow> string) \<Rightarrow> action_call" where
  "action_run name body =
     (if name = ''connect'' then CallConnect (body ''location'')
      else if name = ''disconnect'' then CallDisconnect
      else if name = ''reconnect'' then CallReconnect
      else if name = ''login'' then CallLogin (body ''activationCode'')
      else if name = ''logout'' then CallLogout
      else if name = ''refresh-locations'' then CallRefreshLocations
      else if name = ''selfcheck'' then CallSelfcheck
      else CallProbeUplink)"

text \<open>The body of an action; one that cannot be read is ignored.\<close>

definition action_body :: "api_lib \<Rightarrow> 'r api_request_scheme \<Rightarrow> (string \<Rightarrow> string) option" where
  "action_body L r = (case read_body 1048576 r of
     Inl m \<Rightarrow> Some (\<lambda>_. [])
   | Inr raw \<Rightarrow> if raw = [] then Some (\<lambda>_. []) else parse_body L [''location'', ''activationCode''] raw)"

definition add_secret :: "string \<Rightarrow> ('z api_world_scheme, unit) state" where
  "add_secret s = modify (\<lambda>w. w\<lparr>ap_logs := (ap_logs w)\<lparr>lb_red := red_add s (lb_red (ap_logs w))\<rparr>\<rparr>)"

definition handleAction :: "env \<Rightarrow> api_lib \<Rightarrow> deps \<Rightarrow> 'r api_request_scheme \<Rightarrow> string \<Rightarrow>
    ('z api_world_scheme, response) state" where
  "handleAction E L D r name = (case map_of actionResources name of
     None \<Rightarrow> ret (error_reply 404 (''unknown action '' @ name))
   | Some resource \<Rightarrow> (case action_body L r of
       None \<Rightarrow> ret (error_reply 400 ''invalid JSON body'')
     | Some body \<Rightarrow> do {
         (if body ''activationCode'' \<noteq> [] then add_secret (body ''activationCode'') else ret ());
         (if \<not> dp_actions D then ret (error_reply 503 ''actions unavailable'')
          else do {
            op \<leftarrow> op_start E name resource;
            (case op of
               Inl (ConflictError i) \<Rightarrow> ret (json_reply 409 (PFields [(''error'', ''conflict''), (''operation'', i)]))
             | Inl err \<Rightarrow> ret (error_reply 500 (err_text err))
             | Inr a \<Rightarrow> do {
                 modify (\<lambda>w. w\<lparr>ap_calls := ap_calls w @ [(a, action_run name body)]\<rparr>);
                 w \<leftarrow> getw;
                 ret (json_reply 202 (PFields [(''operation'', opn_id (om_heap w ! a))]))
               })
          })
       }))"

definition handleOperation :: "string \<Rightarrow> ('z ops_world_scheme, response) state" where
  "handleOperation i = do {
     w \<leftarrow> getw;
     ret (case op_get i w of None \<Rightarrow> error_reply 404 ''unknown operation'' | Some p \<Rightarrow> json_reply 200 (POperation p))
   }"

definition handleLocations :: "api_lib \<Rightarrow> deps \<Rightarrow> response" where
  "handleLocations L D = (if \<not> dp_actions D then error_reply 503 ''actions unavailable''
     else (case al_locations L of Inl err \<Rightarrow> error_reply 500 (err_text err) | Inr v \<Rightarrow> json_reply 200 (PValue v)))"

definition query_get :: "'r api_request_scheme \<Rightarrow> string \<Rightarrow> string" where
  "query_get r k = (case map_of (rq_query r) k of None \<Rightarrow> [] | Some v \<Rightarrow> v)"

definition defaultLogLimit :: int where "defaultLogLimit = 500"

definition parse_since :: "api_lib \<Rightarrow> string \<Rightarrow> int option res" where
  "parse_since L v = (if v = [] then Inr None
     else (case al_rfc3339 L v of None \<Rightarrow> Inl (PlainError ''since must be RFC3339'') | Some t \<Rightarrow> Inr (Some t)))"

definition parse_limit :: "string \<Rightarrow> int res" where
  "parse_limit v = (if v = [] then Inr defaultLogLimit
     else (case parse_int v of
        None \<Rightarrow> Inl (PlainError ''limit must be 1..5000'')
      | Some n \<Rightarrow> if n < 1 \<or> 5000 < n then Inl (PlainError ''limit must be 1..5000'') else Inr n))"

definition parseLogsQuery :: "api_lib \<Rightarrow> 'r api_request_scheme \<Rightarrow> (string \<times> int option \<times> int) res" where
  "parseLogsQuery L r = (let component = query_get r ''component'' in
     if component \<noteq> [] \<and> component \<notin> set Components then Inl (PlainError (''unknown component '' @ go_quote component))
     else (case parse_since L (query_get r ''since'') of
         Inl e \<Rightarrow> Inl e
       | Inr since \<Rightarrow> (case parse_limit (query_get r ''limit'') of
           Inl e \<Rightarrow> Inl e
         | Inr limit \<Rightarrow> Inr (component, since, limit))))"

definition handleLogs :: "api_lib \<Rightarrow> 'r api_request_scheme \<Rightarrow> ('z api_world_scheme, response) state" where
  "handleLogs L r = (case parseLogsQuery L r of
     Inl e \<Rightarrow> ret (error_reply 400 (err_text e))
   | Inr (component, since, limit) \<Rightarrow> do {
       w \<leftarrow> getw;
       ret (json_reply 200 (PEntries (log_query component since (nat limit) (ap_logs w))))
     })"

fun log_loop :: "(log_entry \<Rightarrow> string) \<Rightarrow> string \<Rightarrow> log_entry stream_in list \<Rightarrow> string list" where
  "log_loop marshal component [] = []"
| "log_loop marshal component (ClientGone # is) = []"
| "log_loop marshal component (Received e # is) =
     (if component \<noteq> [] \<and> le_Component e \<noteq> component then log_loop marshal component is
      else (''event: log'' @ [newline] @ ''data: '' @ marshal e @ [newline, newline]) # log_loop marshal component is)"
| "log_loop marshal component (Beat # is) = ('': heartbeat'' @ [newline, newline]) # log_loop marshal component is"

definition handleLogsStream :: "api_lib \<Rightarrow> 'r api_request_scheme \<Rightarrow> ('z api_world_scheme, response) state" where
  "handleLogsStream L r = (case parseLogsQuery L r of
     Inl e \<Rightarrow> ret (error_reply 400 (err_text e))
   | Inr (component, since, limit) \<Rightarrow>
       if \<not> rq_flusher r then ret no_stream
       else do {
         w \<leftarrow> getw;
         let (ch, b) = log_subscribe (ap_logs w);
         modify (\<lambda>w. w\<lparr>ap_logs := b\<rparr>);
         modify (\<lambda>w. w\<lparr>ap_logs := log_cancel ch (ap_logs w)\<rparr>);
         ret (stream_reply (log_loop (al_entry_text L) component (al_log_events L)))
       })"

definition handleTokenGet :: "('z auth_world_scheme, response) state" where
  "handleTokenGet = do { token \<leftarrow> tok_current; ret (json_reply 200 (PFields [(''token'', token)])) }"

definition handleTokenRotate :: "env \<Rightarrow> ('z auth_world_scheme, response) state" where
  "handleTokenRotate E = do {
     t \<leftarrow> tok_rotate E;
     ret (case t of Inl err \<Rightarrow> error_reply 500 (err_text err) | Inr token \<Rightarrow> json_reply 200 (PFields [(''token'', token)]))
   }"

definition log_line :: "api_lib \<Rightarrow> log_entry \<Rightarrow> string" where
  "log_line L e = al_stamp L (le_Time e) @ '' '' @ pad5 (le_Level e) @ '' ['' @ le_Component e @ ''] '' @ le_Message e @ [newline]"

definition handleDiagnosticsArchive :: "env \<Rightarrow> api_lib \<Rightarrow> deps \<Rightarrow> ('z api_world_scheme, response) state" where
  "handleDiagnosticsArchive E L D = do {
     now \<leftarrow> do_clock E;
     w \<leftarrow> getw;
     ret \<lparr>rs_status = 200, rs_headers = [(''Content-Type'', ''application/zip''),
         (''Content-Disposition'', ''attachment; filename=detour-diagnostics-'' @ al_file_stamp L now @ ''.zip'')],
       rs_cookies = [], rs_body = PFiles
         [(''state.json'', PState (ap_state w)),
          (''config.json'', PConfig (redacted (cw_cur (ap_cfg w)))),
          (''version.json'', PVersion (dp_version D)),
          (''logs.txt'', PText (concat (map (log_line L) (log_query [] None 5000 (ap_logs w)))))]\<rparr>
   }"

text \<open>The static files; a path without one is served as \<open>/\<close>.\<close>

definition spaHandler :: "api_lib \<Rightarrow> string list \<Rightarrow> response" where
  "spaHandler L segs = (let path = trim_prefix ''/'' (concat (map (\<lambda>s. ''/'' @ s) segs)) in
     \<lparr>rs_status = 200, rs_headers = [], rs_cookies = [], rs_body =
       PStatic (if al_static L (if path = [] then ''index.html'' else path) then path else [])\<rparr>)"

section \<open>The routes\<close>

datatype endpoint =
    Healthz | GetState | Events | ConfigGet | ConfigPatch | GetVersion | RunAction string | GetOperation string | Locations
  | GetLogs | LogsStream | TokenGet | TokenRotate | Diagnostics
  | AuthStatus | AuthSetup | AuthSkip | AuthDisable | AuthLogin | AuthLogout | AuthLogoutAll | AuthPassword | Spa

text \<open>What \<open>New\<close> registers: the method, the segments of the path, and the endpoint for the wildcard's value,
  guarded or not. The two routes with a wildcard have it as their last segment.\<close>

datatype seg = Lit string | Wild

type_synonym route = "string \<times> seg list \<times> bool \<times> (string \<Rightarrow> endpoint)"

definition api_routes :: "route list" where
  "api_routes =
     [(''GET'', [Lit ''healthz''], False, \<lambda>_. Healthz),
      (''GET'', [Lit ''v1'', Lit ''state''], True, \<lambda>_. GetState),
      (''GET'', [Lit ''v1'', Lit ''events''], True, \<lambda>_. Events),
      (''GET'', [Lit ''v1'', Lit ''config''], True, \<lambda>_. ConfigGet),
      (''PATCH'', [Lit ''v1'', Lit ''config''], True, \<lambda>_. ConfigPatch),
      (''GET'', [Lit ''v1'', Lit ''version''], True, \<lambda>_. GetVersion),
      (''POST'', [Lit ''v1'', Lit ''actions'', Wild], True, RunAction),
      (''GET'', [Lit ''v1'', Lit ''operations'', Wild], True, GetOperation),
      (''GET'', [Lit ''v1'', Lit ''locations''], True, \<lambda>_. Locations),
      (''GET'', [Lit ''v1'', Lit ''logs''], True, \<lambda>_. GetLogs),
      (''GET'', [Lit ''v1'', Lit ''logs'', Lit ''stream''], True, \<lambda>_. LogsStream),
      (''GET'', [Lit ''v1'', Lit ''auth'', Lit ''token''], True, \<lambda>_. TokenGet),
      (''POST'', [Lit ''v1'', Lit ''auth'', Lit ''token'', Lit ''rotate''], True, \<lambda>_. TokenRotate),
      (''GET'', [Lit ''v1'', Lit ''diagnostics'', Lit ''archive''], True, \<lambda>_. Diagnostics)]"

definition auth_routes :: "route list" where
  "auth_routes =
     [(''GET'', [Lit ''v1'', Lit ''auth'', Lit ''status''], False, \<lambda>_. AuthStatus),
      (''POST'', [Lit ''v1'', Lit ''auth'', Lit ''setup''], False, \<lambda>_. AuthSetup),
      (''POST'', [Lit ''v1'', Lit ''auth'', Lit ''skip''], False, \<lambda>_. AuthSkip),
      (''POST'', [Lit ''v1'', Lit ''auth'', Lit ''disable''], True, \<lambda>_. AuthDisable),
      (''POST'', [Lit ''v1'', Lit ''auth'', Lit ''login''], False, \<lambda>_. AuthLogin),
      (''POST'', [Lit ''v1'', Lit ''auth'', Lit ''logout''], True, \<lambda>_. AuthLogout),
      (''POST'', [Lit ''v1'', Lit ''auth'', Lit ''logout-all''], True, \<lambda>_. AuthLogoutAll),
      (''POST'', [Lit ''v1'', Lit ''auth'', Lit ''password''], True, \<lambda>_. AuthPassword)]"

definition server_routes :: "deps \<Rightarrow> route list" where
  "server_routes D = api_routes @ (if dp_sessions D then auth_routes else [])"

text \<open>The multiplexer of \<open>net/http\<close>: a wildcard takes one non-empty segment, \<open>GET\<close> serves \<open>HEAD\<close> too.\<close>

fun match_path :: "seg list \<Rightarrow> string list \<Rightarrow> string option" where
  "match_path [] [] = Some []"
| "match_path [Wild] [s] = (if s = [] then None else Some s)"
| "match_path (Lit l # ps) (s # ss) = (if l = s then match_path ps ss else None)"
| "match_path _ _ = None"

definition method_ok :: "string \<Rightarrow> string \<Rightarrow> bool" where
  "method_ok registered m \<longleftrightarrow> registered = m \<or> (registered = ''GET'' \<and> m = ''HEAD'')"

fun find_route :: "route list \<Rightarrow> string \<Rightarrow> string list \<Rightarrow> (bool \<times> endpoint) option" where
  "find_route [] m segs = None"
| "find_route ((m', p, guard, ep) # rs) m segs =
     (case match_path p segs of
        Some x \<Rightarrow> if method_ok m' m then Some (guard, ep x) else find_route rs m segs
      | None \<Rightarrow> find_route rs m segs)"

definition run_endpoint :: "env \<Rightarrow> api_lib \<Rightarrow> deps \<Rightarrow> 'r api_request_scheme \<Rightarrow> endpoint \<Rightarrow>
    ('z api_world_scheme, response) state" where
  "run_endpoint E L D r ep = (case ep of
     Healthz \<Rightarrow> ret handleHealthz
   | GetState \<Rightarrow> handleState
   | Events \<Rightarrow> ret (handleEvents L r)
   | ConfigGet \<Rightarrow> handleConfigGet
   | ConfigPatch \<Rightarrow> handleConfigPatch E L r
   | GetVersion \<Rightarrow> ret (handleVersion D)
   | RunAction name \<Rightarrow> handleAction E L D r name
   | GetOperation i \<Rightarrow> handleOperation i
   | Locations \<Rightarrow> ret (handleLocations L D)
   | GetLogs \<Rightarrow> handleLogs L r
   | LogsStream \<Rightarrow> handleLogsStream L r
   | TokenGet \<Rightarrow> handleTokenGet
   | TokenRotate \<Rightarrow> handleTokenRotate E
   | Diagnostics \<Rightarrow> handleDiagnosticsArchive E L D
   | AuthStatus \<Rightarrow> handleAuthStatus E D r
   | AuthSetup \<Rightarrow> handleAuthSetup E L r
   | AuthSkip \<Rightarrow> handleAuthSkip E
   | AuthDisable \<Rightarrow> handleAuthDisable E L r
   | AuthLogin \<Rightarrow> handleAuthLogin E L r
   | AuthLogout \<Rightarrow> handleAuthLogout r
   | AuthLogoutAll \<Rightarrow> handleAuthLogoutAll
   | AuthPassword \<Rightarrow> handleAuthPassword E L r
   | Spa \<Rightarrow> ret (spaHandler L (rq_path r)))"

text \<open>A request: without a route it goes to the static files, when there are any; the multiplexer answers
  405 for a path that only other methods have, 404 for the rest.\<close>

definition serve :: "env \<Rightarrow> api_lib \<Rightarrow> deps \<Rightarrow> 'r api_request_scheme \<Rightarrow> ('z api_world_scheme, response) state" where
  "serve E L D r = (case find_route (server_routes D) (rq_method r) (rq_path r) of
     Some (True, ep) \<Rightarrow> requireAuth E L D r (run_endpoint E L D r ep)
   | Some (False, ep) \<Rightarrow> run_endpoint E L D r ep
   | None \<Rightarrow>
       if dp_web D then run_endpoint E L D r Spa
       else ret \<lparr>rs_status = (if \<exists>x \<in> set (server_routes D). match_path (fst (snd x)) (rq_path r) \<noteq> None then 405 else 404),
         rs_headers = [(''Content-Type'', ''text/plain; charset=utf-8'')], rs_cookies = [], rs_body = PText []\<rparr>)"

end
