(* ===== verification/Api_Guard.thy ===== *)
theory Api_Guard
  imports Api
begin

text \<open>
  What the server guarantees about requests. A request that is not entitled to it gets past no guard
  (\<open>api_guarded\<close>), the password file changes only for those who know the password
  (\<open>password_change_guarded\<close>), and no answer depends on the stored passwords
  (\<open>config_secrets_not_served\<close>). The frames of the first two are instances of the
  locale \<open>step_frame\<close>.
\<close>

section \<open>What a program may change\<close>

context step_frame
begin

lemma within_then_go: "within m \<Longrightarrow> within k \<Longrightarrow> within (then_go m k)"
  unfolding then_go_def by (intro within_bind) (auto simp: within_basic split: option.split)

lemmas guard_intros = within_intros within_then_go

end

section \<open>The password file\<close>

text \<open>The file is changed only where \<open>P\<close> holds of it.\<close>

definition pw_kept :: "string \<Rightarrow> (auth_file option \<Rightarrow> bool) \<Rightarrow> 'z auth_world_scheme \<Rightarrow> 'z auth_world_scheme \<Rightarrow> bool" where
  "pw_kept d P w v \<longleftrightarrow> (au_dir w = d \<longrightarrow> au_dir v = d \<and>
     (au_files v (d @ ''/password'') = au_files w (d @ ''/password'') \<or> P (au_files w (d @ ''/password''))))"

interpretation pwf: step_frame "pw_kept d P" for d P
  by unfold_locales (auto simp: pw_kept_def)

lemma pw_only:
  assumes "only_effects m"
  shows "pwf.within d P m"
  unfolding pwf.within_def
proof
  fix w
  obtain es where "snd (run_state m w) = w\<lparr>trace := trace w @ es\<rparr>"
    using assms unfolding only_effects_def by blast
  then show "pw_kept d P w (snd (run_state m w))" by (simp add: pw_kept_def)
qed

lemma pw_getw: "(\<And>w. au_dir w = d \<Longrightarrow> pwf.within d P (f w)) \<Longrightarrow> pwf.within d P (getw \<bind> f)"
  by (auto simp: pwf.within_def pw_kept_def)

lemma pw_files:
  "p \<noteq> d @ ''/password'' \<Longrightarrow> pwf.within d P (au_write E p t)" "p \<noteq> d @ ''/password'' \<Longrightarrow> pwf.within d P (au_remove E p)"
  by (auto simp: pwf.within_def pw_kept_def au_write_def au_put_def au_remove_def split: option.split)

lemma pw_modify:
  "pwf.within d P (modify (\<lambda>w. w\<lparr>au_token := t\<rparr>))" "pwf.within d P (modify (\<lambda>w. w\<lparr>au_failures := g w\<rparr>))"
  "pwf.within d P (modify (\<lambda>w. w\<lparr>au_blockedTo := b, au_failures := n\<rparr>))" "pwf.within d P (dropSession s)" "pwf.within d P dropAllSessions"
  "pwf.within d P (modify (\<lambda>w. w\<lparr>au_sessions := h w\<rparr>))"
  by (simp_all add: pwf.within_def pw_kept_def dropSession_def dropAllSessions_def)

lemmas pw_intros = pw_getw pwf.guard_intros pw_files pw_modify auth_only [THEN pw_only] only_basic [THEN pw_only]

lemma pw_ops:
  "pwf.within d P (tok_generate E)" "pwf.within d P (tok_rotate E)" "pwf.within d P (authDisabled E)" "pwf.within d P (auth_skip E)"
  "pwf.within d P (createSession E)" "pwf.within d P (verifyPassword E argon pw)" "pwf.within d P (verifyRequest E r)"
proof -
  show g: "pwf.within d P (tok_generate E)"
    unfolding tok_generate_def Let_def by (intro pw_intros) simp_all
  show "pwf.within d P (tok_rotate E)"
    unfolding tok_rotate_def by (intro pw_intros g)
  show "pwf.within d P (authDisabled E)" "pwf.within d P (auth_skip E)"
    unfolding authDisabled_def auth_skip_def hasPassword_def by ((intro pw_intros; simp)+)
  show "pwf.within d P (createSession E)" "pwf.within d P (verifyPassword E argon pw)" "pwf.within d P (verifyRequest E r)"
    unfolding createSession_def verifyPassword_def verify_end_def verifyRequest_def Let_def by (intro pw_intros; simp)+
qed

lemma pw_any: "pwf.within d (\<lambda>_. True) (au_write E p t)" "pwf.within d (\<lambda>_. True) (au_remove E p)"
  by (auto simp: pwf.within_def pw_kept_def au_write_def au_put_def au_remove_def split: option.split)

lemma pw_set: "pwf.within d (\<lambda>_. True) (setPassword E argon pw)"
  unfolding setPassword_def by (intro pw_intros pw_any)

text \<open>After the right password anything may follow, after every other answer only what keeps the file.\<close>

lemma pw_verified:
  assumes "\<And>f. verifyPHC argon (trim_space (af_text f)) pw \<Longrightarrow> P (Some f)"
    and "\<And>r. r \<noteq> Inr True \<Longrightarrow> pwf.within d P (k r)" and "pwf.within d (\<lambda>_. True) (k (Inr True))"
  shows "pwf.within d P (verifyPassword E argon pw \<bind> k)"
  unfolding pwf.within_def
proof
  fix w :: "'a auth_world_scheme"
  obtain r v where v: "run_state (verifyPassword E argon pw) w = (r, v)" by fastforce
  have keep: "pw_kept d Q w v" for Q using pw_ops(6) [of d Q E argon pw] v unfolding pwf.within_def by (metis snd_conv)
  have "pw_kept d P w (snd (run_state (k r) v))"
  proof (cases "r = Inr True")
    case True
    with v obtain f where f: "au_files w (pw_path w) = Some f" "verifyPHC argon (trim_space (af_text f)) pw"
      by (auto simp: verifyPassword_def verify_begin_def verify_compare_def au_read_def run_attempt
          split: if_splits sum.splits option.splits prod.splits)
    have "pw_kept d (\<lambda>_. True) v (snd (run_state (k r) v))"
      using assms(3) unfolding True pwf.within_def by blast
    with keep [of "\<lambda>_. True"] f assms(1) show ?thesis by (auto simp: pw_kept_def)
  next
    case False
    then show ?thesis using pwf.both keep assms(2) unfolding pwf.within_def by blast
  qed
  then show "pw_kept d P w (snd (run_state (verifyPassword E argon pw \<bind> k) w))" by (simp add: v)
qed

lemma pw_disable:
  assumes "\<And>f. verifyPHC argon (trim_space (af_text f)) pw \<Longrightarrow> P (Some f)"
  shows "pwf.within d P (auth_disable E argon pw)"
  unfolding auth_disable_def attempt_def
proof (rule pw_verified)
  show "verifyPHC argon (trim_space (af_text f)) pw \<Longrightarrow> P (Some f)" for f by (rule assms)
  fix r :: "bool res" assume "r \<noteq> Inr True"
  then show "pwf.within d P (case r of Inl e \<Rightarrow> ret (Inl e) | Inr ok \<Rightarrow> if \<not> ok then ret (Inr False) else do {
       w \<leftarrow> getw;
       e \<leftarrow> then_go (au_write E (disabled_path w) []) (au_remove E (pw_path w));
       (case e of Some err \<Rightarrow> ret (Inl err) | None \<Rightarrow> do { dropAllSessions; ret (Inr True) }) })"
    by (auto split: sum.split intro: pw_intros)
qed (auto intro!: pw_intros pw_any)

text \<open>When a request may change the file: there is none, or its body has the current password.\<close>

definition names_password :: "api_lib \<Rightarrow> 'r api_request_scheme \<Rightarrow> auth_file option \<Rightarrow> bool" where
  "names_password L r f = (case f of
     None \<Rightarrow> True
   | Some f \<Rightarrow> (\<exists>raw names body. rq_body r = Inr raw \<and> ''current'' \<in> set names \<and> parse_body L names raw = Some body \<and>
       verifyPHC (al_argon L) (trim_space (af_text f)) (body ''current'')))"

lemma read_body_names:
  "readJSONBody L names r = Inr body \<Longrightarrow> ''current'' \<in> set names \<Longrightarrow>
     verifyPHC (al_argon L) (trim_space (af_text f)) (body ''current'') \<Longrightarrow> names_password L r (Some f)"
  by (auto simp: names_password_def readJSONBody_def read_body_def split: sum.splits if_splits option.splits)

lemma pw_logged_in: "pwf.within d P (logged_in E)"
  unfolding logged_in_def by (intro pw_intros pw_ops)

lemma pw_cfg: "pwf.within d P (in_cfg m)"
  by (auto simp: pwf.within_def pw_kept_def in_cfg_def split: prod.split)

lemma pw_api_modify:
  "pwf.within d P (modify (\<lambda>w. w\<lparr>ap_calls := c w\<rparr>))" "pwf.within d P (modify (\<lambda>w. w\<lparr>ap_logs := l w\<rparr>))"
  by (simp_all add: pwf.within_def pw_kept_def)

lemma pw_start: "pwf.within d P (op_start E action resource)"
  unfolding pwf.within_def
proof
  fix w :: "'a ops_world_scheme"
  show "pw_kept d P w (snd (run_state (op_start E action resource) w))"
    by (cases rule: start_cases [of w resource E action]) (auto simp: pw_kept_def)
qed

lemma pw_setup:
  assumes "\<And>h. env_flag E h (d @ ''/password'')" and "P None"
  shows "pwf.within d P (handleAuthSetup E L r)"
  unfolding pwf.within_def
proof
  fix w :: "'a auth_world_scheme"
  show "pw_kept d P w (snd (run_state (handleAuthSetup E L r) w))"
  proof (cases "au_dir w = d \<and> au_files w (d @ ''/password'') \<noteq> None")
    case True
    with assms(1) show ?thesis
      by (auto simp: pw_kept_def handleAuthSetup_def authDisabled_def hasPassword_def au_stat_def au_remove_def split: option.split)
  next
    case False
    have "pwf.within d (\<lambda>_. True) (handleAuthSetup E L r)"
      unfolding handleAuthSetup_def hasPassword_def by (intro pw_intros pw_ops pw_set pw_logged_in)
    then show ?thesis using False assms(2) unfolding pwf.within_def pw_kept_def by auto
  qed
qed

lemma pw_action: "pwf.within d P (handleAction E L D r name)"
  unfolding handleAction_def add_secret_def
  by (intro pw_intros pw_start pw_api_modify) (auto split: go_error.split intro: pw_intros)

lemma pw_simple:
  "pwf.within d P handleState" "pwf.within d P handleConfigGet" "pwf.within d P (handleConfigPatch E L r)"
  "pwf.within d P (handleOperation i)" "pwf.within d P (handleLogs L r)" "pwf.within d P (handleLogsStream L r)"
  "pwf.within d P handleTokenGet" "pwf.within d P (handleTokenRotate E)" "pwf.within d P (handleDiagnosticsArchive E L D)"
  "pwf.within d P (handleAuthStatus E D r)" "pwf.within d P (handleAuthSkip E)" "pwf.within d P (handleAuthLogin E L r)"
  "pwf.within d P (handleAuthLogout r)" "pwf.within d P handleAuthLogoutAll"
  unfolding handleState_def handleConfigGet_def handleConfigPatch_def handleOperation_def handleLogs_def handleLogsStream_def
    handleTokenGet_def handleTokenRotate_def handleDiagnosticsArchive_def handleAuthStatus_def handleAuthSkip_def
    handleAuthLogin_def handleAuthLogout_def handleAuthLogoutAll_def authorized_def Let_def
  by ((intro pw_intros pw_ops pw_cfg pw_logged_in pw_api_modify | auto split: bool.split intro: pw_intros pw_logged_in)+)

lemma pw_change:
  "pwf.within d (names_password L r) (handleAuthDisable E L r)"
  "pwf.within d (names_password L r) (handleAuthPassword E L r)"
proof -
  show "pwf.within d (names_password L r) (handleAuthDisable E L r)"
  proof (cases "readJSONBody L [''current''] r")
    case (Inl reply)
    then show ?thesis unfolding handleAuthDisable_def hasPassword_def Inl sum.case by (intro pw_intros)
  next
    case (Inr body)
    then have "names_password L r (Some f)" if "verifyPHC (al_argon L) (trim_space (af_text f)) (body ''current'')" for f
      using that by (auto intro: read_body_names)
    then show ?thesis
      unfolding handleAuthDisable_def hasPassword_def Inr sum.case by (intro pw_intros pw_disable)
  qed
  show "pwf.within d (names_password L r) (handleAuthPassword E L r)"
  proof (cases "readJSONBody L [''current'', ''new''] r")
    case (Inr body)
    then have "names_password L r (Some f)" if "verifyPHC (al_argon L) (trim_space (af_text f)) (body ''current'')" for f
      using that by (auto intro: read_body_names)
    then show ?thesis
      unfolding handleAuthPassword_def Inr sum.case
      by (rule pw_verified) (auto intro!: pw_intros pw_set pw_logged_in)
  qed (simp add: handleAuthPassword_def pwf.within_basic)
qed

lemma pw_endpoint:
  assumes "\<And>h. env_flag E h (d @ ''/password'')"
  shows "pwf.within d (names_password L r) (run_endpoint E L D r ep)"
  using pw_change pw_simple pw_action pw_setup [OF assms, of "names_password L r"] pwf.within_basic
  by (cases ep) (simp_all add: run_endpoint_def names_password_def)

lemma pw_serve:
  assumes "\<And>h. env_flag E h (d @ ''/password'')"
  shows "pwf.within d (names_password L r) (serve E L D r)"
  unfolding serve_def requireAuth_def authorized_def Let_def
  by (auto split: option.split prod.split bool.split intro!: pw_intros pw_ops pw_endpoint [OF assms])


section \<open>Who gets in\<close>

definition by_token :: "'r request_scheme \<Rightarrow> 'z auth_world_scheme \<Rightarrow> bool" where
  "by_token r w \<longleftrightarrow> (\<exists>t. cut_prefix ''Bearer '' (header_get r ''Authorization'') = Some t \<and>
     au_token w \<noteq> [] \<and> trim_space t = au_token w)"

definition by_session :: "env \<Rightarrow> 'r request_scheme \<Rightarrow> 'z auth_world_scheme \<Rightarrow> bool" where
  "by_session E r w \<longleftrightarrow> header_get r ''Authorization'' = [] \<and>
     (\<exists>s info. map_of (rq_cookies r) sessionCookie = Some s \<and> au_sessions w s = Some info \<and>
       si_file info = au_files w (pw_path w) \<and> env_clock E (trace w) \<le> si_expires info \<and>
       (safe_method (rq_method r) \<or> csrf_ok r))"

definition switched_off :: "api_lib \<Rightarrow> 'r request_scheme \<Rightarrow> 'z auth_world_scheme \<Rightarrow> bool" where
  "switched_off L r w \<longleftrightarrow> au_files w (pw_path w) = None \<and> au_files w (disabled_path w) \<noteq> None \<and> \<not> crossSiteBlocked L r"

text \<open>What a refused request may still change: an expired marker and a dead session are removed.\<close>

definition untouched :: "'z auth_world_scheme \<Rightarrow> 'z auth_world_scheme \<Rightarrow> bool" where
  "untouched w v \<longleftrightarrow> (\<exists>es fs ss. v = w\<lparr>trace := trace w @ es, au_files := fs, au_sessions := ss\<rparr> \<and>
     (\<forall>p. p \<noteq> disabled_path w \<longrightarrow> fs p = au_files w p) \<and> ss \<subseteq>\<^sub>m au_sessions w)"

lemma untouched_both:
  assumes "untouched w u" and "untouched u v"
  shows "untouched w v"
proof -
  obtain es fs ss where u: "u = w\<lparr>trace := trace w @ es, au_files := fs, au_sessions := ss\<rparr>"
    "\<forall>p. p \<noteq> disabled_path w \<longrightarrow> fs p = au_files w p" "ss \<subseteq>\<^sub>m au_sessions w"
    using assms(1) unfolding untouched_def by blast
  obtain es' fs' ss' where v: "v = u\<lparr>trace := trace u @ es', au_files := fs', au_sessions := ss'\<rparr>"
    "\<forall>p. p \<noteq> disabled_path u \<longrightarrow> fs' p = au_files u p" "ss' \<subseteq>\<^sub>m au_sessions u"
    using assms(2) unfolding untouched_def by blast
  have "v = w\<lparr>trace := trace w @ es @ es', au_files := fs', au_sessions := ss'\<rparr>"
    "\<forall>p. p \<noteq> disabled_path w \<longrightarrow> fs' p = au_files w p" "ss' \<subseteq>\<^sub>m au_sessions w"
    using u v map_le_trans by auto
  then show ?thesis unfolding untouched_def by blast
qed

interpretation still: step_frame untouched
proof unfold_locales
  fix w :: "'a auth_world_scheme"
  have "w = w\<lparr>trace := trace w @ [], au_files := au_files w, au_sessions := au_sessions w\<rparr>" by simp
  then show "untouched w w" unfolding untouched_def using map_le_refl by blast
qed (rule untouched_both)

lemma still_only:
  assumes "only_effects m"
  shows "still.within m"
  unfolding still.within_def
proof
  fix w
  obtain es where "snd (run_state m w) = w\<lparr>trace := trace w @ es, au_files := au_files w, au_sessions := au_sessions w\<rparr>"
    using assms unfolding only_effects_def by fastforce
  then show "untouched w (snd (run_state m w))"
    unfolding untouched_def using map_le_refl by blast
qed

lemma still_getw: "(\<And>w. untouched w (snd (run_state (f w) w))) \<Longrightarrow> still.within (getw \<bind> f)"
  by (simp add: still.within_def)

lemma still_drop: "still.within (dropSession s)"
  unfolding still.within_def
proof
  fix w :: "'a auth_world_scheme"
  have "snd (run_state (dropSession s) w) = w\<lparr>trace := trace w @ [], au_files := au_files w, au_sessions := (au_sessions w)(s := None)\<rparr>"
    "(au_sessions w)(s := None) \<subseteq>\<^sub>m au_sessions w"
    by (simp_all add: dropSession_def map_le_def)
  then show "untouched w (snd (run_state (dropSession s) w))" unfolding untouched_def by blast
qed

lemma still_marker: "untouched w (snd (run_state (au_remove E (disabled_path w)) w))"
proof -
  have "\<exists>fs. snd (run_state (au_remove E (disabled_path w)) w) =
      w\<lparr>trace := trace w @ [FsOp ''remove'' [disabled_path w]], au_files := fs, au_sessions := au_sessions w\<rparr> \<and>
      (\<forall>p. p \<noteq> disabled_path w \<longrightarrow> fs p = au_files w p)"
    by (cases "env_fs E (trace w) ''remove'' [disabled_path w]") (auto simp: au_remove_def intro: exI [of _ "au_files w"])
  then show ?thesis unfolding untouched_def using map_le_refl by blast
qed

lemmas still_intros = still.guard_intros still_drop auth_only [THEN still_only] only_basic [THEN still_only]

lemma still_stat: "untouched w (snd (run_state (au_stat E p) w))"
  using still_only [OF auth_only(2)] unfolding still.within_def by blast

lemma snd_bind_ret: "snd (run_state (m \<bind> (\<lambda>x. ret (g x))) w) = snd (run_state m w)"
  by (simp split: prod.split)

lemma still_ops: "still.within (authDisabled E)" "still.within (verifyRequest E r)" "still.within (authorized E D r)"
proof -
  have "still.within (do { w \<leftarrow> getw; (if has then do { _ \<leftarrow> au_remove E (disabled_path w); ret False }
      else do { f \<leftarrow> au_stat E (disabled_path w); ret (f \<noteq> None) }) })" for has
  proof (intro still_getw)
    fix w :: "'z auth_world_scheme"
    show "untouched w (snd (run_state (if has then do { _ \<leftarrow> au_remove E (disabled_path w); ret False }
      else do { f \<leftarrow> au_stat E (disabled_path w); ret (f \<noteq> None) }) w))"
      by (cases has) (simp_all only: snd_bind_ret if_True if_False still_marker still_stat)
  qed
  then show "still.within (authDisabled E)"
    unfolding authDisabled_def by (rule still.within_bind [OF still_only [OF auth_only(5)]])
  show v: "still.within (verifyRequest E r)"
    unfolding verifyRequest_def by (intro still_intros)
  show "still.within (authorized E D r)"
    unfolding authorized_def Let_def by (intro still_intros v)
qed

lemma disabled_true:
  assumes "run_state (authDisabled E) w = (True, v)" and "\<And>h. env_flag E h (pw_path w)"
  shows "au_files w (pw_path w) = None \<and> au_files w (disabled_path w) \<noteq> None"
  using assms by (auto simp: authDisabled_def hasPassword_def au_stat_def split: if_splits prod.splits)

lemma authorized_true:
  assumes "run_state (authorized E D r) w = (True, v)" and "sess_inv E w" and "\<And>h. env_flag E h (pw_path w)"
  shows "by_token r w \<or> (dp_sessions D \<and> by_session E r w)"
proof (cases "header_get r ''Authorization'' = []")
  case True
  with assms(1) have "run_state (verifyRequest E r) w = (True, v)" "dp_sessions D" by (auto simp: authorized_def split: if_splits)
  then obtain s info where s: "map_of (rq_cookies r) sessionCookie = Some s" "au_sessions w s = Some info"
    "env_clock E (trace w) \<le> si_expires info" "si_pwVersion info = version_of (au_files w (pw_path w))"
    "safe_method (rq_method r) \<or> csrf_ok r"
    using assms(3) by (auto elim!: verifyRequest_true)
  with assms(2) have "si_file info = au_files w (pw_path w)" by (intro same_file) auto
  with s True \<open>dp_sessions D\<close> show ?thesis by (auto simp: by_session_def)
next
  case False
  with assms(1) show ?thesis
    by (auto simp: authorized_def tok_verify_def by_token_def split: if_splits option.splits)
qed

lemma match_literal: "match_path (map Lit ls) segs = Some x \<Longrightarrow> segs = ls"
proof (induction ls arbitrary: segs x)
  case (Cons l ls)
  then show ?case by (cases segs) (auto split: if_splits)
next
  case Nil
  then show ?case by (cases segs) auto
qed

lemma find_route_some:
  "find_route rs m segs = Some (g, ep) \<Longrightarrow> \<exists>r \<in> set rs. \<exists>x. fst (snd (snd r)) = g \<and> match_path (fst (snd r)) segs = Some x \<and>
     method_ok (fst r) m \<and> snd (snd (snd r)) x = ep"
proof (induction rs m segs rule: find_route.induct)
  case (2 m' p guard f rs m segs)
  show ?case
  proof (cases "match_path p segs")
    case None
    with "2.prems" have "find_route rs m segs = Some (g, ep)" by simp
    with "2.IH"(1) [OF None] show ?thesis by (simp only: list.set bex_simps) blast
  next
    case (Some x)
    show ?thesis
    proof (cases "method_ok m' m")
      case True
      with "2.prems" Some show ?thesis by (simp only: list.set bex_simps) simp
    next
      case False
      with "2.prems" Some have "find_route rs m segs = Some (g, ep)" by simp
      with "2.IH"(2) [OF Some False] show ?thesis by (simp only: list.set bex_simps) blast
    qed
  qed
qed simp

definition public_paths :: "string list list" where
  "public_paths = [[''healthz''], [''v1'', ''auth'', ''status''], [''v1'', ''auth'', ''setup''], [''v1'', ''auth'', ''skip''],
     [''v1'', ''auth'', ''login'']]"

lemma public_routes: "\<forall>r \<in> set (server_routes D). fst (snd (snd r)) \<or> (\<exists>ls \<in> set public_paths. fst (snd r) = map Lit ls)"
proof -
  have "list_all (\<lambda>r. fst (snd (snd r)) \<or> (\<exists>ls \<in> set public_paths. fst (snd r) = map Lit ls)) (api_routes @ auth_routes)"
    by (simp add: api_routes_def auth_routes_def public_paths_def)
  then show ?thesis by (auto simp: server_routes_def list_all_iff split: if_splits)
qed

lemma v1_guarded:
  assumes "find_route (server_routes D) m (''v1'' # rest) = Some (g, ep)"
    and "rest \<notin> {[''auth'', ''status''], [''auth'', ''setup''], [''auth'', ''skip''], [''auth'', ''login'']}"
  shows g
proof (rule ccontr)
  assume "\<not> g"
  with find_route_some [OF assms(1)] public_routes obtain ls x where
    "ls \<in> set public_paths" "match_path (map Lit ls) (''v1'' # rest) = Some x" by metis
  with match_literal have "''v1'' # rest \<in> set public_paths" by metis
  with assms(2) show False by (simp add: public_paths_def)
qed

lemma serve_unrouted:
  assumes "find_route (server_routes D) (rq_method r) (rq_path r) = None"
  shows "snd (run_state (serve E L D r) w) = w"
    and "rs_status (fst (run_state (serve E L D r) w)) \<in> {404, 405} \<or> (\<exists>p. rs_body (fst (run_state (serve E L D r) w)) = PStatic p)"
  unfolding serve_def assms by (simp_all add: run_endpoint_def spaHandler_def Let_def)

lemma untouched_rights:
  assumes "untouched w x" and "file_clock E"
  shows "by_token r x \<Longrightarrow> by_token r w" and "by_session E r x \<Longrightarrow> by_session E r w"
proof -
  obtain es fs ss where x: "x = w\<lparr>trace := trace w @ es, au_files := fs, au_sessions := ss\<rparr>"
    "\<forall>p. p \<noteq> disabled_path w \<longrightarrow> fs p = au_files w p" "ss \<subseteq>\<^sub>m au_sessions w"
    using assms(1) unfolding untouched_def by blast
  have "env_clock E (trace w) \<le> env_clock E (trace w @ es)" using assms(2) by (simp add: file_clock_def)
  moreover have "fs (pw_path w) = au_files w (pw_path w)" using x(2) by simp
  moreover have "ss s = Some i \<Longrightarrow> au_sessions w s = Some i" for s i using x(3) by (auto simp: map_le_def dom_def)
  ultimately show "by_session E r x \<Longrightarrow> by_session E r w" by (fastforce simp: by_session_def x(1))
  show "by_token r x \<Longrightarrow> by_token r w" by (simp add: by_token_def x(1))
qed

lemma guard_refuses:
  assumes "run_state (requireAuth E L D r handler) w = (resp, v)" and "sess_inv E w" and "\<And>h. env_flag E h (pw_path w)"
    and "file_clock E" and "\<not> by_token r w" and "\<not> by_session E r w" and "\<not> switched_off L r w"
  shows "untouched w v \<and> rs_status resp \<in> {401, 403}"
proof -
  obtain off x where x: "run_state (if dp_sessions D then authDisabled E else ret False) w = (off, x)" by fastforce
  have "untouched w (snd (run_state (if dp_sessions D then authDisabled E else ret False) w))"
    by (simp add: still_ops(1) [unfolded still.within_def, rule_format] still.same)
  with x have wx: "untouched w x" by simp
  show ?thesis
  proof (cases off)
    case True
    with x assms(3) have "au_files w (pw_path w) = None" "au_files w (disabled_path w) \<noteq> None"
      using disabled_true [of E w x] by (auto split: if_splits)
    with assms(7) have "crossSiteBlocked L r" by (simp add: switched_off_def)
    with assms(1) x True wx show ?thesis by (auto simp: requireAuth_def error_reply_def json_reply_def)
  next
    case False
    obtain ok y where y: "run_state (authorized E D r) x = (ok, y)" by fastforce
    have "\<not> ok"
    proof
      assume ok
      have "sess_inv E x"
        proof -
        have "sess_inv E (snd (run_state (if dp_sessions D then authDisabled E else ret False) w))"
          using assms(2) by (simp add: bound_ops(5) [OF assms(4), unfolded bound_def, rule_format])
        with x show ?thesis by simp
      qed
      then have "by_token r x \<or> dp_sessions D \<and> by_session E r x"
        using y \<open>ok\<close> assms(3) wx by (intro authorized_true) (auto simp: untouched_def)
      with untouched_rights [OF wx assms(4)] assms(5,6) show False by blast
    qed
    with assms(1) x y False have "v = y" "resp = error_reply 401 ''unauthorized''" by (auto simp: requireAuth_def)
    moreover have "untouched x y" using y still_ops(3) [of E D r] unfolding still.within_def by (metis snd_conv)
    ultimately show ?thesis using still.both [OF wx] by (simp add: error_reply_def json_reply_def)
  qed
qed

text \<open>Serving a request is one or more of the steps that \<open>auth_reach\<close> counts, so the states between requests are
  among those it reaches, and so are those in which requests overlap.\<close>

definition reach_kept :: "env \<Rightarrow> kdf \<Rightarrow> 'z auth_world_scheme \<Rightarrow> 'z auth_world_scheme \<Rightarrow> bool" where
  "reach_kept E argon w v \<longleftrightarrow> (auth_reach E argon w \<longrightarrow> auth_reach E argon v)"

interpretation rea: step_frame "reach_kept E argon" for E argon
  by unfold_locales (auto simp: reach_kept_def)

lemma reach_only: "only_effects m \<Longrightarrow> rea.within E argon m"
  unfolding rea.within_def reach_kept_def only_effects_def
proof (intro allI impI)
  fix w :: "'a auth_world_scheme"
  assume "\<forall>w. \<exists>es. snd (run_state m w) = w\<lparr>trace := trace w @ es\<rparr>" and w: "auth_reach E argon w"
  then obtain es where v: "snd (run_state m w) = w\<lparr>trace := trace w @ es\<rparr>" by blast
  show "auth_reach E argon (snd (run_state m w))"
    unfolding v by (rule auth_reach.step [OF w], rule auth_step.elsewhere [of _ _ es]) simp_all
qed

lemma verify_truncate: "verifyRequest E (request.truncate r) = verifyRequest E r"
proof -
  have r: "rq_cookies (request.truncate r) = rq_cookies r" "rq_method (request.truncate r) = rq_method r"
    "rq_headers (request.truncate r) = rq_headers r"
    by (simp_all add: request.truncate_def)
  then have "csrf_ok (request.truncate r) = csrf_ok r" by (simp only: csrf_ok_def header_get_def)
  with r show ?thesis by (simp only: verifyRequest_def)
qed

lemma reach_step: "(\<And>w. auth_step E argon w (snd (run_state m w))) \<Longrightarrow> rea.within E argon m"
  unfolding rea.within_def reach_kept_def by (blast intro: auth_reach.step)

lemma reach_ops:
  "rea.within E argon (tok_rotate E)" "rea.within E argon (authDisabled E)" "rea.within E argon (auth_skip E)"
  "rea.within E argon (setPassword E argon pw)" "rea.within E argon (verifyPassword E argon pw)" "rea.within E argon (createSession E)"
  "rea.within E argon (dropSession s)" "rea.within E argon dropAllSessions" "rea.within E argon (auth_disable E argon pw)"
  by (rule reach_step, rule auth_step.intros)+

lemma reach_verify: "rea.within E argon (verifyRequest E r)"
  using reach_step [of E argon "verifyRequest E r", OF auth_step.requested [of E argon _ "request.truncate r", unfolded verify_truncate]] .

lemma reach_beside:
  assumes "\<And>w. (\<exists>es. trace (snd (run_state m w)) = trace w @ es) \<and> au_files (snd (run_state m w)) = au_files w \<and>
    au_sessions (snd (run_state m w)) = au_sessions w \<and> au_dir (snd (run_state m w)) = au_dir w"
  shows "rea.within E argon m"
proof (rule reach_step)
  fix w
  obtain es where "trace (snd (run_state m w)) = trace w @ es" using assms by blast
  then show "auth_step E argon w (snd (run_state m w))" using assms by (intro auth_step.elsewhere) auto
qed

lemma trace_cfg_update [simp]: "world.trace (w\<lparr>ap_cfg := c\<rparr>) = world.trace w"
  by (cases w) (simp add: api_world.defs ops_world.defs auth_world.defs world.defs)

lemma reach_cfg: "rea.within E argon (in_cfg (apply_merge_patch E' u patch))"
proof (rule reach_beside)
  fix w :: "'a api_world_scheme"
  obtain r c where c: "run_state (apply_merge_patch E' u patch) ((ap_cfg w)\<lparr>world.trace := world.trace w\<rparr>) = (r, c)" by fastforce
  obtain es where "world.trace c = world.trace w @ es"
    using patch_eff.extends [of E' u patch "(ap_cfg w)\<lparr>world.trace := world.trace w\<rparr>"] c by auto
  with c show "(\<exists>es. trace (snd (run_state (in_cfg (apply_merge_patch E' u patch)) w)) = trace w @ es) \<and>
      au_files (snd (run_state (in_cfg (apply_merge_patch E' u patch)) w)) = au_files w \<and>
      au_sessions (snd (run_state (in_cfg (apply_merge_patch E' u patch)) w)) = au_sessions w \<and>
      au_dir (snd (run_state (in_cfg (apply_merge_patch E' u patch)) w)) = au_dir w"
    by (intro conjI exI [of _ es]) (simp_all add: in_cfg_def)
qed

lemma reach_api_modify:
  "rea.within E argon (modify (\<lambda>w. w\<lparr>ap_calls := c w\<rparr>))" "rea.within E argon (modify (\<lambda>w. w\<lparr>ap_logs := l w\<rparr>))"
  by (rule reach_beside, simp)+

lemma reach_start: "rea.within E argon (op_start E action resource)"
proof (rule reach_beside)
  fix w :: "'a ops_world_scheme"
  show "(\<exists>es. trace (snd (run_state (op_start E action resource) w)) = trace w @ es) \<and>
      au_files (snd (run_state (op_start E action resource) w)) = au_files w \<and>
      au_sessions (snd (run_state (op_start E action resource) w)) = au_sessions w \<and>
      au_dir (snd (run_state (op_start E action resource) w)) = au_dir w"
    by (cases rule: start_cases [of w resource E action]) auto
qed

lemmas reach_intros = rea.guard_intros reach_ops reach_verify reach_cfg reach_api_modify reach_start
  auth_only [THEN reach_only] only_basic [THEN reach_only]

lemma reach_handlers:
  "rea.within E (al_argon L) handleState" "rea.within E (al_argon L) handleConfigGet" "rea.within E (al_argon L) (handleConfigPatch E L r)"
  "rea.within E (al_argon L) (handleOperation i)" "rea.within E (al_argon L) (handleLogs L r)" "rea.within E (al_argon L) (handleLogsStream L r)"
  "rea.within E (al_argon L) handleTokenGet" "rea.within E (al_argon L) (handleTokenRotate E)"
  "rea.within E (al_argon L) (handleDiagnosticsArchive E L D)" "rea.within E (al_argon L) (handleAuthStatus E D r)"
  "rea.within E (al_argon L) (handleAuthSetup E L r)" "rea.within E (al_argon L) (handleAuthSkip E)"
  "rea.within E (al_argon L) (handleAuthDisable E L r)" "rea.within E (al_argon L) (handleAuthLogin E L r)"
  "rea.within E (al_argon L) (handleAuthLogout r)" "rea.within E (al_argon L) handleAuthLogoutAll"
  "rea.within E (al_argon L) (handleAuthPassword E L r)"
  unfolding handleState_def handleConfigGet_def handleConfigPatch_def handleOperation_def handleLogs_def handleLogsStream_def
    handleTokenGet_def handleTokenRotate_def handleDiagnosticsArchive_def handleAuthStatus_def handleAuthSetup_def handleAuthSkip_def
    handleAuthDisable_def handleAuthLogin_def handleAuthLogout_def handleAuthLogoutAll_def handleAuthPassword_def
    authorized_def logged_in_def Let_def
  by ((intro reach_intros | auto split: bool.split intro: reach_intros)+)

lemma reach_action: "rea.within E (al_argon L) (handleAction E L D r name)"
  unfolding handleAction_def add_secret_def
  by (intro reach_intros) (auto split: go_error.split intro: reach_intros)

lemma serve_reach: "rea.within E (al_argon L) (serve E L D r)"
proof -
  have "rea.within E (al_argon L) (run_endpoint E L D r ep)" for ep
    using reach_handlers reach_action rea.within_basic by (cases ep) (simp_all add: run_endpoint_def)
  then show ?thesis
    unfolding serve_def requireAuth_def authorized_def Let_def
    by (auto split: option.split prod.split bool.split intro!: reach_intros)
qed


section \<open>A run of the server\<close>

definition demo_lib :: api_lib where
  "demo_lib = \<lparr>al_unmarshal = (\<lambda>s. Some (JObj [(''password'', JStr ''correct horse'')])), al_url_host = (\<lambda>s. None),
     al_rfc3339 = (\<lambda>s. None), al_stamp = (\<lambda>t. []), al_file_stamp = (\<lambda>t. []), al_state_text = (\<lambda>s. None),
     al_entry_text = (\<lambda>e. []), al_locations = Inr JNull, al_static = (\<lambda>p. False), al_events = [], al_log_events = [],
     al_argon = demo_kdf\<rparr>"

definition demo_deps :: deps where
  "demo_deps = \<lparr>dp_sessions = True, dp_actions = True, dp_web = True, dp_version = \<lparr>vi_agent = ''1'', vi_image = ''1'',
     vi_expressvpn = ''1'', vi_uplink = ''1'', vi_protocols = []\<rparr>\<rparr>"

definition demo_api :: "(string \<Rightarrow> auth_file option) \<Rightarrow> api_world" where
  "demo_api files = \<lparr>world.trace = [], au_dir = ''/data/auth'', au_files = files, au_token = ''dtr_token'', au_sessions = (\<lambda>_. None),
     au_failures = 0, au_blockedTo = None, om_heap = [], om_ops = (\<lambda>_. None), om_byResource = (\<lambda>_. None), om_live = [],
     ap_cfg = \<lparr>world.trace = [], cw_path = ''/data/config.json'', cw_dir = ''/data'', cw_cur = default_config, cw_hook = False, cw_notified = []\<rparr>,
     ap_state = initial_state ''1'' 0, ap_logs = new_buffer 10 [], ap_calls = []\<rparr>"

definition demo_setup :: api_request where
  "demo_setup = \<lparr>rq_method = ''POST'', rq_host = ''localhost'', rq_headers = [], rq_cookies = [],
     rq_path = [''v1'', ''auth'', ''setup''], rq_query = [], rq_body = Inr ''{...}'', rq_flusher = True\<rparr>"

lemma demo_body: "readJSONBody demo_lib [''password''] demo_setup = Inr ((\<lambda>_. [])(''password'' := ''correct horse''))"
  by (simp add: readJSONBody_def read_body_def demo_setup_def parse_body_def demo_lib_def decode_defs body_field_def)



section \<open>Secrets of the configuration\<close>

text \<open>A program that does not look at the configuration.\<close>

definition blind :: "('z api_world_scheme, 'a) state \<Rightarrow> bool" where
  "blind m \<longleftrightarrow> (\<forall>w c. run_state m (w\<lparr>ap_cfg := c\<rparr>) =
     (fst (run_state m w), (snd (run_state m w))\<lparr>ap_cfg := c\<rparr>))"

named_theorems blind_intros \<open>programs that do not look at the configuration\<close>

lemma blind_ret [blind_intros]: "blind (ret x)"
  by (simp add: blind_def)

lemma blind_bind [blind_intros]: "blind m \<Longrightarrow> (\<And>x. blind (f x)) \<Longrightarrow> blind (m \<bind> f)"
  by (simp add: blind_def split: prod.split)

lemma blind_getw [blind_intros]: "(\<And>w c. f (w\<lparr>ap_cfg := c\<rparr>) = f w) \<Longrightarrow> (\<And>w. blind (f w)) \<Longrightarrow> blind (getw \<bind> f)"
  by (simp add: blind_def)

lemma blind_cases [blind_intros]:
  "blind a \<Longrightarrow> blind b \<Longrightarrow> blind (if c then a else b)"
  "blind a \<Longrightarrow> (\<And>x. blind (f x)) \<Longrightarrow> blind (case_option a f r)"
  "(\<And>x. blind (g x)) \<Longrightarrow> (\<And>x. blind (h x)) \<Longrightarrow> blind (case_sum g h s)"
  "(\<And>x y. blind (k x y)) \<Longrightarrow> blind (case_prod k p)"
  by (auto split: option.split sum.split prod.split)

lemma blind_attempt [blind_intros]: "blind m \<Longrightarrow> (\<And>x. blind (f x)) \<Longrightarrow> blind (attempt m f)"
  unfolding attempt_def by (intro blind_intros)

lemma blind_then_go [blind_intros]: "blind m \<Longrightarrow> blind k \<Longrightarrow> blind (then_go m k)"
  unfolding then_go_def by (intro blind_intros)

lemma trace_cfg_commute: "w\<lparr>ap_cfg := c, world.trace := t\<rparr> = w\<lparr>world.trace := t, ap_cfg := c\<rparr>"
  by (cases w) (simp add: api_world.defs ops_world.defs auth_world.defs world.defs)

lemma blind_modify:
  "(\<And>w c. g (w\<lparr>ap_cfg := c\<rparr>) = (g w)\<lparr>ap_cfg := c\<rparr>) \<Longrightarrow> blind (modify g)"
  by (simp add: blind_def)

lemma blind_emit [blind_intros]: "blind (emit e)"
  unfolding emit_def by (rule blind_modify) (simp add: trace_cfg_commute)

lemma blind_effects [blind_intros]:
  "blind (do_clock E)" "blind (do_flag E p)" "blind (do_read E p)" "blind (do_write E p t)" "blind (do_fs E n as)"
  unfolding do_clock_def do_flag_def do_read_def do_write_def do_fs_def by (intro blind_getw blind_intros; simp cong: if_cong option.case_cong)+

lemma blind_fields [blind_intros]:
  "blind (modify (\<lambda>w. w\<lparr>au_token := t\<rparr>))" "blind (modify (\<lambda>w. w\<lparr>au_failures := 0\<rparr>))"
  "blind (modify (\<lambda>w. w\<lparr>au_failures := Suc (au_failures w)\<rparr>))"
  "blind (modify (\<lambda>w. w\<lparr>au_blockedTo := b, au_failures := n\<rparr>))"
  "blind (dropSession s)" "blind dropAllSessions" "blind (au_put E p t)" "blind (modify (\<lambda>w. w\<lparr>au_files := (au_files w)(p := None)\<rparr>))"
  "blind (modify (\<lambda>w. w\<lparr>au_sessions := (au_sessions w)(s \<mapsto> i)\<rparr>))"
  "blind (modify (\<lambda>w. w\<lparr>ap_calls := ap_calls w @ l\<rparr>))" "blind (modify (\<lambda>w. w\<lparr>ap_logs := b'\<rparr>))"
  "blind (modify (\<lambda>w. w\<lparr>ap_logs := log_cancel ch (ap_logs w)\<rparr>))" "blind (add_secret s)"
  unfolding dropSession_def dropAllSessions_def au_put_def add_secret_def
  by (rule blind_modify, simp add: trace_cfg_commute)+

lemma blind_files [blind_intros]:
  "blind (au_write E p t)" "blind (au_read E p)" "blind (au_stat E p)" "blind (au_remove E p)" "blind (au_mkdir E p)"
  "blind (rand_bytes E n)"
  unfolding au_write_def au_read_def au_stat_def au_remove_def au_mkdir_def rand_bytes_def by (intro blind_getw blind_intros; simp cong: if_cong option.case_cong)+

lemma blind_auth [blind_intros]:
  "blind (tok_generate E)" "blind tok_current" "blind (tok_verify p)" "blind (hasPassword E)" "blind (pwVersion E)"
  "blind (setPassword E argon pw)" "blind (verify_begin E)" "blind (verify_compare E argon pw)" "blind (verify_end E ok)"
  "blind (createSession E)" "blind (newOpID E)"
  unfolding tok_generate_def tok_current_def tok_verify_def hasPassword_def pwVersion_def setPassword_def verify_begin_def
    verify_compare_def verify_end_def createSession_def newOpID_def Let_def
  by (intro blind_getw blind_intros; simp cong: if_cong option.case_cong)+

lemma blind_auth_ops [blind_intros]:
  "blind (tok_rotate E)" "blind (authDisabled E)" "blind (auth_skip E)" "blind (verifyPassword E argon pw)"
  unfolding tok_rotate_def authDisabled_def auth_skip_def verifyPassword_def
  by (intro blind_getw blind_intros; simp cong: if_cong option.case_cong)+

lemma blind_verify [blind_intros]: "blind (verifyRequest E r)" "blind (auth_disable E argon pw)" "blind (logged_in E)"
  unfolding verifyRequest_def auth_disable_def logged_in_def by (intro blind_getw blind_intros; simp cong: if_cong option.case_cong)+

lemma blind_start [blind_intros]: "blind (op_start E action resource)"
  unfolding op_start_def by (intro blind_getw blind_intros blind_modify; simp cong: if_cong option.case_cong)

lemma blind_authorized [blind_intros]: "blind (authorized E D r)"
  unfolding authorized_def Let_def by (intro blind_intros)

lemma blind_handlers:
  "blind handleState" "blind (handleOperation i)" "blind (handleLogs L r)" "blind (handleLogsStream L r)"
  "blind handleTokenGet" "blind (handleTokenRotate E)" "blind (handleAuthStatus E D r)"
  "blind (handleAuthSetup E L r)" "blind (handleAuthSkip E)" "blind (handleAuthDisable E L r)" "blind (handleAuthLogin E L r)"
  "blind (handleAuthLogout r)" "blind handleAuthLogoutAll" "blind (handleAuthPassword E L r)"
  unfolding handleState_def handleOperation_def handleLogs_def handleLogsStream_def
    handleTokenGet_def handleTokenRotate_def handleAuthStatus_def handleAuthSetup_def handleAuthSkip_def
    handleAuthDisable_def handleAuthLogin_def handleAuthLogout_def handleAuthLogoutAll_def handleAuthPassword_def Let_def
  by ((intro blind_getw blind_intros | auto simp: op_get_def cong: if_cong option.case_cong split: bool.split intro: blind_intros)+)

lemma blind_action: "blind (handleAction E L D r name)"
  unfolding handleAction_def
  by (intro blind_getw blind_intros) (auto split: go_error.split intro!: blind_getw blind_intros)

text \<open>A program whose answer is the same for configurations that \<open>Redacted\<close> does not tell apart.\<close>

definition masked :: "('z api_world_scheme, 'a) state \<Rightarrow> bool" where
  "masked m \<longleftrightarrow> (\<forall>w c. redacted c = redacted (cw_cur (ap_cfg w)) \<longrightarrow>
     fst (run_state m (w\<lparr>ap_cfg := (ap_cfg w)\<lparr>cw_cur := c\<rparr>\<rparr>)) = fst (run_state m w))"

lemma blind_keeps: "blind m \<Longrightarrow> ap_cfg (snd (run_state m w)) = ap_cfg w"
proof -
  assume "blind m"
  then have "ap_cfg (snd (run_state m (w\<lparr>ap_cfg := ap_cfg w\<rparr>))) = ap_cfg w" by (simp only: blind_def snd_conv) simp
  then show ?thesis by simp
qed

lemma maskedD: "masked m \<Longrightarrow> redacted c = redacted (cw_cur (ap_cfg w)) \<Longrightarrow>
    fst (run_state m (w\<lparr>ap_cfg := (ap_cfg w)\<lparr>cw_cur := c\<rparr>\<rparr>)) = fst (run_state m w)"
  unfolding masked_def by blast

lemma masked_bind:
  assumes "blind m" and "\<And>x. masked (f x)"
  shows "masked (m \<bind> f)"
  unfolding masked_def
proof (intro allI impI)
  fix w :: "'a api_world_scheme" and c
  assume c: "redacted c = redacted (cw_cur (ap_cfg w))"
  obtain x v where v: "run_state m w = (x, v)" by fastforce
  with assms(1) have "run_state m (w\<lparr>ap_cfg := (ap_cfg w)\<lparr>cw_cur := c\<rparr>\<rparr>) = (x, v\<lparr>ap_cfg := (ap_cfg w)\<lparr>cw_cur := c\<rparr>\<rparr>)"
    by (simp add: blind_def)
  moreover have "ap_cfg v = ap_cfg w" using blind_keeps [OF assms(1), of w] v by simp
  ultimately show "fst (run_state (m \<bind> f) (w\<lparr>ap_cfg := (ap_cfg w)\<lparr>cw_cur := c\<rparr>\<rparr>)) = fst (run_state (m \<bind> f) w)"
    using maskedD [OF assms(2) [of x], of c v] c v by simp
qed

lemma masked_blind: "blind m \<Longrightarrow> masked m"
  by (simp add: blind_def masked_def)

lemma masked_config: "masked handleConfigGet" "masked (handleDiagnosticsArchive E L D)"
  unfolding handleDiagnosticsArchive_def
  by (simp add: masked_def handleConfigGet_def, rule masked_bind, rule blind_intros, simp add: masked_def)

lemma masked_endpoint: "ep \<noteq> ConfigPatch \<Longrightarrow> masked (run_endpoint E L D r ep)"
  using masked_config blind_handlers [THEN masked_blind] blind_action [THEN masked_blind] blind_ret [THEN masked_blind]
  by (cases ep) (simp_all add: run_endpoint_def)

lemma patch_route:
  assumes "find_route (server_routes D) m segs = Some (g, ConfigPatch)"
  shows "m = ''PATCH''"
proof -
  have "list_all (\<lambda>r. fst r = ''PATCH'' \<or> (\<forall>x. snd (snd (snd r)) x \<noteq> ConfigPatch)) (api_routes @ auth_routes)"
    by (simp add: api_routes_def auth_routes_def)
  then have "\<forall>r \<in> set (server_routes D). fst r = ''PATCH'' \<or> (\<forall>x. snd (snd (snd r)) x \<noteq> ConfigPatch)"
    by (auto simp: server_routes_def list_all_iff split: if_splits)
  moreover obtain r x where "r \<in> set (server_routes D)" "method_ok (fst r) m" "snd (snd (snd r)) x = ConfigPatch"
    using find_route_some [OF assms] by blast
  ultimately have "fst r = ''PATCH''" "method_ok (fst r) m" by auto
  then show ?thesis by (simp add: method_ok_def)
qed

lemma masked_serve:
  assumes "rq_method r \<noteq> ''PATCH''"
  shows "masked (serve E L D r)"
proof (cases "find_route (server_routes D) (rq_method r) (rq_path r)")
  case None
  then show ?thesis by (simp add: serve_def run_endpoint_def masked_blind blind_ret)
next
  case (Some x)
  obtain g ep where x: "x = (g, ep)" by (cases x)
  with Some assms patch_route have ep: "masked (run_endpoint E L D r ep)"
    by (intro masked_endpoint) blast
  then have "masked (requireAuth E L D r (run_endpoint E L D r ep))"
    unfolding requireAuth_def
    by (intro masked_bind blind_intros) (auto intro!: masked_bind masked_blind [OF blind_ret] blind_authorized)
  with ep Some x show ?thesis by (cases g) (simp_all add: serve_def)
qed


definition demo_secret :: "string \<Rightarrow> config" where
  "demo_secret pw = default_config\<lparr>cf_uplink := (cf_uplink default_config)\<lparr>ul_socks5 :=
     (ul_socks5 (cf_uplink default_config))\<lparr>sk_password := pw\<rparr>\<rparr>\<rparr>"

definition demo_show :: api_request where
  "demo_show = demo_setup\<lparr>rq_method := ''GET'', rq_path := [''v1'', ''diagnostics'', ''archive''],
     rq_headers := [(''Authorization'', ''Bearer dtr_token'')]\<rparr>"


end
