(* ===== verification/Selfcheck.thy ===== *)
theory Selfcheck
  imports Socks5 State_Store Codec Config_Store
begin

text \<open>
  The action \<open>selfcheck\<close> (\<open>internal/selfcheck/selfcheck.go\<close>): wait for a settled state, ask for
  the public address over the agent's own proxy and over the uplink, check DNS, and give a verdict; and the
  small SOCKS5 client that both requests use. What other goroutines have made of the snapshot and the
  configuration, and what the web answers, is a function of the trace so far (\<open>check_io\<close>). The client
  runs on the connections of \<open>Socks5\<close>, so its bytes can be given to the server of the agent.
\<close>

section \<open>The SOCKS5 client\<close>

text \<open>\<open>net.SplitHostPort\<close>.\<close>

definition split_host_port :: "string \<Rightarrow> (string \<times> string) option" where
  "split_host_port s =
     (if CHR '':'' \<notin> set s then None
      else
        let port = rev (takeWhile (\<lambda>c. c \<noteq> CHR '':'') (rev s));
            before = take (length s - length port - 1) s
        in if hd s = CHR ''['' then
             (let inner = takeWhile (\<lambda>c. c \<noteq> CHR '']'') s in
              if before = inner @ '']'' \<and> CHR ''['' \<notin> set (tl s) \<and> CHR '']'' \<notin> set port
              then Some (tl inner, port) else None)
           else if CHR '':'' \<in> set before \<or> CHR ''['' \<in> set s \<or> CHR '']'' \<in> set s then None
           else Some (before, port))"

text \<open>\<open>fmt.Sscanf(portStr, "%d", &port)\<close> with its error ignored, for a port without a sign.\<close>

definition scan_port :: "string \<Rightarrow> nat" where
  "scan_port s = (case scan_uint 63 s of Some (n, _) \<Rightarrow> n | None \<Rightarrow> 0)"

definition dial_request :: "string \<Rightarrow> nat \<Rightarrow> byte list" where
  "dial_request host port =
     [0x05, 0x01, 0x00] @
     (case (case parse_ip host of None \<Rightarrow> None | Some ip \<Rightarrow> to4 ip) of
        Some ip4 \<Rightarrow> 0x01 # ip4
      | None \<Rightarrow> [0x03, of_nat (length host)] @ bytes_of host)
     @ put_be16 (port mod 65536)"

definition dial_auth :: "proxy_auth option \<Rightarrow> ('z socks_world_scheme, unit res) state" where
  "dial_auth auth = (case auth of
     None \<Rightarrow> ret (Inr ())
   | Some a \<Rightarrow>
       attempt (conn_write ([0x01, of_nat (length (pa_username a))] @ bytes_of (pa_username a) @
           [of_nat (length (pa_password a))] @ bytes_of (pa_password a))) (\<lambda>_.
       attempt (read_full 2) (\<lambda>st.
       if st ! 1 \<noteq> 0x00 then ret (Inl (PlainError ''proxy auth failed'')) else ret (Inr ()))))"

definition dial_bound :: "byte \<Rightarrow> ('z socks_world_scheme, byte list res) state" where
  "dial_bound atyp =
     (if atyp = 0x01 then read_full (4 + 2)
      else if atyp = 0x04 then read_full (16 + 2)
      else if atyp = 0x03 then attempt (read_full 1) (\<lambda>l. read_full (unat (l ! 0) + 2))
      else ret (Inr []))"

text \<open>From the established TCP connection on; an error closes it.\<close>

definition socksDialVia :: "proxy_auth option \<Rightarrow> string \<Rightarrow> ('z socks_world_scheme, unit res) state" where
  "socksDialVia auth target = (let method = (if auth \<noteq> None then 0x02 else 0x00) in
     attempt (conn_write [0x05, 0x01, method]) (\<lambda>_.
     attempt (read_full 2) (\<lambda>resp.
     if resp ! 1 \<noteq> method then ret (Inl (PlainError ''proxy rejected auth method''))
     else
     attempt (dial_auth auth) (\<lambda>_.
     (case split_host_port target of
        None \<Rightarrow> ret (Inl (PlainError (''address '' @ target)))
      | Some (host, portStr) \<Rightarrow>
          attempt (conn_write (dial_request host (scan_port portStr))) (\<lambda>_.
          attempt (read_full 4) (\<lambda>reply.
          if reply ! 1 \<noteq> 0x00 then ret (Inl (PlainError ''proxy CONNECT failed''))
          else attempt (dial_bound (reply ! 3)) (\<lambda>_. ret (Inr ())))))))))"

section \<open>What the check sees\<close>

datatype transport = ViaOwnProxy "proxy_auth option" | ViaUplinkProxy string int "proxy_auth option" | ViaEth0

record check_io =
  ce_see :: "event list \<Rightarrow> snapshot"
  ce_cfg :: "event list \<Rightarrow> config"
  ce_http :: "event list \<Rightarrow> transport \<Rightarrow> string \<Rightarrow> string + (nat \<times> (string + string))"
  ce_dns :: "event list \<Rightarrow> string \<Rightarrow> go_error option"
  ce_json :: "string \<Rightarrow> json option"
  ce_ns :: "(event list \<Rightarrow> string) option"
  ce_tunnel :: bool

record check_world = world +
  ck_results :: "selfcheck_st list"

definition see :: "check_io \<Rightarrow> ('z world_scheme, snapshot) state" where
  "see C = do { w \<leftarrow> getw; emit (Stat ''state''); ret (ce_see C (trace w)) }"

definition see_cfg :: "check_io \<Rightarrow> ('z world_scheme, config) state" where
  "see_cfg C = do { w \<leftarrow> getw; emit (Stat ''config''); ret (ce_cfg C (trace w)) }"

definition poll_done :: "env \<Rightarrow> ('z world_scheme, bool) state" where
  "poll_done E = do { w \<leftarrow> getw; emit PollDone; ret (env_done E (trace w)) }"

definition publish_check :: "selfcheck_st \<Rightarrow> ('z check_world_scheme, unit) state" where
  "publish_check r = modify (\<lambda>w. w\<lparr>ck_results := ck_results w @ [r]\<rparr>)"

section \<open>Waiting\<close>

definition settled :: "snapshot \<Rightarrow> bool" where
  "settled s \<longleftrightarrow> conn_of s = ConnConnected \<and> u_status (s_uplink s) = UplinkUp"

fun settle_loop :: "nat \<Rightarrow> env \<Rightarrow> check_io \<Rightarrow> int \<Rightarrow> nat \<Rightarrow> ('z world_scheme, bool option) state" where
  "settle_loop 0 E C deadline k = ret None"
| "settle_loop (Suc n) E C deadline k = do {
     s \<leftarrow> see C;
     let k = (if settled s then Suc k else 0);
     (if 3 \<le> k then ret (Some True)
      else do {
        now \<leftarrow> do_clock E;
        late \<leftarrow> (if deadline < now then ret True else poll_done E);
        (if late then ret (Some False)
         else do {
           over \<leftarrow> do_sleep E (seconds 1);
           (if over then ret (Some False) else settle_loop n E C deadline k)
         })
      })
   }"

definition waitSettled :: "nat \<Rightarrow> env \<Rightarrow> check_io \<Rightarrow> int \<Rightarrow> ('z world_scheme, bool option) state" where
  "waitSettled n E C timeout = do { t0 \<leftarrow> do_clock E; settle_loop n E C (t0 + timeout) 0 }"

section \<open>The public address\<close>

definition ipEndpoints :: "(string \<times> bool) list" where
  "ipEndpoints = [(''https://api.country.is'', True), (''https://ipinfo.io/json'', True),
     (''https://ifconfig.me/ip'', False), (''https://icanhazip.com'', False)]"

text \<open>The fields \<open>ip\<close> and \<open>country\<close> of an answer.\<close>

definition ip_field :: "string \<Rightarrow> json \<Rightarrow> string \<times> string \<Rightarrow> (string \<times> string) res" where
  "ip_field n v b = (if n = ''ip'' then map_res (\<lambda>s. (s, snd b)) (dec_string n v (fst b))
     else map_res (\<lambda>s. (fst b, s)) (dec_string n v (snd b)))"

definition read_answer :: "check_io \<Rightarrow> string \<Rightarrow> bool \<Rightarrow> string \<Rightarrow> (string \<times> string) res" where
  "read_answer C url is_json raw =
     (if is_json then
        (case ce_json C raw of
           None \<Rightarrow> Inl (PlainError (url @ '': unparsable body''))
         | Some v \<Rightarrow> (case dec_struct False [''ip'', ''country''] ip_field [] v ([], []) of
             Inr (ip, country) \<Rightarrow>
               if ip \<noteq> [] then Inr (ip, country) else Inl (PlainError (url @ '': unparsable body''))
           | Inl _ \<Rightarrow> Inl (PlainError (url @ '': unparsable body''))))
      else (if parse_ip (trim_space raw) \<noteq> None then Inr (trim_space raw, [])
            else Inl (PlainError (url @ '': not an IP''))))"

definition ask :: "check_io \<Rightarrow> transport \<Rightarrow> string \<times> bool \<Rightarrow> ('z world_scheme, (string \<times> string) res) state" where
  "ask C tr ep = do {
     w \<leftarrow> getw;
     emit (Dial (fst ep));
     ret (case ce_http C (trace w) tr (fst ep) of
         Inl m \<Rightarrow> Inl (PlainError m)
       | Inr (status, body) \<Rightarrow>
           (case body of
              Inr raw \<Rightarrow> if status \<noteq> 200 then Inl (PlainError (fst ep @ '': status '' @ nat_digits status))
                else read_answer C (fst ep) (snd ep) (take 4096 raw)
            | Inl m \<Rightarrow> Inl (PlainError (fst ep @ '': status '' @ nat_digits status))))
   }"

fun fetch_loop :: "env \<Rightarrow> check_io \<Rightarrow> transport \<Rightarrow> go_error option \<Rightarrow> (string \<times> bool) list \<Rightarrow>
    ('z world_scheme, (string \<times> string) res) state" where
  "fetch_loop E C tr lastErr [] = ret (Inl (case lastErr of Some e \<Rightarrow> e | None \<Rightarrow> PlainError ''no ip endpoints configured''))"
| "fetch_loop E C tr lastErr (ep # eps) = do {
     over \<leftarrow> poll_done E;
     (if over then ret (Inl ContextDone)
      else do {
        r \<leftarrow> ask C tr ep;
        (case r of Inl e \<Rightarrow> fetch_loop E C tr (Some e) eps | Inr x \<Rightarrow> ret (Inr x))
      })
   }"

definition fetchIP :: "env \<Rightarrow> check_io \<Rightarrow> transport \<Rightarrow> ('z world_scheme, (string \<times> string) res) state" where
  "fetchIP E C tr = fetch_loop E C tr None (ipEndpoints @ ipEndpoints)"

definition ipViaProxy :: "env \<Rightarrow> check_io \<Rightarrow> ('z world_scheme, (string \<times> string) res) state" where
  "ipViaProxy E C = do { c \<leftarrow> see_cfg C; fetchIP E C (ViaOwnProxy (pc_auth (cf_proxy c))) }"

definition uplink_auth :: "socks5_cfg \<Rightarrow> proxy_auth option" where
  "uplink_auth s = (if sk_username s \<noteq> [] then Some \<lparr>pa_username = sk_username s, pa_password = sk_password s\<rparr> else None)"

definition uplinkTransport :: "check_io \<Rightarrow> ('z world_scheme, transport) state" where
  "uplinkTransport C = do {
     c \<leftarrow> see_cfg C;
     let u = cf_uplink c;
     ret (if ul_mode u = ''socks5'' \<and> sk_host (ul_socks5 u) \<noteq> [] 
       then ViaUplinkProxy (sk_host (ul_socks5 u)) (sk_port (ul_socks5 u)) (uplink_auth (ul_socks5 u)) else ViaEth0)
   }"

section \<open>The check\<close>

definition failed_with :: "string list \<Rightarrow> go_error option" where
  "failed_with reasons = Some (PlainError (''selfcheck failed: '' @ join_with '', '' reasons))"

definition blank_result :: "int \<Rightarrow> selfcheck_st" where
  "blank_result now = \<lparr>sc_verdict = [], sc_reasons = [], sc_proxyIP = [], sc_proxyCountry = [], sc_uplinkIP = [],
     sc_dns = [], sc_at = now\<rparr>"

text \<open>The second try of the address over the proxy, once the state has settled again.\<close>

definition proxy_address :: "nat \<Rightarrow> env \<Rightarrow> check_io \<Rightarrow> ('z world_scheme, (string \<times> string) res option) state" where
  "proxy_address n E C = do {
     r \<leftarrow> ipViaProxy E C;
     (case r of
        Inr x \<Rightarrow> ret (Some (Inr x))
      | Inl e \<Rightarrow> do {
          again \<leftarrow> waitSettled n E C (seconds 45);
          (case again of
             None \<Rightarrow> ret None
           | Some True \<Rightarrow> do { r \<leftarrow> ipViaProxy E C; ret (Some r) }
           | Some False \<Rightarrow> ret (Some (Inl e)))
        })
   }"

definition uplink_address :: "env \<Rightarrow> check_io \<Rightarrow> ('z world_scheme, string option \<times> string list) state" where
  "uplink_address E C = do {
     c \<leftarrow> see_cfg C;
     (if ul_mode (cf_uplink c) = ''socks5'' then do {
        tr \<leftarrow> uplinkTransport C;
        r \<leftarrow> fetchIP E C tr;
        ret (case r of Inl e \<Rightarrow> (None, [''uplink_ip_unknown'']) | Inr (ip, country) \<Rightarrow> (Some ip, []))
      } else ret (None, []))
   }"

definition dns_check :: "check_io \<Rightarrow> bool \<Rightarrow> ('z world_scheme, string list \<times> string list) state" where
  "dns_check C proxy_ok =
     (if \<not> ce_tunnel C then ret ([], [])
      else do {
        w \<leftarrow> getw;
        emit (Stat ''dns'');
        ret (case ce_dns C (trace w) ''example.com'' of
            Some e \<Rightarrow> ([], if proxy_ok then [''dns_check_failed''] else [])
          | None \<Rightarrow> ((case ce_ns C of None \<Rightarrow> [] | Some ns \<Rightarrow> [ns (trace w @ [Stat ''dns''])]), []))
      })"

definition verdict :: "bool \<Rightarrow> selfcheck_st \<Rightarrow> string list \<Rightarrow> string \<times> string list" where
  "verdict proxy_ok res reasons =
     (if \<not> proxy_ok then (''fail'', reasons)
      else if sc_uplinkIP res \<noteq> [] \<and> sc_proxyIP res = sc_uplinkIP res then (''fail'', reasons @ [''same_ip''])
      else if reasons \<noteq> [] then (''warning'', reasons)
      else (''ok'', reasons))"

text \<open>From the measured address over the proxy on.\<close>

definition check_finish :: "env \<Rightarrow> check_io \<Rightarrow> selfcheck_st \<Rightarrow> (string \<times> string) res \<Rightarrow>
    ('z check_world_scheme, go_error option) state" where
  "check_finish E C res p = do {
     r1 \<leftarrow> (case p of
         Inl e \<Rightarrow> do {
           s \<leftarrow> see C;
           ret (if conn_of s \<noteq> ConnConnected then [''tunnel_down''] else [''proxy_check_failed''])
         }
       | Inr _ \<Rightarrow> ret []);
     (up, r2) \<leftarrow> uplink_address E C;
     (dns, r3) \<leftarrow> dns_check C (case p of Inl _ \<Rightarrow> False | Inr _ \<Rightarrow> True);
     let res = res\<lparr>sc_proxyIP := (case p of Inr (ip, c) \<Rightarrow> ip | Inl _ \<Rightarrow> []),
       sc_proxyCountry := (case p of Inr (ip, c) \<Rightarrow> c | Inl _ \<Rightarrow> []),
       sc_uplinkIP := (case up of Some ip \<Rightarrow> ip | None \<Rightarrow> []), sc_dns := dns\<rparr>;
     let (v, reasons) = verdict (case p of Inl _ \<Rightarrow> False | Inr _ \<Rightarrow> True) res (r1 @ r2 @ r3);
     publish_check (res\<lparr>sc_verdict := v, sc_reasons := reasons\<rparr>);
     ret (if v = ''fail'' then failed_with reasons else None)
   }"

text \<open>The outer \<open>None\<close> is that the fuel of a wait ran out.\<close>

definition check_run :: "nat \<Rightarrow> env \<Rightarrow> check_io \<Rightarrow> ('z check_world_scheme, go_error option option) state" where
  "check_run n E C = do {
     now \<leftarrow> do_clock E;
     s \<leftarrow> see C;
     (if s_desired s \<noteq> DesiredConnected then do {
        publish_check ((blank_result now)\<lparr>sc_verdict := ''fail'', sc_reasons := [''tunnel_down'']\<rparr>);
        ret (Some (failed_with [''tunnel_down'']))
      } else do {
        ready \<leftarrow> waitSettled n E C (seconds 45);
        (case ready of
           None \<Rightarrow> ret None
         | Some False \<Rightarrow> do {
             s \<leftarrow> see C;
             let reasons = (if u_status (s_uplink s) \<noteq> UplinkUp then [''uplink_down''] else []) @
                           (if conn_of s \<noteq> ConnConnected then [''tunnel_down''] else []);
             publish_check ((blank_result now)\<lparr>sc_verdict := ''fail'', sc_reasons := reasons\<rparr>);
             ret (Some (failed_with reasons))
           }
         | Some True \<Rightarrow> do {
             p \<leftarrow> proxy_address n E C;
             (case p of
                None \<Rightarrow> ret None
              | Some p \<Rightarrow> do { e \<leftarrow> check_finish E C (blank_result now) p; ret (Some e) })
           })
      })
   }"

section \<open>Facts\<close>

lemma check_effects [ext_intros]:
  "only_effects (see C)" "only_effects (see_cfg C)" "only_effects (poll_done E)" "only_effects (ask C tr ep)"
  "only_effects (dns_check C b)"
  unfolding see_def see_cfg_def poll_done_def ask_def dns_check_def by (intro ext_intros)+

lemma settle_only [ext_intros]: "only_effects (settle_loop n E C d k)"
  by (induction n arbitrary: k) (auto simp: Let_def intro!: ext_intros)

lemma fetch_only [ext_intros]: "only_effects (fetch_loop E C tr e eps)"
  by (induction eps arbitrary: e) (auto intro!: ext_intros)

lemma wait_only [ext_intros]:
  "only_effects (waitSettled n E C d)" "only_effects (fetchIP E C tr)" "only_effects (ipViaProxy E C)"
  "only_effects (uplinkTransport C)"
  unfolding waitSettled_def fetchIP_def ipViaProxy_def uplinkTransport_def Let_def by (intro ext_intros)+

lemma address_only [ext_intros]: "only_effects (proxy_address n E C)" "only_effects (uplink_address E C)"
  unfolding proxy_address_def uplink_address_def
  by (intro ext_intros; auto split: bool.split intro!: ext_intros)+

text \<open>What was true at some time between two states.\<close>

definition meanwhile :: "(event list \<Rightarrow> bool) \<Rightarrow> 'z world_scheme \<Rightarrow> 'z world_scheme \<Rightarrow> bool" where
  "meanwhile P w v \<longleftrightarrow> (\<exists>h. prefix (trace w) h \<and> prefix h (trace v) \<and> P h)"

lemma meanwhile_wider:
  "meanwhile P u v \<Longrightarrow> prefix (trace w) (trace u) \<Longrightarrow> prefix (trace v) (trace x) \<Longrightarrow> meanwhile P w x"
  unfolding meanwhile_def by (meson prefix_order.trans)

lemma settle_true:
  assumes "run_state (settle_loop n E C d k) w = (Some True, v)" and "k < 3"
  shows "meanwhile (\<lambda>h. settled (ce_see C h)) w v"
  using assms
proof (induction n arbitrary: w k)
  case (Suc n)
  let ?u = "w\<lparr>trace := trace w @ [Stat ''state'']\<rparr>"
  show ?case
  proof (cases "settled (ce_see C (trace w))")
    case True
    obtain es where "v = w\<lparr>trace := trace w @ es\<rparr>" by (rule only_run [OF settle_only Suc.prems(1)])
    with True show ?thesis unfolding meanwhile_def by (intro exI [of _ "trace w"]) simp
  next
    case False
    from False Suc.prems(1) obtain u where u: "run_state (settle_loop n E C d 0) u = (Some True, v)" "prefix (trace w) (trace u)"
      by (auto simp: see_def Let_def poll_done_def split: if_splits)
    then show ?thesis using meanwhile_wider [OF Suc.IH [OF u(1)] u(2)] by simp
  qed
qed simp

text \<open>An address that some service gave over a transport.\<close>

definition ip_answer :: "check_io \<Rightarrow> transport \<Rightarrow> string \<times> string \<Rightarrow> event list \<Rightarrow> bool" where
  "ip_answer C tr x h \<longleftrightarrow> (\<exists>(url, j) \<in> set ipEndpoints. \<exists>raw. ce_http C h tr url = Inr (200, Inr raw) \<and>
     read_answer C url j (take 4096 raw) = Inr x)"

lemma ask_ok: "run_state (ask C tr ep) w = (Inr x, v) \<Longrightarrow> ep \<in> set ipEndpoints \<Longrightarrow> ip_answer C tr x (trace w)"
  unfolding ip_answer_def by (rule bexI [of _ ep]) (auto simp: ask_def split: sum.splits prod.splits if_splits)

lemma fetch_ok:
  assumes "run_state (fetch_loop E C tr e eps) w = (Inr x, v)" and "set eps \<subseteq> set ipEndpoints"
  shows "meanwhile (ip_answer C tr x) w v"
  using assms
proof (induction eps arbitrary: w e)
  case (Cons ep eps)
  let ?u = "w\<lparr>trace := trace w @ [PollDone]\<rparr>"
  obtain r u where u: "run_state (ask C tr ep) ?u = (r, u)" by fastforce
  obtain es where es: "u = ?u\<lparr>trace := trace ?u @ es\<rparr>" by (rule only_run [OF check_effects(4) u])
  show ?case
  proof (cases r)
    case (Inl e')
    then have "run_state (fetch_loop E C tr (Some e') eps) u = (Inr x, v)"
      using Cons.prems(1) u by (auto simp: poll_done_def split: if_splits)
    then have "meanwhile (ip_answer C tr x) u v" using Cons.IH Cons.prems(2) by simp
    then show ?thesis by (rule meanwhile_wider) (simp_all add: es)
  next
    case (Inr y)
    with Cons.prems u have "ip_answer C tr x (trace w @ [PollDone])" "v = u"
      using ask_ok [of C tr ep ?u y u] by (auto simp: poll_done_def split: if_splits)
    then show ?thesis using es unfolding meanwhile_def by (intro exI [of _ "trace w @ [PollDone]"]) simp
  qed
qed simp

lemma parse_ip_nonempty: "parse_ip s \<noteq> None \<Longrightarrow> s \<noteq> []"
  by (auto simp: parse_ip_def)

lemma read_nonempty: "read_answer C url j raw = Inr x \<Longrightarrow> fst x \<noteq> []"
  using parse_ip_nonempty [of "trim_space raw"]
  by (cases j) (auto simp: read_answer_def split: if_splits option.splits sum.splits)

lemma answered_nonempty: "ip_answer C tr x h \<Longrightarrow> fst x \<noteq> []"
  using read_nonempty unfolding ip_answer_def by blast

lemma via_proxy_ok:
  assumes "run_state (ipViaProxy E C) w = (Inr x, v)"
  shows "meanwhile (\<lambda>h. \<exists>a. ip_answer C (ViaOwnProxy a) x h) w v"
proof -
  let ?u = "w\<lparr>trace := trace w @ [Stat ''config'']\<rparr>"
  from assms have "run_state (fetch_loop E C (ViaOwnProxy (pc_auth (cf_proxy (ce_cfg C (trace w))))) None (ipEndpoints @ ipEndpoints)) ?u = (Inr x, v)"
    by (simp add: ipViaProxy_def see_cfg_def fetchIP_def)
  from fetch_ok [OF this] have "meanwhile (\<lambda>h. \<exists>a. ip_answer C (ViaOwnProxy a) x h) ?u v"
    unfolding meanwhile_def by auto
  then show ?thesis by (rule meanwhile_wider) simp_all
qed

lemma proxy_address_ok:
  assumes "run_state (proxy_address n E C) w = (Some (Inr x), v)"
  shows "meanwhile (\<lambda>h. \<exists>a. ip_answer C (ViaOwnProxy a) x h) w v"
proof -
  obtain r u where u: "run_state (ipViaProxy E C) w = (r, u)" by fastforce
  show ?thesis
  proof (cases r)
    case (Inr y)
    with assms u have "y = x" "v = u" by (auto simp: proxy_address_def)
    with u Inr via_proxy_ok show ?thesis by blast
  next
    case (Inl e)
    obtain a y where y: "run_state (waitSettled n E C (seconds 45)) u = (a, y)" by fastforce
    have a: "a = Some True" using assms u Inl y by (cases a) (auto simp: proxy_address_def split: bool.splits)
    obtain z w' where z: "run_state (ipViaProxy E C) y = (z, w')" by fastforce
    with assms u Inl y a have "z = Inr x" "w' = v" by (simp_all add: proxy_address_def)
    with z via_proxy_ok have m: "meanwhile (\<lambda>h. \<exists>a. ip_answer C (ViaOwnProxy a) x h) y v" by blast
    obtain es where es: "u = w\<lparr>trace := trace w @ es\<rparr>" by (rule only_run [OF wait_only(3) u])
    obtain fs where "y = u\<lparr>trace := trace u @ fs\<rparr>" by (rule only_run [OF wait_only(1) y])
    with es have "prefix (trace w) (trace y)" by simp
    with m show ?thesis by (rule meanwhile_wider) simp
  qed
qed

lemma wait_ok:
  assumes "run_state (waitSettled n E C d) w = (Some True, v)"
  shows "meanwhile (\<lambda>h. settled (ce_see C h)) w v"
proof -
  have "meanwhile (\<lambda>h. settled (ce_see C h)) (w\<lparr>trace := trace w @ [Clock]\<rparr>) v"
    using assms by (intro settle_true) (auto simp: waitSettled_def)
  then show ?thesis by (rule meanwhile_wider) simp_all
qed

text \<open>What the last part leaves: one result with its verdict.\<close>

lemma finish_post:
  obtains res es where "run_state (check_finish E C b p) w =
      ((if sc_verdict res = ''fail'' then failed_with (sc_reasons res) else None),
        w\<lparr>trace := trace w @ es, ck_results := ck_results w @ [res]\<rparr>)"
    and "sc_verdict res \<in> {''ok'', ''warning'', ''fail''}"
    and "sc_verdict res \<noteq> ''fail'' \<longrightarrow> (\<exists>x. p = Inr x \<and> fst x = sc_proxyIP res \<and> snd x = sc_proxyCountry res \<and>
        (sc_uplinkIP res \<noteq> [] \<longrightarrow> sc_proxyIP res \<noteq> sc_uplinkIP res) \<and> (sc_verdict res = ''ok'' \<longleftrightarrow> sc_reasons res = []))"
proof -
  let ?m = "case p of
         Inl e \<Rightarrow> do { s \<leftarrow> see C; ret (if conn_of s \<noteq> ConnConnected then [''tunnel_down''] else [''proxy_check_failed'']) }
       | Inr _ \<Rightarrow> ret []"
  obtain r1 a where a: "run_state ?m w = (r1, a)" by fastforce
  have "only_effects ?m" by (intro ext_intros)
  from only_run [OF this a] obtain es1 where es1: "a = w\<lparr>trace := trace w @ es1\<rparr>" .
  obtain up r2 u where u: "run_state (uplink_address E C) a = ((up, r2), u)" by (metis surj_pair)
  from only_run [OF address_only(2) u] obtain es2 where es2: "u = a\<lparr>trace := trace a @ es2\<rparr>" .
  obtain dns r3 d where d: "run_state (dns_check C (case p of Inl _ \<Rightarrow> False | Inr _ \<Rightarrow> True)) u = ((dns, r3), d)" by (metis surj_pair)
  from only_run [OF check_effects(5) d] obtain es3 where es3: "d = u\<lparr>trace := trace u @ es3\<rparr>" .
  define res where "res = b\<lparr>sc_proxyIP := (case p of Inr (ip, c) \<Rightarrow> ip | Inl _ \<Rightarrow> []),
       sc_proxyCountry := (case p of Inr (ip, c) \<Rightarrow> c | Inl _ \<Rightarrow> []),
       sc_uplinkIP := (case up of Some ip \<Rightarrow> ip | None \<Rightarrow> []), sc_dns := dns\<rparr>"
  obtain v rs where v: "verdict (case p of Inl _ \<Rightarrow> False | Inr _ \<Rightarrow> True) res (r1 @ r2 @ r3) = (v, rs)" by fastforce
  show thesis
  proof (rule that [of "res\<lparr>sc_verdict := v, sc_reasons := rs\<rparr>" "es1 @ es2 @ es3"])
    show "run_state (check_finish E C b p) w =
      ((if sc_verdict (res\<lparr>sc_verdict := v, sc_reasons := rs\<rparr>) = ''fail''
        then failed_with (sc_reasons (res\<lparr>sc_verdict := v, sc_reasons := rs\<rparr>)) else None),
        w\<lparr>trace := trace w @ es1 @ es2 @ es3, ck_results := ck_results w @ [res\<lparr>sc_verdict := v, sc_reasons := rs\<rparr>]\<rparr>)"
      using a u d v es1 es2 es3 by (simp add: check_finish_def Let_def res_def [symmetric] publish_check_def)
    show "sc_verdict (res\<lparr>sc_verdict := v, sc_reasons := rs\<rparr>) \<in> {''ok'', ''warning'', ''fail''}"
      using v by (auto simp: verdict_def split: if_splits)
    show "sc_verdict (res\<lparr>sc_verdict := v, sc_reasons := rs\<rparr>) \<noteq> ''fail'' \<longrightarrow>
      (\<exists>x. p = Inr x \<and> fst x = sc_proxyIP (res\<lparr>sc_verdict := v, sc_reasons := rs\<rparr>) \<and>
        snd x = sc_proxyCountry (res\<lparr>sc_verdict := v, sc_reasons := rs\<rparr>) \<and>
        (sc_uplinkIP (res\<lparr>sc_verdict := v, sc_reasons := rs\<rparr>) \<noteq> [] \<longrightarrow>
          sc_proxyIP (res\<lparr>sc_verdict := v, sc_reasons := rs\<rparr>) \<noteq> sc_uplinkIP (res\<lparr>sc_verdict := v, sc_reasons := rs\<rparr>)) \<and>
        (sc_verdict (res\<lparr>sc_verdict := v, sc_reasons := rs\<rparr>) = ''ok'' \<longleftrightarrow> sc_reasons (res\<lparr>sc_verdict := v, sc_reasons := rs\<rparr>) = []))"
      using v by (cases p) (auto simp: verdict_def res_def split: if_splits)
  qed
qed

text \<open>The waits end.\<close>

lemma settle_enough:
  assumes "ticking E" and "d < env_clock E (trace w) + int n * seconds 1"
  shows "fst (run_state (settle_loop (Suc n) E C d k) w) \<noteq> None"
  using assms(2)
proof (induction n arbitrary: w k)
  case 0
  have "env_clock E (trace w) \<le> env_clock E (trace w @ [Stat ''state''])" using assms(1) by (rule clock_mono)
  with 0 show ?case by (auto simp: see_def Let_def)
next
  case (Suc n)
  let ?h = "trace w @ [Stat ''state'', Clock, PollDone]"
  let ?u = "w\<lparr>trace := ?h @ [Sleep (seconds 1)]\<rparr>"
  have "env_clock E (trace w) \<le> env_clock E ?h" using assms(1) by (rule clock_mono)
  moreover have "env_clock E ?h + seconds 1 \<le> env_clock E (?h @ [Sleep (seconds 1)])"
    using assms(1) unfolding ticking_def by blast
  ultimately have "d < env_clock E (trace ?u) + int n * seconds 1"
    using Suc.prems by (simp add: algebra_simps)
  from Suc.IH [OF this] show ?case
    by (simp only: settle_loop.simps(2) [of "Suc n"]) (auto simp add: see_def Let_def poll_done_def simp del: settle_loop.simps)
qed

definition check_fuel :: nat where "check_fuel = 47"

lemma wait_returns: "ticking E \<Longrightarrow> fst (run_state (waitSettled check_fuel E C (seconds 45)) w) \<noteq> None"
  using settle_enough [of E "env_clock E (trace w) + seconds 45" "w\<lparr>trace := trace w @ [Clock]\<rparr>" 46 C 0]
    clock_mono [of E "trace w" "[Clock]"]
  by (simp add: waitSettled_def check_fuel_def seconds_def del: settle_loop.simps)

lemma address_returns: "ticking E \<Longrightarrow> fst (run_state (proxy_address check_fuel E C) w) \<noteq> None"
proof -
  assume "ticking E"
  then have "returns (waitSettled check_fuel E C (seconds 45) :: ('a world_scheme, bool option) state)"
    by (simp add: returns_def wait_returns)
  then have "returns (do { again \<leftarrow> waitSettled check_fuel E C (seconds 45);
      (case again of None \<Rightarrow> ret None | Some True \<Rightarrow> do { r \<leftarrow> ipViaProxy E C; ret (Some r) }
       | Some False \<Rightarrow> ret (Some (Inl e))) } :: ('a world_scheme, (string \<times> string) res option) state)" for e
    by (rule returns_first) (auto split: bool.split intro: returns_bind returns_some)
  then have "returns (proxy_address check_fuel E C :: ('a world_scheme, _) state)"
    unfolding proxy_address_def by (rule returns_bind [OF returns_cases(3)]) (rule returns_some)
  then show ?thesis by (simp add: returns_def)
qed


definition demo_check :: check_io where
  "demo_check = \<lparr>ce_see = (\<lambda>h. (initial_state ''1'' 0)\<lparr>s_desired := DesiredConnected,
       s_expressvpn := (s_expressvpn (initial_state ''1'' 0))\<lparr>x_connection := ConnConnected\<rparr>,
       s_uplink := (s_uplink (initial_state ''1'' 0))\<lparr>u_status := UplinkUp\<rparr>\<rparr>),
     ce_cfg = (\<lambda>h. default_config), ce_http = (\<lambda>h tr url. Inr (200, Inr ''{...}'')), ce_dns = (\<lambda>h n. None),
     ce_json = (\<lambda>s. Some (JObj [(''country'', JStr ''CH''), (''ip'', JStr ''185.1.2.3'')])), ce_ns = Some (\<lambda>h. ''10.0.0.1''), ce_tunnel = True\<rparr>"

definition demo_checker :: check_world where
  "demo_checker = \<lparr>trace = [], ck_results = []\<rparr>"

definition demo_ticker :: env where
  "demo_ticker = ok_env\<lparr>env_clock := (\<lambda>h. sum_list (map (\<lambda>e. case e of Sleep d \<Rightarrow> max d 0 | _ \<Rightarrow> 0) h))\<rparr>"

lemma demo_ticker: "ticking demo_ticker"
  by (auto simp: ticking_def demo_ticker_def split: event.split)


section \<open>The client and the server\<close>

text \<open>The address a request for \<open>host:port\<close> names, the bytes of the client, and those of the server.\<close>

definition dialled :: "string \<Rightarrow> nat \<Rightarrow> addrSpec" where
  "dialled host port = (case (case parse_ip host of None \<Rightarrow> None | Some ip \<Rightarrow> to4 ip) of
     Some ip4 \<Rightarrow> \<lparr>a_Host = [], a_IP = ip4, a_Port = port\<rparr>
   | None \<Rightarrow> \<lparr>a_Host = host, a_IP = [], a_Port = port\<rparr>)"

definition client_bytes :: "proxy_auth option \<Rightarrow> string \<Rightarrow> nat \<Rightarrow> byte list" where
  "client_bytes auth host port =
     (case auth of None \<Rightarrow> hello [methodNoAuth]
      | Some a \<Rightarrow> hello [methodUserPass] @ userpass (bytes_of (pa_username a)) (bytes_of (pa_password a)))
     @ request_bytes cmdConnect 0 (dialled host port)"

definition server_bytes :: "proxy_auth option \<Rightarrow> byte list" where
  "server_bytes auth = (case auth of None \<Rightarrow> [5, methodNoAuth] | Some a \<Rightarrow> [5, methodUserPass, 1, 0])"

definition plain_host :: "string \<Rightarrow> bool" where
  "plain_host host \<longleftrightarrow> host \<noteq> [] \<and> length host < 256 \<and> set host \<inter> {CHR '':'', CHR ''['', CHR '']''} = {}"

lemma digits_plain: "c \<in> set (nat_digits n) \<Longrightarrow> c \<noteq> CHR '':'' \<and> c \<noteq> CHR ''['' \<and> c \<noteq> CHR '']''"
  using nat_digits_are_digits [of c n] by (auto simp: is_digit_def)

lemma split_plain:
  assumes "plain_host host"
  shows "split_host_port (host @ CHR '':'' # nat_digits port) = Some (host, nat_digits port)"
proof -
  have "\<forall>c \<in> set (rev (nat_digits port)). c \<noteq> CHR '':''" using digits_plain by fastforce
  then have "takeWhile (\<lambda>c. c \<noteq> CHR '':'') (rev (host @ CHR '':'' # nat_digits port)) = rev (nat_digits port)"
    using takeWhile_append2 [of "rev (nat_digits port)" "\<lambda>c. c \<noteq> CHR '':''" "CHR '':'' # rev host"] by simp
  moreover have "hd (host @ CHR '':'' # nat_digits port) \<noteq> CHR ''[''" "hd host \<noteq> CHR ''[''"
    using assms by (cases host; auto simp: plain_host_def)+
  ultimately show ?thesis
    using assms digits_plain by (auto simp: split_host_port_def Let_def plain_host_def)
qed

lemma scan_port_digits: "port < 65536 \<Longrightarrow> scan_port (nat_digits port) = port"
  using scan_uint_digits(2) [of port 63] by (simp add: scan_port_def)

lemma dialled_wf: "plain_host host \<Longrightarrow> port < 65536 \<Longrightarrow> wf_addr (dialled host port)"
  using to4_length by (auto simp: dialled_def wf_addr_def plain_host_def split: option.split)

lemma dial_request_bytes: "plain_host host \<Longrightarrow> port < 65536 \<Longrightarrow>
    dial_request host port = request_bytes cmdConnect 0 (dialled host port)"
  using to4_length by (auto simp: dial_request_def request_bytes_def dialled_def plain_host_def socks_consts
    split: option.split)


lemma reply_length:
  assumes "case bnd of None \<Rightarrow> True | Some (ip, p) \<Rightarrow> length ip \<in> {4, 16}"
  obtains t where "reply_bytes rep bnd = [5, rep, 0, atypIPv4] @ t" "length t = 6"
  | t where "reply_bytes rep bnd = [5, rep, 0, atypIPv6] @ t" "length t = 18"
proof -
  obtain ip p where b: "(case bnd of Some (i, p) \<Rightarrow> (i, p) | None \<Rightarrow> (v4_prefix @ [0, 0, 0, 0], 0)) = (ip, p)"
    by fastforce
  have ip: "length ip \<in> {4, 16}" using assms b by (cases bnd) (auto simp: v4_prefix_def)
  show thesis
  proof (cases "to4 ip")
    case (Some raw)
    with b that(1) [of "raw @ put_be16 p"] to4_length [OF Some] show ?thesis by (simp add: reply_bytes_def)
  next
    case None
    with ip obtain raw where "to16 ip = Some raw" "length raw = 16" by (auto simp: to16_def to4_def)
    with None b that(2) [of "raw @ put_be16 p"] show ?thesis by (simp add: reply_bytes_def)
  qed
qed

text \<open>C24: The agent's SOCKS5 client and its SOCKS5 server understand each other. For the same
  credentials and a plain host the client succeeds on the answers of the server, leaves the data after them unread and
  has sent \<open>client_bytes\<close>; from these the server accepts the handshake with the answers
  \<open>server_bytes\<close> and reads a \<open>CONNECT\<close> to that host and port, the data after them unread.\<close>

theorem client_meets_server:
  fixes c :: "'a socks_world_scheme" and s :: "'b socks_world_scheme"
  assumes "plain_host host" and "port < 65536"
    and "\<forall>a. auth = Some a \<longrightarrow> length (pa_username a) < 256 \<and> length (pa_password a) < 256"
    and "case bnd of None \<Rightarrow> True | Some (ip, p) \<Rightarrow> length ip \<in> {4, 16}"
    and "sw_in c = server_bytes auth @ reply_bytes repSuccess bnd @ down" and "sw_writes c = 3"
    and "sw_in s = client_bytes auth host port @ up" and "sw_writes s = 3"
  shows "\<exists>c' s'. run_state (socksDialVia auth (host @ CHR '':'' # nat_digits port)) c = (Inr (), c') \<and>
    sw_in c' = down \<and> sw_out c' = sw_out c @ client_bytes auth host port \<and>
    run_state (attempt (readHandshake auth) (\<lambda>_. readRequest)) s = (Inr (cmdConnect, dialled host port), s') \<and>
    sw_in s' = up \<and> sw_out s' = sw_out s @ server_bytes auth"
proof -
  have wr: "sw_writes c = Suc (Suc (Suc 0))" "sw_writes s = Suc (Suc (Suc 0))" using assms(6,8) by simp_all
  note dial = dial_request_bytes [OF assms(1,2)] scan_port_digits [OF assms(2)] split_plain [OF assms(1)]
  have "(\<exists>t. reply_bytes repSuccess bnd = [5, repSuccess, 0, atypIPv4] @ t \<and> length t = 6) \<or>
    (\<exists>t. reply_bytes repSuccess bnd = [5, repSuccess, 0, atypIPv6] @ t \<and> length t = 18)"
    by (rule reply_length [OF assms(4), of repSuccess]) blast+
  then have "\<exists>c'. run_state (socksDialVia auth (host @ CHR '':'' # nat_digits port)) c = (Inr (), c') \<and>
    sw_in c' = down \<and> sw_out c' = sw_out c @ client_bytes auth host port"
    using assms(5) wr(1)
    by (elim disjE exE conjE; cases auth) (simp_all add: socksDialVia_def run_attempt Let_def dial_auth_def dial
      dial_bound_def server_bytes_def client_bytes_def hello_def userpass_def socks_consts)
  moreover have "run_state (readHandshake auth) s = (Inr (), s\<lparr>sw_in := request_bytes cmdConnect 0 (dialled host port) @ up,
      sw_out := sw_out s @ server_bytes auth, sw_writes := (if auth = None then 2 else 1)\<rparr>)"
  proof (cases auth)
    case None
    with assms(7) wr(2) show ?thesis
      by (simp add: readHandshake_def client_bytes_def hello_def run_attempt Let_def server_bytes_def numeral_2_eq_2)
  next
    case (Some a)
    with assms(3,7) handshake_accepts [of s "[methodUserPass]" a "request_bytes cmdConnect 0 (dialled host port) @ up" 1] wr(2)
    show ?thesis by (simp add: client_bytes_def server_bytes_def)
  qed
  then have "run_state (attempt (readHandshake auth) (\<lambda>_. readRequest)) s = (Inr (cmdConnect, dialled host port),
     s\<lparr>sw_in := up, sw_out := sw_out s @ server_bytes auth, sw_writes := (if auth = None then 2 else 1)\<rparr>)"
    by (simp add: run_attempt readRequest_bytes [OF dialled_wf [OF assms(1,2)]])
  ultimately show ?thesis by force
qed

theorem client_meets_server_witness:
  "\<exists>c' s'. run_state (socksDialVia (Some \<lparr>pa_username = ''u'', pa_password = ''p''\<rparr>) (''a.b'' @ CHR '':'' # nat_digits 443))
      ((plain_world (server_bytes (Some \<lparr>pa_username = ''u'', pa_password = ''p''\<rparr>) @ reply_bytes repSuccess None @ [7]))\<lparr>sw_writes := 3\<rparr>)
      = (Inr (), c') \<and>
    run_state (attempt (readHandshake (Some \<lparr>pa_username = ''u'', pa_password = ''p''\<rparr>)) (\<lambda>_. readRequest))
      ((plain_world (client_bytes (Some \<lparr>pa_username = ''u'', pa_password = ''p''\<rparr>) ''a.b'' 443 @ [8]))\<lparr>sw_writes := 3\<rparr>)
      = (Inr (cmdConnect, dialled ''a.b'' 443), s') \<and> sw_in c' = [7] \<and> sw_in s' = [8]"
proof -
  let ?a = "Some \<lparr>pa_username = ''u'', pa_password = ''p''\<rparr>"
  have "plain_host ''a.b''" by (simp add: plain_host_def)
  then show ?thesis
    using client_meets_server [of "''a.b''" 443 ?a None
      "(plain_world (server_bytes ?a @ reply_bytes repSuccess None @ [7]))\<lparr>sw_writes := 3\<rparr>" "[7]"
      "(plain_world (client_bytes ?a ''a.b'' 443 @ [8]))\<lparr>sw_writes := 3\<rparr>" "[8]"]
    by (simp add: plain_world_def) blast
qed

end
