(* ===== verification/Uplink_Routes.thy ===== *)
theory Uplink_Routes
  imports Socks5
begin

text \<open>
  The parts of the uplink (\<open>internal/uplink\<close>) below its manager: the routes (\<open>routes.go\<close>), the
  container's resolv.conf (\<open>resolvconf.go\<close>), the configuration of sing-box (\<open>singbox.go\<close>) and
  the UDP probe of the user's proxy (\<open>probe.go\<close>).
\<close>

definition TunIface :: string where
  "TunIface = ''xup0''"

definition tunAddr :: string where
  "tunAddr = ''172.29.0.1/30''"

definition TunPeer :: string where
  "TunPeer = ''172.29.0.2''"

section \<open>Routes\<close>

text \<open>\<open>default via (\S+)\<close>: the first occurrence decides; \<open>\S\<close> is any byte but the five blanks.\<close>

fun find_via :: "string \<Rightarrow> string option" where
  "find_via [] = None"
| "find_via (c # s) =
     (case cut_prefix ''default via '' (c # s) of
        Some r \<Rightarrow> (if takeWhile (\<lambda>x. \<not> re_space x) r \<noteq> [] then Some (takeWhile (\<lambda>x. \<not> re_space x) r)
                   else find_via s)
      | None \<Rightarrow> find_via s)"

definition show_failed :: "run_result \<Rightarrow> go_error" where
  "show_failed r = PlainError (''ip route show default: exit '' @ int_str (rr_exit r) @ '', '' @
     (case rr_err r of None \<Rightarrow> ''<nil>'' | Some e \<Rightarrow> e))"

definition detectGateway :: "env \<Rightarrow> ('z world_scheme, string res) state" where
  "detectGateway E = do {
     r \<leftarrow> do_exec E ''ip'' [''-4'', ''route'', ''show'', ''default'', ''dev'', ''eth0''];
     (if rr_err r \<noteq> None \<or> rr_exit r \<noteq> 0 then ret (Inl (show_failed r))
      else (case find_via (rr_out r) of
          Some gw \<Rightarrow> ret (Inr gw)
        | None \<Rightarrow> do {
            q \<leftarrow> do_exec E ''ip'' [''-4'', ''route'', ''show'', ''default''];
            ret (if rr_err q \<noteq> None \<or> rr_exit q \<noteq> 0 then Inl (show_failed q)
              else (case find_via (rr_out q) of
                  Some gw \<Rightarrow> Inr gw
                | None \<Rightarrow> Inl (PlainError (''no default gateway found in: '' @ trim_space (rr_out q)))))
          }))
   }"

definition ipRoute :: "env \<Rightarrow> string list \<Rightarrow> ('z world_scheme, go_error option) state" where
  "ipRoute E args = do {
     r \<leftarrow> do_exec E ''ip'' (''route'' # args);
     ret (case rr_err r of
         Some e \<Rightarrow> Some (PlainError e)
       | None \<Rightarrow> if rr_exit r \<noteq> 0
           then Some (PlainError (''ip route '' @ join_with '' '' args @ '': '' @ trim_space (rr_out r)))
           else None)
   }"

text \<open>The early return of a step that only has an error.\<close>

definition check :: "('z, go_error option) state \<Rightarrow> ('z, go_error option) state \<Rightarrow> ('z, go_error option) state" where
  "check m next = do { e \<leftarrow> m; (case e of Some err \<Rightarrow> ret (Some err) | None \<Rightarrow> next) }"

definition proxy_route :: "string \<Rightarrow> string \<Rightarrow> string list" where
  "proxy_route proxyIP gw = [proxyIP @ ''/32'', ''via'', gw, ''dev'', ''eth0'']"

definition spare_route :: "string \<Rightarrow> string list" where
  "spare_route gw = [''default'', ''via'', gw, ''dev'', ''eth0'', ''metric'', ''1000'']"

definition tun_route :: "string list" where
  "tun_route = [''default'', ''via'', TunPeer, ''dev'', TunIface]"

definition host_route :: "string \<Rightarrow> string list" where
  "host_route gw = [''default'', ''via'', gw, ''dev'', ''eth0'']"

definition applyRoutes :: "env \<Rightarrow> string \<Rightarrow> string \<Rightarrow> ('z world_scheme, go_error option) state" where
  "applyRoutes E proxyIP gw =
     check (ipRoute E (''replace'' # proxy_route proxyIP gw))
     (check (ipRoute E (''replace'' # spare_route gw))
     (ipRoute E (''replace'' # tun_route)))"

definition restoreHostRoutes :: "env \<Rightarrow> string \<Rightarrow> string \<Rightarrow> ('z world_scheme, go_error option) state" where
  "restoreHostRoutes E proxyIP gw =
     check (ipRoute E (''replace'' # host_route gw)) (do {
       _ \<leftarrow> ipRoute E (''del'' # spare_route gw);
       (if proxyIP \<noteq> [] then do { _ \<leftarrow> ipRoute E (''del'' # proxy_route proxyIP gw); ret () } else ret ());
       ret None
     })"

definition linkExists :: "env \<Rightarrow> string \<Rightarrow> ('z world_scheme, bool) state" where
  "linkExists E iface = do {
     r \<leftarrow> do_exec E ''ip'' [''link'', ''show'', iface];
     ret (rr_err r = None \<and> rr_exit r = 0)
   }"

section \<open>resolv.conf\<close>

definition tunPeerDNS :: string where
  "tunPeerDNS = TunPeer"

text \<open>The comment line has a dash of three UTF-8 bytes.\<close>

definition redirected_text :: string where
  "redirected_text = ''# detour: socks5 uplink mode '' @ [CHR 0xE2, CHR 0x80, CHR 0x94] @
     '' DNS via sing-box DoH over proxy'' @ [newline] @ ''nameserver '' @ tunPeerDNS @ [newline]"

definition redirectResolvConf :: "env \<Rightarrow> ('z world_scheme, string res) state" where
  "redirectResolvConf E = do {
     r \<leftarrow> do_read E resolvConfPath;
     (case r of
        Inl e \<Rightarrow> ret (Inl (PlainError e))
      | Inr saved \<Rightarrow> do {
          e \<leftarrow> do_write E resolvConfPath redirected_text;
          ret (case e of Some m \<Rightarrow> Inl (PlainError m) | None \<Rightarrow> Inr saved)
        })
   }"

definition restoreResolvConf :: "env \<Rightarrow> string option \<Rightarrow> ('z world_scheme, go_error option) state" where
  "restoreResolvConf E saved = (case saved of
     None \<Rightarrow> ret None
   | Some s \<Rightarrow> do { e \<leftarrow> do_write E resolvConfPath s; ret (map_option PlainError e) })"

section \<open>sing-box\<close>

definition SingboxConfig :: "socks5_cfg \<Rightarrow> string \<Rightarrow> json" where
  "SingboxConfig cfg proxyIP =
     (let socksOut = [(''bind_interface'', JStr ''eth0'')] @
            (if sk_username cfg \<noteq> [] then [(''password'', JStr (sk_password cfg))] else []) @
            [(''server'', JStr proxyIP), (''server_port'', JInt (sk_port cfg)), (''tag'', JStr ''proxy-out''),
             (''type'', JStr ''socks'')] @
            (if sk_username cfg \<noteq> [] then [(''username'', JStr (sk_username cfg))] else []) @
            [(''version'', JStr ''5'')]
      in JObj
       [(''dns'', JObj
          [(''final'', JStr ''doh-via-proxy''),
           (''independent_cache'', JBool True),
           (''servers'', JArr [JObj [(''detour'', JStr ''proxy-out''), (''server'', JStr ''1.1.1.1''),
              (''tag'', JStr ''doh-via-proxy''), (''type'', JStr ''https'')]])]),
        (''inbounds'', JArr [JObj
          [(''address'', JArr [JStr tunAddr]), (''auto_route'', JBool False),
           (''interface_name'', JStr TunIface), (''mtu'', JInt 1500), (''tag'', JStr ''tun-in''),
           (''type'', JStr ''tun'')]]),
        (''log'', JObj [(''level'', JStr ''warn''), (''timestamp'', JBool True)]),
        (''outbounds'', JArr [JObj socksOut]),
        (''route'', JObj
          [(''auto_detect_interface'', JBool False),
           (''default_domain_resolver'', JObj [(''server'', JStr ''doh-via-proxy'')]),
           (''final'', JStr ''proxy-out''),
           (''rules'', JArr [JObj [(''action'', JStr ''sniff''), (''inbound'', JArr [JStr ''tun-in''])],
              JObj [(''action'', JStr ''hijack-dns''), (''protocol'', JStr ''dns'')]])])])"

section \<open>The UDP probe\<close>

text \<open>\<open>dnsQuery\<close>: the loop over the name's bytes, \<open>start\<close> and \<open>i\<close> as in the code.\<close>

fun dns_labels :: "string \<Rightarrow> nat \<Rightarrow> nat \<Rightarrow> nat \<Rightarrow> byte list" where
  "dns_labels name 0 start i = []"
| "dns_labels name (Suc k) start i =
     (if i = length name \<or> name ! i = CHR ''.''
      then of_nat (i - start) # bytes_of (take (i - start) (drop start name)) @ dns_labels name k (i + 1) (i + 1)
      else dns_labels name k start (i + 1))"

definition dnsQuery :: "string \<Rightarrow> byte list" where
  "dnsQuery name = [0xd7, 0x12, 0x01, 0x00, 0x00, 0x01, 0x00, 0x00, 0x00, 0x00, 0x00, 0x00] @
     dns_labels name (length name + 1) 0 0 @ [0x00, 0x00, 0x01, 0x00, 0x01]"

definition unspecified_or_loopback :: "ip \<Rightarrow> bool" where
  "unspecified_or_loopback a \<longleftrightarrow> a = [0, 0, 0, 0] \<or> take 1 a = [127]"

definition refuse :: "('z, bool res) state" where
  "refuse = ret (Inl (PlainError ''probe''))"

definition probe_auth :: "socks5_cfg \<Rightarrow> ('z socks_world_scheme, bool res) state \<Rightarrow> ('z socks_world_scheme, bool res) state" where
  "probe_auth cfg next =
     (if sk_username cfg = [] then next
      else attempt (conn_write ([0x01, of_nat (length (sk_username cfg))] @ bytes_of (sk_username cfg) @
             of_nat (length (sk_password cfg)) # bytes_of (sk_password cfg))) (\<lambda>_.
           attempt (read_full 2) (\<lambda>st. if st ! 1 \<noteq> 0x00 then refuse else next)))"

text \<open>\<open>relay\<close> is the datagram exchange with the address the proxy named: the length of the answer,
  if one came before the deadline.\<close>

definition probe_session ::
  "(ip option \<Rightarrow> nat \<Rightarrow> byte list \<Rightarrow> nat option) \<Rightarrow> string \<Rightarrow> socks5_cfg \<Rightarrow> ('z socks_world_scheme, bool res) state" where
  "probe_session relay proxyIP cfg =
     (let meth = (if sk_username cfg \<noteq> [] then 0x02 else 0x00) in
      attempt (conn_write [0x05, 0x01, meth]) (\<lambda>_.
      attempt (read_full 2) (\<lambda>resp.
      if resp ! 1 \<noteq> meth then refuse
      else probe_auth cfg (
      attempt (conn_write [0x05, 0x03, 0x00, 0x01, 0, 0, 0, 0, 0, 0]) (\<lambda>_.
      attempt (read_full 10) (\<lambda>reply.
      if reply ! 1 \<noteq> 0x00 then refuse
      else
        (let relayIP = take 4 (drop 4 reply); relayPort = be16 (drop 8 reply);
             target = (if unspecified_or_loopback relayIP then parse_ip proxyIP else Some relayIP) in
         (case relay target relayPort ([0, 0, 0, 0x01, 1, 1, 1, 1, 0, 53] @ dnsQuery ''example.com'') of
            Some n \<Rightarrow> ret (Inr (10 < n))
          | None \<Rightarrow> refuse))))))))"

definition ProbeUDP ::
  "env \<Rightarrow> (ip option \<Rightarrow> nat \<Rightarrow> byte list \<Rightarrow> nat option) \<Rightarrow> string \<Rightarrow> socks5_cfg \<Rightarrow> ('z socks_world_scheme, bool) state" where
  "ProbeUDP E relay proxyIP cfg = do {
     _ \<leftarrow> do_clock E;
     ok \<leftarrow> do_dial E (join_host_port proxyIP (int_str (sk_port cfg)));
     (if \<not> ok then ret False
      else do {
        r \<leftarrow> probe_session relay proxyIP cfg;
        ret (case r of Inr b \<Rightarrow> b | Inl _ \<Rightarrow> False)
      })
   }"

end
