(* ===== verification/Xvpn_Cli.thy ===== *)
theory Xvpn_Cli
  imports Config_Store State_Store
begin

text \<open>
  The wrapper of \<open>expressvpnctl\<close> (\<open>internal/xvpn\<close>): the parsers of its plain-text output
  (\<open>parse.go\<close>), the classification of its failures (\<open>errors.go\<close>), the choice of the protocol
  that the uplink allows (\<open>protocol.go\<close>), the commands (\<open>cli.go\<close>) and the cache of locations
  (\<open>locations.go\<close>).
\<close>

section \<open>Parsers\<close>

definition rawDisconnected :: string where
  "rawDisconnected = ''Disconnected''"

definition ParseConnectionState :: "string \<Rightarrow> connection" where
  "ParseConnectionState out =
     (let s = trim_space out in
      if s = ''Disconnected'' \<or> s = ''Disconnecting'' then ConnDisconnected
      else if s = ''Connecting'' then ConnConnecting
      else if s = ''Connected'' then ConnConnected
      else if s = ''Interrupted'' \<or> s = ''Reconnecting'' \<or> s = ''DisconnectingToReconnect'' then ConnReconnecting
      else ConnDisconnected)"

record cli_status =
  cs_LoggedIn :: bool
  cs_NetworkLock :: string
  cs_SplitTunnel :: string
  cs_Lines :: "string list"

definition status_line :: "cli_status \<Rightarrow> string \<Rightarrow> cli_status" where
  "status_line st raw =
     (let line = trim_space raw in
      if line = [] then st
      else if line = ''Not logged in.'' then st\<lparr>cs_LoggedIn := False\<rparr>
      else if prefix ''Network Lock:'' line
        then st\<lparr>cs_NetworkLock := trim_space (trim_prefix ''Network Lock:'' line)\<rparr>
      else if prefix ''Split Tunnel:'' line
        then st\<lparr>cs_SplitTunnel := trim_space (trim_prefix ''Split Tunnel:'' line)\<rparr>
      else st\<lparr>cs_LoggedIn := True, cs_Lines := cs_Lines st @ [line]\<rparr>)"

definition ParseStatus :: "string \<Rightarrow> cli_status" where
  "ParseStatus out = foldl status_line
     \<lparr>cs_LoggedIn = False, cs_NetworkLock = [], cs_SplitTunnel = [], cs_Lines = []\<rparr>
     (split_on newline out)"

definition ParseRegions :: "string \<Rightarrow> string list" where
  "ParseRegions out = filter (\<lambda>l. l \<noteq> []) (map trim_space (split_on newline out))"

definition ParseSmart :: "string \<Rightarrow> string" where
  "ParseSmart out = (let s = trim_space out in if s = ''N/A'' then [] else s)"

definition ParseValue :: "string \<Rightarrow> string" where
  "ParseValue out = (let s = trim_space out in if s = ''Unknown'' then [] else s)"

section \<open>Protocols\<close>

definition cliToAPIProtocol :: "(string \<times> string) list" where
  "cliToAPIProtocol =
     [(''auto'', ''auto''), (''lightwayudp'', ''lightway_udp''), (''lightwaytcp'', ''lightway_tcp''),
      (''openvpnudp'', ''openvpn_udp''), (''openvpntcp'', ''openvpn_tcp''), (''wireguard'', ''wireguard'')]"

definition apiToCLIProtocol :: "(string \<times> string) list" where
  "apiToCLIProtocol = map (\<lambda>(cli, api). (api, cli)) cliToAPIProtocol"

definition ProtocolToAPI :: "string \<Rightarrow> string" where
  "ProtocolToAPI cli = (case map_of cliToAPIProtocol (trim_space cli) of
     Some api \<Rightarrow> api | None \<Rightarrow> trim_space cli)"

definition ProtocolToCLI :: "string \<Rightarrow> string" where
  "ProtocolToCLI api = (case map_of apiToCLIProtocol api of Some cli \<Rightarrow> cli | None \<Rightarrow> api)"

definition udpProtocols :: "string list" where
  "udpProtocols = [''auto'', ''lightway_udp'', ''openvpn_udp'', ''wireguard'']"

definition EffectiveProtocol :: "string \<Rightarrow> string \<Rightarrow> tristate \<Rightarrow> string \<times> string" where
  "EffectiveProtocol requested uplinkMode udpSupported =
     (let requested = (if requested = [] then ''auto'' else requested) in
      if uplinkMode \<noteq> ''socks5'' then (requested, [])
      else if requested \<notin> set udpProtocols then (requested, [])
      else (case udpSupported of
          TriTrue \<Rightarrow> (requested, [])
        | TriFalse \<Rightarrow> (''lightway_tcp'', ''uplink has no UDP'')
        | TriUnknown \<Rightarrow> (''lightway_tcp'', ''uplink UDP support unknown'')))"

section \<open>Errors of the command\<close>

definition classifyError :: "string \<Rightarrow> string \<Rightarrow> int \<Rightarrow> go_error option" where
  "classifyError action out exit =
     (if exit = 0 then None
      else Some (let msg = trim_space out in
        if contains ''Timed out after'' out then CLIError ''daemon_not_ready'' msg exit
        else if contains ''requires a logged in account'' out then CLIError ''not_logged_in'' msg exit
        else if contains ''Cannot find region'' out \<or> contains ''Unknown region:'' out
          then CLIError ''unknown_location'' msg exit
        else if action = ''login'' \<and> (contains ''Unable to log in'' out \<or> contains ''Request failed'' out)
          then CLIError ''invalid_activation_code'' msg exit
        else CLIError ''cli_failed'' msg exit))"

section \<open>Commands\<close>

definition ctlPath :: string where
  "ctlPath = ''/opt/expressvpn/bin/expressvpnctl''"

text \<open>Durations are in nanoseconds, as \<open>time.Duration\<close>; the command takes whole seconds.\<close>

definition ctlTimeout :: int where
  "ctlTimeout = seconds 15"

definition cli_run :: "env \<Rightarrow> string \<Rightarrow> int \<Rightarrow> string list \<Rightarrow> ('z world_scheme, string res) state" where
  "cli_run E action timeout args = do {
     r \<leftarrow> do_exec E ctlPath ([''-t'', int_str (timeout div 1000000000)] @ args);
     ret (case rr_err r of
         Some e \<Rightarrow> Inl (Wrapped (''run expressvpnctl '' @ action @ '': '') (PlainError e))
       | None \<Rightarrow> (case classifyError action (rr_out r) (rr_exit r) of
             Some e \<Rightarrow> Inl e | None \<Rightarrow> Inr (rr_out r)))
   }"

definition cli_ok :: "('z, 'a res) state \<Rightarrow> ('z, go_error option) state" where
  "cli_ok m = do { r \<leftarrow> m; ret (case r of Inl e \<Rightarrow> Some e | Inr _ \<Rightarrow> None) }"

definition cli_RawConnectionState :: "env \<Rightarrow> ('z world_scheme, string res) state" where
  "cli_RawConnectionState E = attempt (cli_run E ''get'' ctlTimeout [''get'', ''connectionstate''])
     (\<lambda>out. ret (Inr (trim_space out)))"

definition cli_ConnectionState :: "env \<Rightarrow> ('z world_scheme, connection res) state" where
  "cli_ConnectionState E = attempt (cli_RawConnectionState E) (\<lambda>raw. ret (Inr (ParseConnectionState raw)))"

definition cli_Status :: "env \<Rightarrow> ('z world_scheme, cli_status res) state" where
  "cli_Status E = attempt (cli_run E ''status'' ctlTimeout [''status'']) (\<lambda>out. ret (Inr (ParseStatus out)))"

definition cli_Get :: "env \<Rightarrow> string \<Rightarrow> ('z world_scheme, string res) state" where
  "cli_Get E what = attempt (cli_run E ''get'' ctlTimeout [''get'', what]) (\<lambda>out. ret (Inr (ParseValue out)))"

definition cli_Regions :: "env \<Rightarrow> ('z world_scheme, string list res) state" where
  "cli_Regions E = attempt (cli_run E ''get'' ctlTimeout [''get'', ''regions'']) (\<lambda>out. ret (Inr (ParseRegions out)))"

definition cli_Smart :: "env \<Rightarrow> ('z world_scheme, string res) state" where
  "cli_Smart E = attempt (cli_run E ''get'' ctlTimeout [''get'', ''smart'']) (\<lambda>out. ret (Inr (ParseSmart out)))"

definition cli_Set :: "env \<Rightarrow> string \<Rightarrow> string \<Rightarrow> ('z world_scheme, go_error option) state" where
  "cli_Set E what v = cli_ok (cli_run E ''set'' ctlTimeout [''set'', what, v])"

definition cli_BackgroundEnable :: "env \<Rightarrow> ('z world_scheme, go_error option) state" where
  "cli_BackgroundEnable E = cli_ok (cli_run E ''background'' ctlTimeout [''background'', ''enable''])"

definition cli_Connect :: "env \<Rightarrow> string \<Rightarrow> int \<Rightarrow> ('z world_scheme, go_error option) state" where
  "cli_Connect E location timeout =
     cli_ok (cli_run E ''connect'' timeout (''connect'' # (if location \<noteq> [] then [location] else [])))"

definition cli_Disconnect :: "env \<Rightarrow> ('z world_scheme, go_error option) state" where
  "cli_Disconnect E = cli_ok (cli_run E ''disconnect'' ctlTimeout [''disconnect''])"

definition login_file :: "env \<Rightarrow> string \<Rightarrow> string \<Rightarrow> ('z world_scheme, go_error option) state" where
  "login_file E code path = do {
     e \<leftarrow> do_fs E ''chmod'' [path, ''0600''];
     (case e of
        Some m \<Rightarrow> do { _ \<leftarrow> do_close E path; ret (Some (PlainError m)) }
      | None \<Rightarrow> do {
          e \<leftarrow> do_write E path (code @ [newline]);
          (case e of
             Some m \<Rightarrow> do { _ \<leftarrow> do_close E path; ret (Some (PlainError m)) }
           | None \<Rightarrow> do {
               e \<leftarrow> do_close E path;
               (case e of
                  Some m \<Rightarrow> ret (Some (PlainError m))
                | None \<Rightarrow> cli_ok (cli_run E ''login'' (seconds 60) [''login'', path]))
             })
        })
   }"

text \<open>The file is removed on every path (\<open>defer os.Remove\<close>).\<close>

definition cli_Login :: "env \<Rightarrow> string \<Rightarrow> ('z world_scheme, go_error option) state" where
  "cli_Login E code = do {
     t \<leftarrow> do_mktemp E;
     (case t of
        Inl e \<Rightarrow> ret (Some (PlainError e))
      | Inr path \<Rightarrow> do { r \<leftarrow> login_file E code path; do_remove path; ret r })
   }"

definition cli_Logout :: "env \<Rightarrow> ('z world_scheme, go_error option) state" where
  "cli_Logout E = cli_ok (cli_run E ''logout'' (seconds 30) [''logout''])"

section \<open>Locations\<close>

record location =
  lo_ID :: string
  lo_Name :: string
  lo_Country :: string
  lo_City :: string
  lo_Smart :: bool

text \<open>The dash between country and city is U+2014 in UTF-8.\<close>

definition dash :: string where
  "dash = '' '' @ [CHR 0xE2, CHR 0x80, CHR 0x94] @ '' ''"

definition title :: "string list \<Rightarrow> string" where
  "title ss = join_with '' '' (map (\<lambda>s. case s of [] \<Rightarrow> [] | c # r \<Rightarrow> upper_char c # r) ss)"

definition locationFromID :: "string \<Rightarrow> location" where
  "locationFromID rid =
     (if rid = ''smart''
      then \<lparr>lo_ID = ''smart'', lo_Name = ''Smart location'', lo_Country = [], lo_City = [], lo_Smart = False\<rparr>
      else let parts = split_on CHR ''-'' rid;
               country = title (take 1 parts);
               city = (if length parts = 1 then [] else title (drop 1 parts))
           in \<lparr>lo_ID = rid, lo_Name = trim_suffix dash (trim_space (country @ dash @ city)),
               lo_Country = country, lo_City = city, lo_Smart = False\<rparr>)"

record loc_world = world +
  lw_path :: string
  lw_updatedAt :: int
  lw_locations :: "location list"

definition maxCacheAge :: int where
  "maxCacheAge = seconds (24 * 3600)"

text \<open>The cache of an earlier run: \<open>unmarshal\<close> gives the struct that \<open>json.Unmarshal\<close> leaves, whether it fails or not. Without a
  file it keeps the zero time and no locations.\<close>

definition zero_time :: int where
  "zero_time = seconds (-62135596800)"

definition newLocationCache ::
  "env \<Rightarrow> (string \<Rightarrow> int \<times> location list) \<Rightarrow> string \<Rightarrow> ('z loc_world_scheme, unit) state" where
  "newLocationCache E unmarshal dataDir = do {
     let path = dataDir @ ''/locations.json'';
     raw \<leftarrow> do_read E path;
     let (t, locs) = (case raw of Inr s \<Rightarrow> unmarshal s | Inl m \<Rightarrow> (zero_time, []));
     modify (\<lambda>w. w\<lparr>lw_path := path, lw_updatedAt := t, lw_locations := locs\<rparr>)
   }"

definition loc_List :: "('z loc_world_scheme, location list) state" where
  "loc_List = do { w \<leftarrow> getw; ret (lw_locations w) }"

definition loc_Stale :: "env \<Rightarrow> ('z loc_world_scheme, bool) state" where
  "loc_Stale E = do {
     w \<leftarrow> getw;
     now \<leftarrow> do_clock E;
     ret (maxCacheAge < now - lw_updatedAt w)
   }"

text \<open>\<open>marshal\<close> is the JSON text of the cache.\<close>

definition loc_Refresh ::
  "env \<Rightarrow> (int \<Rightarrow> location list \<Rightarrow> string) \<Rightarrow> ('z loc_world_scheme, go_error option) state" where
  "loc_Refresh E marshal = do {
     regions \<leftarrow> cli_Regions E;
     (case regions of
        Inl e \<Rightarrow> ret (Some e)
      | Inr ids \<Rightarrow> do {
          sm \<leftarrow> cli_Smart E;
          let smart = (case sm of Inr s \<Rightarrow> s | Inl _ \<Rightarrow> []);
          let locs = map (\<lambda>i. (locationFromID i)\<lparr>lo_Smart := (i = ''smart'' \<or> smart \<noteq> [] \<and> i = smart)\<rparr>) ids;
          now \<leftarrow> do_clock E;
          modify (\<lambda>w. w\<lparr>lw_updatedAt := now, lw_locations := locs\<rparr>);
          w \<leftarrow> getw;
          e \<leftarrow> do_write E (lw_path w @ ''.tmp'') (marshal now locs);
          (case e of
             Some m \<Rightarrow> ret (Some (PlainError m))
           | None \<Rightarrow> do {
               e \<leftarrow> do_fs E ''rename'' [lw_path w @ ''.tmp'', lw_path w];
               ret (map_option PlainError e)
             })
        })
   }"

section \<open>Facts\<close>

lemma is_space_code: "is_space c \<longleftrightarrow> of_char c \<in> {9, 10, 11, 12, 13, 32 :: nat}"
  unfolding is_space_def by (simp flip: of_char_eq_iff [where ?'a = nat])

lemma cli_run_only [ext_intros]: "only_effects (cli_run E a t as)"
  unfolding cli_run_def by (intro ext_intros)

lemma cli_ok_only [ext_intros]: "only_effects m \<Longrightarrow> only_effects (cli_ok m)"
  unfolding cli_ok_def by (intro ext_intros)

lemma login_file_only [ext_intros]: "only_effects (login_file E code path)"
  unfolding login_file_def by (intro ext_intros)

lemma cli_only [ext_intros]:
  "only_effects (cli_RawConnectionState E)" "only_effects (cli_ConnectionState E)" "only_effects (cli_Status E)"
  "only_effects (cli_Get E w)" "only_effects (cli_Regions E)" "only_effects (cli_Smart E)"
  "only_effects (cli_Set E k v)" "only_effects (cli_BackgroundEnable E)" "only_effects (cli_Connect E l t)"
  "only_effects (cli_Disconnect E)" "only_effects (cli_Login E c)" "only_effects (cli_Logout E)"
  unfolding cli_RawConnectionState_def cli_ConnectionState_def cli_Status_def cli_Get_def cli_Regions_def
    cli_Smart_def cli_Set_def cli_BackgroundEnable_def cli_Connect_def cli_Disconnect_def cli_Login_def cli_Logout_def
  by (intro ext_intros)+

lemma effective_no_udp:
  assumes "mode = ''socks5''" and "udp \<noteq> TriTrue"
  shows "fst (EffectiveProtocol requested mode udp) \<notin> set udpProtocols"
  using assms by (cases udp) (auto simp: EffectiveProtocol_def udpProtocols_def Let_def)

lemma effective_reason:
  "snd (EffectiveProtocol requested mode udp) = [] \<longleftrightarrow>
   fst (EffectiveProtocol requested mode udp) = (if requested = [] then ''auto'' else requested)"
  by (cases udp) (auto simp: EffectiveProtocol_def udpProtocols_def Let_def)

lemma ParseRegions_lines:
  assumes "list_all (\<lambda>r. r \<noteq> [] \<and> list_all (\<lambda>c. \<not> is_space c) r) rs"
  shows "ParseRegions (concat (map (\<lambda>r. r @ [newline]) rs)) = rs"
  using assms
proof (induction rs)
  case Nil
  then show ?case by (simp add: ParseRegions_def trim_space_def trim_left_def trim_right_def)
next
  case (Cons r rs)
  then have "newline \<notin> set r" "trim_space r = r"
    by (auto simp: list_all_iff intro: trim_space_no_space)
  with Cons show ?case by (simp add: ParseRegions_def split_on_append)
qed

section \<open>Properties\<close>

text \<open>Also: The protocol passed to the daemon never needs UDP that the uplink does not have: with a
  SOCKS5 uplink whose UDP is absent or unknown it is none of the UDP protocols; and a reason is
  given exactly when the request was replaced.\<close>

theorem effective_protocol_safe:
  "(mode = ''socks5'' \<and> udp \<noteq> TriTrue \<longrightarrow> fst (EffectiveProtocol requested mode udp) \<notin> set udpProtocols) \<and>
   (snd (EffectiveProtocol requested mode udp) = [] \<longleftrightarrow>
    fst (EffectiveProtocol requested mode udp) = (if requested = [] then ''auto'' else requested))"
  using effective_no_udp effective_reason by blast

theorem effective_protocol_safe_witness:
  "fst (EffectiveProtocol ''wireguard'' ''socks5'' TriFalse) \<notin> set udpProtocols"
  using effective_protocol_safe by blast

text \<open>Also: Protocol names translate back and forth: every protocol that the configuration accepts
  has a name of the command line that is read back as itself, also with the line's white space.\<close>

theorem protocol_roundtrip:
  assumes "p \<in> set known_protocols"
  shows "ProtocolToAPI (ProtocolToCLI p) = p \<and> ProtocolToAPI (ProtocolToCLI p @ [newline]) = p"
proof -
  have "list_all (\<lambda>p. ProtocolToAPI (ProtocolToCLI p) = p \<and> ProtocolToAPI (ProtocolToCLI p @ [newline]) = p)
      known_protocols"
    by code_simp
  with assms show ?thesis by (simp add: list_all_iff)
qed

theorem protocol_roundtrip_witness: "ProtocolToAPI (ProtocolToCLI ''openvpn_udp'') = ''openvpn_udp''"
  using protocol_roundtrip [of "''openvpn_udp''"] by (simp add: known_protocols_def)

text \<open>Also: The list of regions is read back from the command's output line by line.\<close>

theorem regions_roundtrip:
  assumes "list_all (\<lambda>r. r \<noteq> [] \<and> list_all (\<lambda>c. \<not> is_space c) r) rs"
  shows "ParseRegions (concat (map (\<lambda>r. r @ [newline]) rs)) = rs"
  using assms by (rule ParseRegions_lines)

text \<open>Also: The activation code stays out of the command line: every command that a login runs has
  the path of a temporary file in its arguments, and whenever that file was created its removal
  is the last effect, on every path.\<close>

theorem login_hides_code:
  "(\<exists>e. run_state (cli_Login E code) w = (Some (PlainError e), w\<lparr>trace := trace w @ [MkTemp]\<rparr>)) \<or>
   (\<exists>r path es. env_mktemp E (trace w) = Inr path \<and>
      run_state (cli_Login E code) w = (r, w\<lparr>trace := trace w @ MkTemp # es @ [RemoveFile path]\<rparr>) \<and>
      list_all (\<lambda>e. case e of Exec n as \<Rightarrow> n = ctlPath \<and> as = [''-t'', ''60'', ''login'', path]
         | WriteFile p c \<Rightarrow> p = path | _ \<Rightarrow> True) es)"
proof (cases "env_mktemp E (trace w)")
  case (Inl e)
  then show ?thesis by (simp add: cli_Login_def)
next
  case (Inr path)
  let ?P = "\<lambda>e. case e of Exec n as \<Rightarrow> n = ctlPath \<and> as = [''-t'', ''60'', ''login'', path]
    | WriteFile p c \<Rightarrow> p = path | _ \<Rightarrow> True"
  obtain r u where r: "run_state (login_file E code path) (w\<lparr>trace := trace w @ [MkTemp]\<rparr>) = (r, u)" by fastforce
  obtain es where es: "u = (w\<lparr>trace := trace w @ [MkTemp]\<rparr>)\<lparr>trace := trace (w\<lparr>trace := trace w @ [MkTemp]\<rparr>) @ es\<rparr>"
    using login_file_only r by (rule only_run)
  have sixty: "int_str (seconds 60 div 1000000000) = ''60''" by code_simp
  have "emits ?P (login_file E code path)"
    unfolding login_file_def cli_ok_def cli_run_def by (intro emit_intros) (simp_all add: sixty)
  from emitsD [OF this r] es have "list_all ?P es" by simp
  with Inr r es show ?thesis
    by (intro disjI2 exI [of _ r] exI [of _ path] exI [of _ es]) (simp add: cli_Login_def)
qed

text \<open>Also: A location without a city keeps the dash: of a region name without hyphens, the display
  name ends in the dash that \<open>TrimSuffix\<close> was meant to remove, because \<open>TrimSpace\<close> has already
  taken the blank it looks for.\<close>

theorem location_name_dash:
  assumes "CHR ''-'' \<notin> set rid" and "rid \<noteq> ''smart''" and "rid \<noteq> []" and "\<not> is_space (hd rid)"
    and "c = title [rid]"
  shows "lo_City (locationFromID rid) = [] \<and>
    lo_Name (locationFromID rid) = c @ '' '' @ [CHR 0xE2, CHR 0x80, CHR 0x94]"
proof -
  have up: "\<not> is_space (upper_char x)" if "\<not> is_space x" for x
  proof (cases "CHR ''a'' \<le> x \<and> x \<le> CHR ''z''")
    case True
    then have "97 \<le> (of_char x :: nat)" "(of_char x :: nat) \<le> 122"
      by (simp_all add: less_eq_char_def)
    then have "33 \<le> (of_char (upper_char x) :: nat)"
      using True by (simp add: upper_char_def)
    then show ?thesis unfolding is_space_code by fastforce
  next
    case False
    then have "upper_char x = x" unfolding upper_char_def by (rule if_not_P)
    with that show ?thesis by (simp only: not_False_eq_True)
  qed
  have hd: "c \<noteq> []" "\<not> is_space (hd c)"
    using up [OF assms(4)] assms(3,5) by (cases rid; simp add: title_def)+
  have "trim_left (c @ dash) = c @ dash"
    using hd by (simp add: trim_left_id)
  moreover have "trim_right (c @ dash) = c @ '' '' @ [CHR 0xE2, CHR 0x80, CHR 0x94]"
    by (simp add: trim_right_def dash_def is_space_def)
  ultimately have "trim_space (c @ dash) = c @ '' '' @ [CHR 0xE2, CHR 0x80, CHR 0x94]"
    by (simp add: trim_space_def)
  moreover have "\<not> suffix dash (c @ '' '' @ [CHR 0xE2, CHR 0x80, CHR 0x94])"
    by (auto simp: suffix_def dash_def dest: arg_cong [where f = last])
  ultimately show ?thesis
    using assms by (simp add: locationFromID_def split_on_no_sep Let_def trim_suffix_def)
qed

theorem location_name_dash_witness:
  "lo_Name (locationFromID ''norway'') = ''Norway '' @ [CHR 0xE2, CHR 0x80, CHR 0x94]"
proof -
  have "title [''norway''] = ''Norway''" by code_simp
  with location_name_dash [of "''norway''"] show ?thesis by (simp add: is_space_def)
qed

end
