(* ===== verification/Xvpn_Manager.thy ===== *)
theory Xvpn_Manager
  imports Xvpn_Cli
begin

text \<open>
  The operations on the ExpressVPN daemon (\<open>internal/xvpn/manager.go\<close>, and the waiting and
  bootstrap of \<open>daemon.go\<close>): connecting with retries, each attempt from an observed
  \<open>Disconnected\<close>, disconnecting until it is observed, settings, login, supervision. The
  waiting loops have a fuel \<open>n\<close>; \<open>None\<close> is that it ran out, which does not happen when the
  clock runs and \<open>n\<close> is large enough (\<open>poll_loop_enough\<close>).
\<close>

section \<open>Waiting\<close>

text \<open>The common shape of \<open>waitConnected\<close>, \<open>waitDisconnected\<close> and \<open>WaitReady\<close>: ask, stop at the
  deadline or when the context ends, wait, ask again.\<close>

fun poll_loop ::
  "nat \<Rightarrow> env \<Rightarrow> int \<Rightarrow> int \<Rightarrow> ('z world_scheme, 'b) state \<Rightarrow> ('b \<Rightarrow> bool) \<Rightarrow> ('b \<Rightarrow> go_error) \<Rightarrow>
   ('z world_scheme, go_error option option) state" where
  "poll_loop 0 E deadline poll check ok late = ret None"
| "poll_loop (Suc n) E deadline poll check ok late = do {
     r \<leftarrow> check;
     (if ok r then ret (Some None)
      else do {
        now \<leftarrow> do_clock E;
        (if deadline < now then ret (Some (Some (late r)))
         else do {
           over \<leftarrow> do_sleep E poll;
           (if over then ret (Some (Some ContextDone)) else poll_loop n E deadline poll check ok late)
         })
      })
   }"

text \<open>\<open>Duration.String\<close> for whole seconds below an hour.\<close>

definition dur_str :: "int \<Rightarrow> string" where
  "dur_str d = (let s = d div 1000000000 in
     if s < 60 then int_str s @ ''s'' else int_str (s div 60) @ ''m'' @ int_str (s mod 60) @ ''s'')"

record timings =
  tm_connectTimeout :: int
  tm_connectPoll :: int
  tm_disconnectTimeout :: int
  tm_disconnectPoll :: int
  tm_retryDelay :: int

definition connectRetries :: nat where
  "connectRetries = 3"

definition defaultTimings :: timings where
  "defaultTimings = \<lparr>tm_connectTimeout = seconds 45, tm_connectPoll = 500000000,
     tm_disconnectTimeout = seconds 15, tm_disconnectPoll = 300000000, tm_retryDelay = seconds 2\<rparr>"

definition waitConnected ::
  "nat \<Rightarrow> env \<Rightarrow> timings \<Rightarrow> int \<Rightarrow> ('z world_scheme, go_error option option) state" where
  "waitConnected n E T timeout = do {
     t0 \<leftarrow> do_clock E;
     poll_loop n E (t0 + timeout) (tm_connectPoll T) (cli_ConnectionState E)
       (\<lambda>r. r = Inr ConnConnected)
       (\<lambda>_. CLIError ''connect_failed'' (''tunnel did not reach Connected in '' @ dur_str timeout) 0)
   }"

definition raw_text :: "string res \<Rightarrow> string" where
  "raw_text r = (case r of Inr s \<Rightarrow> s | Inl _ \<Rightarrow> [])"

definition waitDisconnected ::
  "nat \<Rightarrow> env \<Rightarrow> timings \<Rightarrow> ('z world_scheme, go_error option option) state" where
  "waitDisconnected n E T = do {
     t0 \<leftarrow> do_clock E;
     poll_loop n E (t0 + tm_disconnectTimeout T) (tm_disconnectPoll T) (cli_RawConnectionState E)
       (\<lambda>r. r = Inr rawDisconnected)
       (\<lambda>r. CLIError ''disconnect_failed'' (''daemon did not reach Disconnected in '' @
          dur_str (tm_disconnectTimeout T) @ '' (last state '' @ go_quote (raw_text r) @ '')'') 0)
   }"

definition waitReady :: "nat \<Rightarrow> env \<Rightarrow> int \<Rightarrow> ('z world_scheme, go_error option option) state" where
  "waitReady n E timeout = do {
     t0 \<leftarrow> do_clock E;
     poll_loop n E (t0 + timeout) (seconds 2) (cli_ConnectionState E)
       (\<lambda>r. case r of Inr _ \<Rightarrow> True | Inl _ \<Rightarrow> False)
       (\<lambda>_. CLIError ''daemon_not_ready'' (''daemon did not become ready in '' @ dur_str timeout) 0)
   }"

section \<open>Connecting and disconnecting\<close>

definition xv_disconnect :: "nat \<Rightarrow> env \<Rightarrow> timings \<Rightarrow> ('z st_world_scheme, go_error option option) state" where
  "xv_disconnect n E T = do {
     e \<leftarrow> cli_Disconnect E;
     (case e of
        Some err \<Rightarrow> ret (Some (Some err))
      | None \<Rightarrow> do {
          st_update (\<lambda>s. s\<lparr>s_expressvpn := (s_expressvpn s)\<lparr>x_publicIP := [], x_connectedAt := None\<rparr>\<rparr>);
          waitDisconnected n E T
        })
   }"

definition ensureDisconnected :: "nat \<Rightarrow> env \<Rightarrow> timings \<Rightarrow> ('z st_world_scheme, go_error option option) state" where
  "ensureDisconnected n E T = do {
     raw \<leftarrow> cli_RawConnectionState E;
     (if raw = Inr rawDisconnected then ret (Some None) else xv_disconnect n E T)
   }"

definition afterConnect :: "env \<Rightarrow> ('z st_world_scheme, unit) state" where
  "afterConnect E = do {
     region \<leftarrow> cli_Get E ''region'';
     pubip \<leftarrow> cli_Get E ''pubip'';
     now \<leftarrow> do_clock E;
     st_update (\<lambda>s. let x = s_expressvpn s;
         x = (if raw_text region \<noteq> [] \<and> raw_text region \<noteq> ''smart'' then x\<lparr>x_location := raw_text region\<rparr> else x)
       in s\<lparr>s_expressvpn := x\<lparr>x_publicIP := raw_text pubip, x_connectedAt := Some now\<rparr>\<rparr>)
   }"

text \<open>One attempt: from \<open>Disconnected\<close>, the protocol, the command, the wait. \<open>Inl\<close> ends
  \<open>Connect\<close> at once, \<open>Inr\<close> is the attempt's own result.\<close>

definition connect_attempt ::
  "nat \<Rightarrow> env \<Rightarrow> timings \<Rightarrow> string \<Rightarrow> string \<Rightarrow>
   ('z st_world_scheme, (go_error + go_error option) option) state" where
  "connect_attempt n E T location protocol = do {
     d \<leftarrow> ensureDisconnected n E T;
     (case d of
        None \<Rightarrow> ret None
      | Some (Some e) \<Rightarrow> ret (Some (Inl e))
      | Some None \<Rightarrow> do {
          s \<leftarrow> (if protocol \<noteq> [] then cli_Set E ''protocol'' (ProtocolToCLI protocol) else ret None);
          (case s of
             Some e \<Rightarrow> ret (Some (Inl e))
           | None \<Rightarrow> do {
               c \<leftarrow> cli_Connect E location (tm_connectTimeout T);
               (case c of
                  Some e \<Rightarrow> ret (Some (Inr (Some e)))
                | None \<Rightarrow> do {
                    r \<leftarrow> waitConnected n E T (tm_connectTimeout T);
                    ret (map_option Inr r)
                  })
             })
        })
   }"

definition hopeless :: "go_error \<Rightarrow> bool" where
  "hopeless e = (case as_cli e of
     Some (code, _) \<Rightarrow> code = ''unknown_location'' \<or> code = ''not_logged_in'' | None \<Rightarrow> False)"

fun connect_from ::
  "nat \<Rightarrow> nat \<Rightarrow> env \<Rightarrow> timings \<Rightarrow> string \<Rightarrow> string \<Rightarrow> int \<Rightarrow> go_error \<Rightarrow>
   ('z st_world_scheme, go_error option option) state" where
  "connect_from 0 n E T location protocol delay lastErr =
     ret (Some (Some (CLIError ''connect_failed'' (err_text lastErr) 0)))"
| "connect_from (Suc k) n E T location protocol delay lastErr = do {
     a \<leftarrow> connect_attempt n E T location protocol;
     (case a of
        None \<Rightarrow> ret None
      | Some (Inl e) \<Rightarrow> ret (Some (Some e))
      | Some (Inr None) \<Rightarrow> do { afterConnect E; ret (Some None) }
      | Some (Inr (Some e)) \<Rightarrow>
          if hopeless e then ret (Some (Some e))
          else if 0 < k then do {
            over \<leftarrow> do_sleep E delay;
            (if over then ret (Some (Some ContextDone))
             else connect_from k n E T location protocol (delay * 2) e)
          }
          else connect_from k n E T location protocol delay e)
   }"

definition xv_Connect ::
  "nat \<Rightarrow> env \<Rightarrow> timings \<Rightarrow> string \<Rightarrow> string \<Rightarrow> ('z st_world_scheme, go_error option option) state" where
  "xv_Connect n E T location protocol =
     connect_from connectRetries n E T location protocol (tm_retryDelay T) (PlainError [])"

definition xv_Disconnect :: "nat \<Rightarrow> env \<Rightarrow> timings \<Rightarrow> ('z st_world_scheme, go_error option option) state" where
  "xv_Disconnect n E T = xv_disconnect n E T"

section \<open>Settings, login, supervision\<close>

definition toggles :: "expressvpn_cfg \<Rightarrow> (string \<times> bool) list" where
  "toggles cfg = [(''blockAds'', pt_ads (ev_protections cfg)), (''blockTrackers'', pt_trackers (ev_protections cfg)),
     (''blockMalicious'', pt_malicious (ev_protections cfg)), (''blockAdult'', pt_adult (ev_protections cfg))]"

fun set_toggles :: "env \<Rightarrow> (string \<times> bool) list \<Rightarrow> ('z world_scheme, go_error option) state" where
  "set_toggles E [] = ret None"
| "set_toggles E ((key, val) # ts) = do {
     e \<leftarrow> cli_Set E key (if val then ''true'' else ''false'');
     (case e of Some err \<Rightarrow> ret (Some err) | None \<Rightarrow> set_toggles E ts)
   }"

text \<open>\<open>pick\<close> is the iteration order of Go's map.\<close>

definition applySettings ::
  "env \<Rightarrow> ((string \<times> bool) list \<Rightarrow> (string \<times> bool) list) \<Rightarrow> expressvpn_cfg \<Rightarrow>
   ('z world_scheme, go_error option) state" where
  "applySettings E pick cfg = set_toggles E (pick (toggles cfg))"

definition setAuth :: "auth_state \<Rightarrow> ('z st_world_scheme, unit) state" where
  "setAuth a = st_update (set_auth a)"

definition xv_Login :: "env \<Rightarrow> string \<Rightarrow> ('z st_world_scheme, go_error option) state" where
  "xv_Login E code = do {
     st \<leftarrow> cli_Status E;
     (if (case st of Inr s \<Rightarrow> cs_LoggedIn s | Inl _ \<Rightarrow> False)
      then do { setAuth AuthLoggedIn; ret None }
      else do {
        e \<leftarrow> cli_Login E code;
        (case e of Some err \<Rightarrow> ret (Some err) | None \<Rightarrow> do { setAuth AuthLoggedIn; ret None })
      })
   }"

definition xv_Logout :: "env \<Rightarrow> ('z st_world_scheme, go_error option) state" where
  "xv_Logout E = do {
     e \<leftarrow> cli_Logout E;
     (case e of
        Some err \<Rightarrow> ret (Some err)
      | None \<Rightarrow> do {
          st_update (\<lambda>s. set_desired DesiredDisconnected (set_conn ConnDisconnected (set_auth AuthLoggedOut s)));
          ret None
        })
   }"

definition ensureNetworkLockOff :: "env \<Rightarrow> ('z world_scheme, unit) state" where
  "ensureNetworkLockOff E = do {
     v \<leftarrow> cli_Get E ''networklock'';
     (case v of
        Inl _ \<Rightarrow> ret ()
      | Inr s \<Rightarrow> if s = ''false'' then ret ()
          else do { _ \<leftarrow> cli_Set E ''networklock'' ''false''; ret () })
   }"

definition superviseOnce :: "env \<Rightarrow> ('z st_world_scheme, unit) state \<Rightarrow> ('z st_world_scheme, unit) state" where
  "superviseOnce E wakeReconnect = do {
     c \<leftarrow> cli_ConnectionState E;
     (case c of
        Inl _ \<Rightarrow> ret ()
      | Inr conn \<Rightarrow> do {
          s \<leftarrow> st_get;
          (if s_desired s = DesiredConnected \<and> conn_of s = ConnConnected \<and> conn \<noteq> ConnConnected
           then do { st_update (set_conn ConnReconnecting); wakeReconnect }
           else if conn_of s = ConnConnected \<and> conn = ConnConnected then ret ()
           else if conn_of s = ConnDisconnected \<and> conn = ConnConnected
           then st_update (set_conn ConnConnected)
           else ret ())
        })
   }"

text \<open>\<open>Supervise\<close>, at most \<open>n\<close> ticks; the lock is checked at every twentieth.\<close>

fun supervise :: "nat \<Rightarrow> env \<Rightarrow> ('z st_world_scheme, unit) state \<Rightarrow> nat \<Rightarrow> ('z st_world_scheme, unit) state" where
  "supervise 0 E wakeReconnect polls = ret ()"
| "supervise (Suc n) E wakeReconnect polls = do {
     over \<leftarrow> do_sleep E (seconds 3);
     (if over then ret ()
      else do {
        (if Suc polls mod 20 = 0 then ensureNetworkLockOff E else ret ());
        superviseOnce E wakeReconnect;
        supervise n E wakeReconnect (Suc polls)
      })
   }"

text \<open>\<open>Daemon.Run\<close>, at most \<open>n\<close> starts: \<open>run_once\<close> is one life of the process (true if the
  context ended), \<open>crash\<close> the callback.\<close>

fun daemon_run :: "nat \<Rightarrow> env \<Rightarrow> ('z world_scheme, bool) state \<Rightarrow> ('z world_scheme, unit) state \<Rightarrow> int \<Rightarrow>
    ('z world_scheme, unit) state" where
  "daemon_run 0 E run_once crash backoff = ret ()"
| "daemon_run (Suc n) E run_once crash backoff = do {
     start \<leftarrow> do_clock E;
     over \<leftarrow> run_once;
     (if over then ret ()
      else do {
        crash;
        over \<leftarrow> do_sleep E backoff;
        (if over then ret ()
         else do {
           now \<leftarrow> do_clock E;
           daemon_run n E run_once crash
             (if seconds 60 < now - start then seconds 1
              else if backoff < seconds 30 then backoff * 2 else backoff)
         })
      })
   }"

definition bootstrap :: "env \<Rightarrow> ('z world_scheme, go_error option) state" where
  "bootstrap E = do {
     e \<leftarrow> cli_BackgroundEnable E;
     (case e of
        Some x \<Rightarrow> ret (Some (Wrapped ''background enable: '' x))
      | None \<Rightarrow> do {
          e \<leftarrow> cli_Set E ''networklock'' ''false'';
          (case e of
             Some x \<Rightarrow> ret (Some (Wrapped ''disable network lock: '' x))
           | None \<Rightarrow> do {
               e \<leftarrow> cli_Set E ''splittunnel'' ''false'';
               ret (map_option (Wrapped ''disable split tunnel: '') e)
             })
        })
   }"

section \<open>Facts\<close>

text \<open>The question for the daemon's state and its answer after the effects \<open>h\<close>.\<close>

definition state_args :: "string list" where
  "state_args = [''-t'', int_str (ctlTimeout div 1000000000), ''get'', ''connectionstate'']"

definition state_query :: event where
  "state_query = Exec ctlPath state_args"

definition answered :: "env \<Rightarrow> event list \<Rightarrow> string \<Rightarrow> bool" where
  "answered E h s \<longleftrightarrow> rr_err (env_exec E h ctlPath state_args) = None \<and>
     rr_exit (env_exec E h ctlPath state_args) = 0 \<and> trim_space (rr_out (env_exec E h ctlPath state_args)) = s"

lemma classify_None [simp]: "classifyError a out exit = None \<longleftrightarrow> exit = 0"
  by (simp add: classifyError_def)

lemma classify_0 [simp]: "classifyError a out 0 = None"
  by simp

lemma raw_state_run:
  "run_state (cli_RawConnectionState E) w = (Inr s, v) \<longleftrightarrow>
     answered E (trace w) s \<and> v = w\<lparr>trace := trace w @ [state_query]\<rparr>"
  by (auto simp: cli_RawConnectionState_def cli_run_def run_attempt answered_def state_query_def state_args_def
      split: option.splits sum.splits)

lemma connection_state_run:
  "run_state (cli_ConnectionState E) w = (Inr c, v) \<longleftrightarrow>
     (\<exists>s. answered E (trace w) s \<and> ParseConnectionState s = c \<and> v = w\<lparr>trace := trace w @ [state_query]\<rparr>)"
  by (auto simp: cli_ConnectionState_def attempt_ok raw_state_run)

lemma parse_connected [simp]: "ParseConnectionState s = ConnConnected \<longleftrightarrow> trim_space s = ''Connected''"
  by (auto simp: ParseConnectionState_def Let_def)

lemma answered_trim: "answered E h s \<Longrightarrow> trim_space s = s"
  by (auto simp: answered_def)

lemma poll_success:
  assumes "run_state (poll_loop n E d p check ok late) w = (Some None, v)" and "extending check"
  shows "\<exists>u r. prefix (trace w) (trace u) \<and> run_state check u = (r, v) \<and> ok r"
  using assms(1)
proof (induction n arbitrary: w)
  case (Suc n)
  obtain r u where r: "run_state check w = (r, u)" by fastforce
  with assms(2) obtain es where es: "trace u = trace w @ es" by (metis extending_def snd_conv)
  show ?case
  proof (cases "ok r")
    case True
    with Suc.prems r show ?thesis by (intro exI [of _ w] exI [of _ r]) simp
  next
    case False
    let ?u = "u\<lparr>trace := trace u @ [Clock, Sleep p]\<rparr>"
    from False Suc.prems r have "run_state (poll_loop n E d p check ok late) ?u = (Some None, v)"
      by (auto split: if_splits)
    from Suc.IH [OF this] show ?thesis
      using es by (auto simp: prefix_def)
  qed
qed simp

lemma poll_ext [ext_intros]: "extending check \<Longrightarrow> extending (poll_loop n E d p check ok late)"
  "only_effects check2 \<Longrightarrow> only_effects (poll_loop n E d p check2 ok2 late2)"
  by (induction n) (auto intro!: ext_intros)

lemma poll_loop_enough:
  assumes "ticking E" and "extending check" and "d < env_clock E (trace w) + int n * p"
  shows "fst (run_state (poll_loop (Suc n) E d p check ok late) w) \<noteq> None"
  using assms(3)
proof (induction n arbitrary: w)
  case 0
  obtain r u where r: "run_state check w = (r, u)" by fastforce
  with assms(2) obtain es where es: "trace u = trace w @ es" by (metis extending_def snd_conv)
  with 0 clock_mono [OF assms(1), of "trace w" es] have "d < env_clock E (trace u)" by simp
  with r show ?case by simp
next
  case (Suc n)
  obtain r u where r: "run_state check w = (r, u)" by fastforce
  with assms(2) obtain es where es: "trace u = trace w @ es" by (metis extending_def snd_conv)
  let ?u = "u\<lparr>trace := trace u @ [Clock, Sleep p]\<rparr>"
  have "env_clock E (trace w) \<le> env_clock E (trace u @ [Clock])"
    using clock_mono [OF assms(1), of "trace w" "es @ [Clock]"] es by simp
  moreover have "env_clock E (trace u @ [Clock]) + p \<le> env_clock E ((trace u @ [Clock]) @ [Sleep p])"
    using assms(1) unfolding ticking_def by blast
  ultimately have "d < env_clock E (trace ?u) + int n * p"
    using Suc.prems by (simp add: algebra_simps)
  from Suc.IH [OF this] show ?case
    by (simp only: poll_loop.simps(2) [of "Suc n"]) (simp add: r del: poll_loop.simps)
qed


text \<open>The effects of an attempt that ends well.\<close>

definition connect_event :: "timings \<Rightarrow> string \<Rightarrow> event" where
  "connect_event T location = Exec ctlPath ([''-t'', int_str (tm_connectTimeout T div 1000000000)] @
     ''connect'' # (if location \<noteq> [] then [location] else []))"

definition new_session :: "env \<Rightarrow> timings \<Rightarrow> string \<Rightarrow> event list \<Rightarrow> event list \<Rightarrow> bool" where
  "new_session E T location h tr \<longleftrightarrow> (\<exists>h1 h2 h3. prefix h h1 \<and> answered E h1 rawDisconnected \<and>
     prefix (h1 @ [state_query]) h2 \<and> exec_took E h2 (connect_event T location) \<and>
     prefix (h2 @ [connect_event T location]) h3 \<and> answered E h3 ''Connected'' \<and>
     prefix (h3 @ [state_query]) tr)"

lemma cli_ok_None: "run_state (cli_ok m) w = (None, v) \<longleftrightarrow> (\<exists>a. run_state m w = (Inr a, v))"
  by (auto simp: cli_ok_def split: prod.splits sum.splits)

lemma cli_run_ok:
  "run_state (cli_run E a t as) w = (Inr out, v) \<longleftrightarrow>
     exec_took E (trace w) (Exec ctlPath ([''-t'', int_str (t div 1000000000)] @ as)) \<and>
     out = rr_out (env_exec E (trace w) ctlPath ([''-t'', int_str (t div 1000000000)] @ as)) \<and>
     v = w\<lparr>trace := trace w @ [Exec ctlPath ([''-t'', int_str (t div 1000000000)] @ as)]\<rparr>"
  by (auto simp: cli_run_def split: option.splits)

lemma waitDisconnected_ok:
  assumes "run_state (waitDisconnected n E T) w = (Some None, v)"
  shows "\<exists>h. prefix (trace w) h \<and> answered E h rawDisconnected \<and> trace v = h @ [state_query]"
proof -
  from assms have "run_state (poll_loop n E (env_clock E (trace w) + tm_disconnectTimeout T) (tm_disconnectPoll T)
      (cli_RawConnectionState E) (\<lambda>r. r = Inr rawDisconnected)
       (\<lambda>r. CLIError ''disconnect_failed'' (''daemon did not reach Disconnected in '' @
          dur_str (tm_disconnectTimeout T) @ '' (last state '' @ go_quote (raw_text r) @ '')'') 0))
      (w\<lparr>trace := trace w @ [Clock]\<rparr>) = (Some None, v)"
    by (simp add: waitDisconnected_def)
  from poll_success [OF this only_extending [OF cli_only(1)]] show ?thesis
    by (auto simp: raw_state_run dest!: append_prefixD)
qed

lemma waitConnected_ok:
  assumes "run_state (waitConnected n E T d) w = (Some None, v)"
  shows "\<exists>h. prefix (trace w) h \<and> answered E h ''Connected'' \<and> trace v = h @ [state_query]"
proof -
  from assms have "run_state (poll_loop n E (env_clock E (trace w) + d) (tm_connectPoll T)
      (cli_ConnectionState E) (\<lambda>r. r = Inr ConnConnected)
       (\<lambda>_. CLIError ''connect_failed'' (''tunnel did not reach Connected in '' @ dur_str d) 0))
      (w\<lparr>trace := trace w @ [Clock]\<rparr>) = (Some None, v)"
    by (simp add: waitConnected_def)
  from poll_success [OF this only_extending [OF cli_only(2)]] show ?thesis
    by (auto simp: connection_state_run answered_trim dest!: append_prefixD)
qed

lemma xv_disconnect_ok:
  assumes "run_state (xv_disconnect n E T) w = (Some None, v)"
  shows "\<exists>h. prefix (trace w) h \<and> answered E h rawDisconnected \<and> trace v = h @ [state_query]"
proof -
  obtain e u where u: "run_state (cli_Disconnect E) w = (e, u)" by fastforce
  then obtain es where es: "u = w\<lparr>trace := trace w @ es\<rparr>"
    by (rule only_run [OF cli_only(10)])
  from assms u have "e = None" by (auto simp: xv_disconnect_def split: option.splits)
  with assms u es waitDisconnected_ok show ?thesis
    by (fastforce simp: xv_disconnect_def dest!: append_prefixD)
qed

lemma ensureDisconnected_ok:
  assumes "run_state (ensureDisconnected n E T) w = (Some None, v)"
  shows "\<exists>h. prefix (trace w) h \<and> answered E h rawDisconnected \<and> trace v = h @ [state_query]"
proof -
  obtain r u where u: "run_state (cli_RawConnectionState E) w = (r, u)" by fastforce
  then obtain es where es: "u = w\<lparr>trace := trace w @ es\<rparr>"
    by (rule only_run [OF cli_only(1)])
  show ?thesis
  proof (cases "r = Inr rawDisconnected")
    case True
    with u assms have "v = u" by (simp add: ensureDisconnected_def)
    with True u show ?thesis
      by (intro exI [of _ "trace w"]) (auto simp: raw_state_run)
  next
    case False
    with u assms have "run_state (xv_disconnect n E T) u = (Some None, v)"
      by (simp add: ensureDisconnected_def)
    from xv_disconnect_ok [OF this] es show ?thesis by (auto dest: append_prefixD)
  qed
qed

lemma connect_attempt_ok:
  assumes "run_state (connect_attempt n E T location protocol) w = (Some (Inr None), v)"
  shows "new_session E T location (trace w) (trace v)"
proof -
  obtain d u where d: "run_state (ensureDisconnected n E T) w = (d, u)" by fastforce
  with assms have "d = Some None" by (auto simp: connect_attempt_def split: option.splits)
  with d ensureDisconnected_ok obtain h1 where h1: "prefix (trace w) h1" "answered E h1 rawDisconnected"
    "trace u = h1 @ [state_query]" by blast
  let ?set = "if protocol \<noteq> [] then cli_Set E ''protocol'' (ProtocolToCLI protocol) else ret None"
  obtain s t where s: "run_state ?set u = (s, t)" by fastforce
  have "only_effects ?set" by (intro ext_intros)
  then obtain es where es: "t = u\<lparr>trace := trace u @ es\<rparr>" using s by (rule only_run)
  from assms d \<open>d = Some None\<close> s have "s = None" by (auto simp: connect_attempt_def split: option.splits)
  obtain c x where c: "run_state (cli_Connect E location (tm_connectTimeout T)) t = (c, x)" by fastforce
  from assms d \<open>d = Some None\<close> s \<open>s = None\<close> c have "c = None"
    by (auto simp: connect_attempt_def split: option.splits)
  with c have "run_state (cli_Connect E location (tm_connectTimeout T)) t = (None, x)" by simp
  then have x: "exec_took E (trace t) (connect_event T location)" "trace x = trace t @ [connect_event T location]"
    unfolding cli_Connect_def cli_ok_None cli_run_ok connect_event_def by auto
  from assms d \<open>d = Some None\<close> s \<open>s = None\<close> c \<open>c = None\<close>
  have "run_state (waitConnected n E T (tm_connectTimeout T)) x = (Some None, v)"
    by (auto simp: connect_attempt_def split: option.splits prod.splits)
  from waitConnected_ok [OF this] obtain h3 where "prefix (trace x) h3" "answered E h3 ''Connected''"
    "trace v = h3 @ [state_query]" by blast
  with h1 x es show ?thesis
    unfolding new_session_def
    by (intro exI [of _ h1] exI [of _ "trace t"] exI [of _ h3]) (simp add: prefix_def)
qed

lemma st_update_ext [ext_intros]: "extending (st_update f)" "extending st_get"
  by (simp_all add: extending_def)

lemma waits_ext [ext_intros]:
  "only_effects (waitConnected n E T d)" "only_effects (waitDisconnected n E T)" "only_effects (waitReady n E d)"
  unfolding waitConnected_def waitDisconnected_def waitReady_def by (intro ext_intros)+

lemmas cli_ext [ext_intros] = cli_only [THEN only_extending] waits_ext [THEN only_extending]

lemma disconnects_ext [ext_intros]:
  "extending (xv_disconnect n E T)" "extending (ensureDisconnected n E T)" "extending (afterConnect E)"
  unfolding ensureDisconnected_def xv_disconnect_def afterConnect_def by (intro ext_intros)+

lemma connect_attempt_ext [ext_intros]: "extending (connect_attempt n E T l p)"
  unfolding connect_attempt_def by (intro ext_intros)

lemma connect_from_ext [ext_intros]: "extending (connect_from k n E T l p d e)"
  by (induction k arbitrary: d e) (auto intro!: ext_intros)

lemma extending_prefix: "extending m \<Longrightarrow> run_state m w = (a, v) \<Longrightarrow> prefix (trace w) (trace v)"
  unfolding extending_def by (metis prefixI snd_conv)

lemma new_session_mono: "new_session E T l h tr \<Longrightarrow> prefix h' h \<Longrightarrow> prefix tr tr' \<Longrightarrow> new_session E T l h' tr'"
  unfolding new_session_def by (meson prefix_order.trans)

lemma connect_from_ok:
  assumes "run_state (connect_from k n E T l p d e) w = (Some None, v)"
  shows "new_session E T l (trace w) (trace v)"
  using assms
proof (induction k arbitrary: w d e)
  case (Suc k)
  obtain a u where a: "run_state (connect_attempt n E T l p) w = (a, u)" by fastforce
  have wu: "prefix (trace w) (trace u)" using connect_attempt_ext a by (rule extending_prefix)
  from Suc.prems a consider "a = Some (Inr None)" "run_state (afterConnect E) u = ((), v)"
    | x where "a = Some (Inr (Some x))" "\<not> hopeless x" "0 < k"
        "run_state (connect_from k n E T l p (d * 2) x) (u\<lparr>trace := trace u @ [Sleep d]\<rparr>) = (Some None, v)"
    by (cases k) (auto split: option.splits sum.splits if_splits prod.splits)
  then show ?case
  proof cases
    case 1
    with a have "new_session E T l (trace w) (trace u)" by (intro connect_attempt_ok) simp
    moreover have "prefix (trace u) (trace v)" using disconnects_ext(3) 1(2) by (rule extending_prefix)
    ultimately show ?thesis by (rule new_session_mono [OF _ prefix_order.refl])
  next
    case 2
    from Suc.IH [OF 2(4)] wu show ?thesis
      by (elim new_session_mono) (simp_all add: prefix_append)
  qed
qed simp

text \<open>How many effects of a kind an operation can have.\<close>

definition counts :: "(event \<Rightarrow> bool) \<Rightarrow> nat \<Rightarrow> ('z world_scheme, 'a) state \<Rightarrow> bool" where
  "counts c k m \<longleftrightarrow> (\<forall>w. \<exists>es. trace (snd (run_state m w)) = trace w @ es \<and> length (filter c es) \<le> k)"

lemma counts_bind: "counts c j m \<Longrightarrow> (\<And>x. counts c k (f x)) \<Longrightarrow> counts c (j + k) (m \<bind> f)"
  unfolding counts_def
proof
  fix w
  assume m: "\<forall>w. \<exists>es. trace (snd (run_state m w)) = trace w @ es \<and> length (filter c es) \<le> j"
    and f: "\<And>x. \<forall>w. \<exists>es. trace (snd (run_state (f x) w)) = trace w @ es \<and> length (filter c es) \<le> k"
  obtain a v where r: "run_state m w = (a, v)" by fastforce
  with m obtain es where "trace v = trace w @ es" "length (filter c es) \<le> j" by (metis snd_conv)
  moreover obtain fs where "trace (snd (run_state (f a) v)) = trace v @ fs" "length (filter c fs) \<le> k"
    using f by blast
  ultimately show "\<exists>es. trace (snd (run_state (m \<bind> f) w)) = trace w @ es \<and> length (filter c es) \<le> j + k"
    by (auto simp: r intro!: exI [of _ "es @ fs"])
qed

lemma counts_mono: "counts c j m \<Longrightarrow> j \<le> k \<Longrightarrow> counts c k m"
  unfolding counts_def by (meson order_trans)

lemma emits_counts: "emits (\<lambda>e. \<not> c e) m \<Longrightarrow> counts c 0 m"
  by (simp add: emits_def counts_def list_all_iff filter_empty_conv)

fun is_connect :: "event \<Rightarrow> bool" where
  "is_connect (Exec n as) = (n = ctlPath \<and> take 1 (drop 2 as) = [''connect''])"
| "is_connect _ = False"

lemma no_connect_cli [emit_intros]:
  "a \<noteq> ''connect'' \<Longrightarrow> emits (\<lambda>e. \<not> is_connect e) (cli_run E n t (a # as))"
  unfolding cli_run_def by (intro emit_intros) auto

lemma no_connect_ok [emit_intros]: "emits P m \<Longrightarrow> emits P (cli_ok m)"
  unfolding cli_ok_def by (intro emit_intros)

lemma no_connect [emit_intros]:
  "emits (\<lambda>e. \<not> is_connect e) (cli_RawConnectionState E)" "emits (\<lambda>e. \<not> is_connect e) (cli_ConnectionState E)"
  "emits (\<lambda>e. \<not> is_connect e) (cli_Get E x)" "emits (\<lambda>e. \<not> is_connect e) (cli_Set E x y)"
  "emits (\<lambda>e. \<not> is_connect e) (cli_Disconnect E)"
  unfolding cli_ConnectionState_def cli_RawConnectionState_def cli_Get_def cli_Set_def cli_Disconnect_def
  by (intro emit_intros; simp)+

lemma poll_emits [emit_intros]:
  "emits P check \<Longrightarrow> P Clock \<Longrightarrow> (\<And>d. P (Sleep d)) \<Longrightarrow> emits P (poll_loop n E d p check ok late)"
  by (induction n) (auto intro!: emit_intros)

lemma no_connect_waits [emit_intros]:
  "emits (\<lambda>e. \<not> is_connect e) (waitConnected n E T d)" "emits (\<lambda>e. \<not> is_connect e) (waitDisconnected n E T)"
  unfolding waitConnected_def waitDisconnected_def by (intro emit_intros; simp)+

lemma st_emits [emit_intros]: "emits P (st_update f)" "emits P st_get"
  by (simp_all add: emits_def)

lemma no_connect_disc [emit_intros]:
  "emits (\<lambda>e. \<not> is_connect e) (ensureDisconnected n E T)" "emits (\<lambda>e. \<not> is_connect e) (afterConnect E)"
  unfolding ensureDisconnected_def xv_disconnect_def afterConnect_def by (intro emit_intros; simp)+

lemma counts_cases:
  "counts c k a \<Longrightarrow> (\<And>x. counts c k (f x)) \<Longrightarrow> counts c k (case_option a f r)"
  "(\<And>x. counts c k (g x)) \<Longrightarrow> (\<And>x. counts c k (h x)) \<Longrightarrow> counts c k (case_sum g h s)"
  "counts c k a \<Longrightarrow> counts c k b \<Longrightarrow> counts c k (if q then a else b)"
  "counts c k (ret y)"
  by (auto split: option.split sum.split simp: counts_def)

lemma counts_connect: "counts is_connect 1 (cli_Connect E l t)"
proof -
  have "\<exists>es. trace (snd (run_state (cli_Connect E l t) w)) = trace w @ es \<and> length es \<le> 1" for w
    by (simp add: cli_Connect_def cli_ok_def cli_run_def)
  then show ?thesis
    unfolding counts_def by (meson length_filter_le order_trans)
qed

lemma counts_attempt: "counts is_connect 1 (connect_attempt n E T l p)"
proof -
  have w: "counts is_connect 0 (do { r \<leftarrow> waitConnected n E T d; ret (map_option Inr r) })" for d
    by (intro emits_counts emit_intros)
  have "counts is_connect (1 + 0) (do { c \<leftarrow> cli_Connect E l t;
      (case c of Some e \<Rightarrow> ret (Some (Inr (Some e)))
       | None \<Rightarrow> do { r \<leftarrow> waitConnected n E T d; ret (map_option Inr r) }) })" for t d
    by (intro counts_bind counts_connect counts_cases w)
  then have c: "counts is_connect 1 (do { c \<leftarrow> cli_Connect E l t;
      (case c of Some e \<Rightarrow> ret (Some (Inr (Some e)))
       | None \<Rightarrow> do { r \<leftarrow> waitConnected n E T d; ret (map_option Inr r) }) })" for t d
    by simp
  have s: "counts is_connect 0 (if p \<noteq> [] then cli_Set E ''protocol'' (ProtocolToCLI p) else ret None)"
    by (intro emits_counts emit_intros)
  have "counts is_connect (0 + (0 + 1)) (connect_attempt n E T l p)"
    unfolding connect_attempt_def
    by (intro counts_bind counts_cases c s emits_counts emit_intros)
  then show ?thesis by simp
qed

lemma counts_connect_from: "counts is_connect k (connect_from k n E T l p d e :: ('z st_world_scheme, go_error option option) state)"
proof (induction k arbitrary: d e)
  case 0
  then show ?case by (simp add: counts_cases)
next
  case (Suc k)
  have z: "counts is_connect k (ret y)" "emits (\<lambda>e. \<not> is_connect e) m \<Longrightarrow> counts is_connect k m" for y m
    by (auto intro: counts_mono emits_counts counts_cases)
  have sl: "counts is_connect k (do { over \<leftarrow> do_sleep E d;
      (if over then ret (Some (Some ContextDone)) else connect_from k n E T l p (d * 2) x) } :: ('z st_world_scheme, go_error option option) state)" for x
  proof -
    have "counts is_connect 0 (do_sleep E d :: ('z st_world_scheme, bool) state)" by (intro emits_counts emit_intros) simp
    then have "counts is_connect (0 + k) (do { over \<leftarrow> do_sleep E d;
      (if over then ret (Some (Some ContextDone)) else connect_from k n E T l p (d * 2) x) } :: ('z st_world_scheme, go_error option option) state)"
      by (intro counts_bind counts_cases Suc.IH)
    then show ?thesis by simp
  qed
  have "counts is_connect (1 + k) (connect_from (Suc k) n E T l p d e :: ('z st_world_scheme, go_error option option) state)"
    unfolding connect_from.simps
    by (intro counts_bind counts_attempt counts_cases sl Suc.IH) (intro z emit_intros)+
  then show ?case by simp
qed

definition enough_fuel :: "nat \<Rightarrow> timings \<Rightarrow> bool" where
  "enough_fuel n T \<longleftrightarrow> tm_connectTimeout T < int (n - 1) * tm_connectPoll T \<and>
     tm_disconnectTimeout T < int (n - 1) * tm_disconnectPoll T \<and> 0 < n"

lemma enough_default: "enough_fuel 92 defaultTimings"
  by (simp add: enough_fuel_def defaultTimings_def seconds_def)

lemma wait_enough:
  assumes "ticking E" and "enough_fuel n T"
  shows "fst (run_state (waitDisconnected n E T) w) \<noteq> None"
    and "fst (run_state (waitConnected n E T (tm_connectTimeout T)) w) \<noteq> None"
proof -
  obtain m where n: "n = Suc m" using assms(2) by (cases n) (auto simp: enough_fuel_def)
  let ?w = "w\<lparr>trace := trace w @ [Clock]\<rparr>"
  have "env_clock E (trace w) \<le> env_clock E (trace w @ [Clock])"
    by (rule clock_mono [OF assms(1)])
  then have "env_clock E (trace w) + tm_disconnectTimeout T < env_clock E (trace ?w) + int m * tm_disconnectPoll T"
    "env_clock E (trace w) + tm_connectTimeout T < env_clock E (trace ?w) + int m * tm_connectPoll T"
    using assms(2) by (auto simp: enough_fuel_def n)
  from poll_loop_enough [OF assms(1) only_extending [OF cli_only(1)] this(1)]
    poll_loop_enough [OF assms(1) only_extending [OF cli_only(2)] this(2)]
  show "fst (run_state (waitDisconnected n E T) w) \<noteq> None"
    "fst (run_state (waitConnected n E T (tm_connectTimeout T)) w) \<noteq> None"
    by (simp_all add: waitDisconnected_def waitConnected_def n del: poll_loop.simps)
qed

lemma disconnect_enough:
  assumes "ticking E" and "enough_fuel n T"
  shows "fst (run_state (xv_disconnect n E T) w) \<noteq> None"
    and "fst (run_state (ensureDisconnected n E T) w) \<noteq> None"
proof -
  show d: "fst (run_state (xv_disconnect n E T) w) \<noteq> None" for w :: "'a st_world_scheme"
  proof -
    obtain e u where u: "run_state (cli_Disconnect E) w = (e, u)" by fastforce
    show ?thesis
      using u wait_enough(1) [OF assms] by (cases e) (simp_all add: xv_disconnect_def)
  qed
  then show "fst (run_state (ensureDisconnected n E T) w) \<noteq> None"
    by (simp add: ensureDisconnected_def split: prod.split)
qed

lemma attempt_enough:
  assumes "ticking E" and "enough_fuel n T"
  shows "fst (run_state (connect_attempt n E T l p) w) \<noteq> None"
proof -
  obtain d u where d: "run_state (ensureDisconnected n E T) w = (d, u)" by fastforce
  with disconnect_enough(2) [OF assms, of w] obtain e where e: "d = Some e" by (cases d) auto
  obtain s t where s: "run_state (if p \<noteq> [] then cli_Set E ''protocol'' (ProtocolToCLI p) else ret None) u = (s, t)"
    by fastforce
  obtain c x where c: "run_state (cli_Connect E l (tm_connectTimeout T)) t = (c, x)" by fastforce
  show ?thesis
    using d e s c wait_enough(2) [OF assms, of x]
    by (auto simp: connect_attempt_def split: option.split prod.split)
qed

lemma connect_from_enough:
  assumes "ticking E" and "enough_fuel n T"
  shows "fst (run_state (connect_from k n E T l p d e) w) \<noteq> None"
proof (induction k arbitrary: d e w)
  case (Suc k)
  obtain a u where a: "run_state (connect_attempt n E T l p) w = (a, u)" by fastforce
  with attempt_enough [OF assms, of l p w] obtain b where "a = Some b" by (cases a) auto
  with a Suc.IH show ?case
    by (auto split: sum.split option.split prod.split)
qed simp

lemma daemon_emits:
  assumes "b \<in> {seconds 1, seconds 2, seconds 4, seconds 8, seconds 16, seconds 32}"
    and "emits (\<lambda>e. \<forall>d. e \<noteq> Sleep d) run_once" and "emits (\<lambda>e. \<forall>d. e \<noteq> Sleep d) crash"
  shows "emits (\<lambda>e. \<forall>d. e = Sleep d \<longrightarrow> seconds 1 \<le> d \<and> d \<le> seconds 32) (daemon_run n E run_once crash b)"
  using assms(1)
proof (induction n arbitrary: b)
  case (Suc n)
  have w: "emits P m \<Longrightarrow> (\<And>e. P e \<Longrightarrow> Q e) \<Longrightarrow> emits Q m" for P Q and m :: "('z world_scheme, 'q) state"
    unfolding emits_def list_all_iff by meson
  show ?case
    unfolding daemon_run.simps
    by (intro emit_intros Suc.IH w [OF assms(2)] w [OF assms(3)])
      (use Suc.prems in \<open>auto simp: seconds_def split: if_splits\<close>)
qed (auto intro: emit_intros)

lemma supervise_run:
  assumes "run_state (superviseOnce E wake) w = ((), v)" and "keeps w_st wake"
  shows "w_st v = w_st w \<or>
    (\<exists>s. answered E (trace w) s \<and>
      (if s = ''Connected'' then conn_of (snap_of w) = ConnDisconnected \<and> w_st v = update (set_conn ConnConnected) (w_st w)
       else conn_of (snap_of w) = ConnConnected \<and> s_desired (snap_of w) = DesiredConnected \<and>
         w_st v = update (set_conn ConnReconnecting) (w_st w)))"
proof (cases "run_state (cli_ConnectionState E) w")
  case (Pair c u)
  show ?thesis
  proof (cases c)
    case (Inl e)
    obtain es where "u = w\<lparr>trace := trace w @ es\<rparr>" using cli_only(2) Pair by (rule only_run)
    moreover have "v = u" using Pair assms(1) Inl by (simp add: superviseOnce_def)
    ultimately show ?thesis by simp
  next
    case (Inr conn)
    with Pair obtain s where s: "answered E (trace w) s" "ParseConnectionState s = conn"
      "u = w\<lparr>trace := trace w @ [state_query]\<rparr>" by (auto simp: connection_state_run)
    then have sc: "conn = ConnConnected \<longleftrightarrow> s = ''Connected''"
      using answered_trim [OF s(1)] by auto
    have "w_st v = update (set_conn ConnReconnecting) (w_st w)"
      if "run_state wake (u\<lparr>w_st := update (set_conn ConnReconnecting) (w_st u)\<rparr>) = ((), v)"
      using keepsD [OF assms(2) that] s(3) by simp
    note dropped = this
    have B: "run_state (if s_desired (snap_of w) = DesiredConnected \<and> conn_of (snap_of w) = ConnConnected \<and> conn \<noteq> ConnConnected
           then do { st_update (set_conn ConnReconnecting); wake }
           else if conn_of (snap_of w) = ConnConnected \<and> conn = ConnConnected then ret ()
           else if conn_of (snap_of w) = ConnDisconnected \<and> conn = ConnConnected
           then st_update (set_conn ConnConnected)
           else ret ()) u = ((), v)"
      using assms(1) Pair Inr s(3) by (simp add: superviseOnce_def del: snapshot_defs)
    consider (drop) "s_desired (snap_of w) = DesiredConnected" "conn_of (snap_of w) = ConnConnected" "conn \<noteq> ConnConnected"
      | (up) "conn_of (snap_of w) = ConnDisconnected" "conn = ConnConnected"
      | (same) "\<not> (s_desired (snap_of w) = DesiredConnected \<and> conn_of (snap_of w) = ConnConnected \<and> conn \<noteq> ConnConnected)"
          "\<not> (conn_of (snap_of w) = ConnDisconnected \<and> conn = ConnConnected)"
      by blast
    then show ?thesis
    proof cases
      case drop
      with B have "run_state wake (u\<lparr>w_st := update (set_conn ConnReconnecting) (w_st u)\<rparr>) = ((), v)"
        by (simp del: snapshot_defs)
      with drop dropped s(1) sc show ?thesis by auto
    next
      case up
      with B s(3) have "w_st v = update (set_conn ConnConnected) (w_st w)" by (auto simp del: snapshot_defs)
      with up s(1) sc show ?thesis by auto
    next
      case same
      with B have "v = u" by (simp del: snapshot_defs split: if_splits)
      with s(3) show ?thesis by simp
    qed
  qed
qed

text \<open>A daemon for the concrete runs: disconnected until a \<open>connect\<close> is issued; its clock shows
  the time slept.\<close>

definition demo_env :: env where
  "demo_env = ok_env\<lparr>
     env_exec := (\<lambda>h n as. \<lparr>rr_out = (if as = state_args
        then (if list_ex is_connect h then ''Connected'' else ''Disconnected'') else []), rr_exit = 0, rr_err = None\<rparr>),
     env_clock := (\<lambda>h. sum_list (map (\<lambda>e. case e of Sleep d \<Rightarrow> max d 0 | _ \<Rightarrow> 0) h))\<rparr>"

lemma demo_ticking: "ticking demo_env"
  by (auto simp: ticking_def demo_env_def split: event.split)

definition demo_world :: st_world where
  "demo_world = \<lparr>trace = [], w_st = new_store (initial_state ''1'' 0)\<rparr>"

lemma demo_connect: "fst (run_state (connect_attempt 1 demo_env defaultTimings ''usa'' []) demo_world) = Some (Inr None)"
proof -
  have raw: "run_state (cli_RawConnectionState demo_env) w = (Inr ''Disconnected'', w\<lparr>trace := trace w @ [state_query]\<rparr>)"
    if "\<not> list_ex is_connect (trace w)" for w :: "'z world_scheme"
    using that by (simp add: raw_state_run answered_def demo_env_def trim_space_no_space is_space_def)
  have conn: "run_state (cli_ConnectionState demo_env) w = (Inr ConnConnected, w\<lparr>trace := trace w @ [state_query]\<rparr>)"
    if "list_ex is_connect (trace w)" for w :: "'z world_scheme"
    using that by (simp add: connection_state_run answered_def demo_env_def trim_space_no_space is_space_def)
  have "run_state (ensureDisconnected 1 demo_env defaultTimings) demo_world =
      (Some None, demo_world\<lparr>trace := [state_query]\<rparr>)"
    by (simp add: ensureDisconnected_def raw demo_world_def rawDisconnected_def)
  then show ?thesis
    by (simp add: connect_attempt_def cli_Connect_def cli_ok_def cli_run_def waitConnected_def
        demo_env_def [THEN arg_cong [where f = env_exec]] demo_world_def conn)
qed

section \<open>Properties\<close>

text \<open>C12: \<open>Connect\<close> reports success only for a new session: the daemon was observed
  \<open>Disconnected\<close>, then the \<open>connect\<close> command for the wanted location succeeded, and after that
  the daemon was observed \<open>Connected\<close>; all of it during this call.\<close>

theorem connect_is_new_session:
  assumes "run_state (xv_Connect n E T location protocol) w = (Some None, v)"
  shows "new_session E T location (trace w) (trace v)"
  using assms unfolding xv_Connect_def by (rule connect_from_ok)

theorem connect_is_new_session_witness:
  "new_session demo_env defaultTimings ''usa'' []
     (trace (snd (run_state (xv_Connect 1 demo_env defaultTimings ''usa'' []) demo_world)))"
proof -
  obtain u where u: "run_state (connect_attempt 1 demo_env defaultTimings ''usa'' []) demo_world = (Some (Inr None), u)"
    using demo_connect by (metis prod.collapse)
  obtain v where v: "run_state (afterConnect demo_env) u = ((), v)" by (metis (full_types) old.unit.exhaust prod.exhaust)
  have run: "run_state (xv_Connect 1 demo_env defaultTimings ''usa'' []) demo_world = (Some None, v)"
    by (simp add: xv_Connect_def connectRetries_def numeral_3_eq_3 u [unfolded One_nat_def] v)
  have "trace demo_world = []" by (simp add: demo_world_def)
  with connect_is_new_session [OF run] show ?thesis by (simp only: run snd_conv)
qed

text \<open>Also: \<open>Connect\<close> asks the daemon to connect at most three times, whatever the daemon and the
  context do.\<close>

theorem connect_at_most_three:
  "\<exists>es. trace (snd (run_state (xv_Connect n E T location protocol) w)) = trace w @ es \<and>
     length (filter is_connect es) \<le> 3"
  using counts_connect_from [of connectRetries n E T location protocol "tm_retryDelay T" "PlainError []"]
  unfolding xv_Connect_def counts_def connectRetries_def by blast

text \<open>C36: \<open>Connect\<close> and \<open>Disconnect\<close> return: with a clock that runs, and fuel for as many polls as
  fit into the timeouts (92 for the program's own), no answer of the daemon makes them wait
  forever.\<close>

theorem connect_returns:
  assumes "ticking E" and "enough_fuel n T"
  shows "fst (run_state (xv_Connect n E T location protocol) w) \<noteq> None \<and>
    fst (run_state (xv_Disconnect n E T) w) \<noteq> None"
  unfolding xv_Connect_def xv_Disconnect_def
  by (intro conjI connect_from_enough disconnect_enough(1) assms)

theorem connect_returns_witness:
  "fst (run_state (xv_Connect 92 demo_env defaultTimings ''usa'' ''auto'') demo_world) \<noteq> None"
  using connect_returns [OF demo_ticking enough_default] by blast

text \<open>Also: \<open>Disconnect\<close> reports success only when the daemon was last observed in exactly
  \<open>Disconnected\<close>.\<close>

theorem disconnect_observed:
  assumes "run_state (xv_Disconnect n E T) w = (Some None, v)"
  shows "\<exists>h. prefix (trace w) h \<and> answered E h rawDisconnected \<and> trace v = h @ [state_query]"
  using assms unfolding xv_Disconnect_def by (rule xv_disconnect_ok)

text \<open>Also: Supervision is honest: a poll changes the state only from connected to reconnecting when
  the user wants the connection and the daemon says otherwise, or from disconnected to connected
  when the daemon is connected; the agent's own reconnecting is never taken for a drop.\<close>

theorem supervise_transitions:
  assumes "run_state (superviseOnce E wake) w = ((), v)" and "keeps w_st wake"
  shows "w_st v = w_st w \<or>
    (\<exists>s. answered E (trace w) s \<and>
      (if s = ''Connected'' then conn_of (snap_of w) = ConnDisconnected \<and> w_st v = update (set_conn ConnConnected) (w_st w)
       else conn_of (snap_of w) = ConnConnected \<and> s_desired (snap_of w) = DesiredConnected \<and>
         w_st v = update (set_conn ConnReconnecting) (w_st w)))"
  using assms by (rule supervise_run)

definition demo_session :: st_world where
  "demo_session = \<lparr>trace = [], w_st = new_store (set_conn ConnConnected (set_desired DesiredConnected
     (initial_state ''1'' 0)))\<rparr>"

theorem supervise_transitions_witness:
  "\<exists>s. answered demo_env [] s \<and> s \<noteq> ''Connected'' \<and> conn_of (snap_of demo_session) = ConnConnected"
proof -
  let ?v = "demo_session\<lparr>trace := [state_query], w_st := update (set_conn ConnReconnecting) (w_st demo_session)\<rparr>"
  have "answered demo_env [] ''Disconnected''"
    by (simp add: answered_def demo_env_def trim_space_no_space is_space_def)
  then have "run_state (cli_ConnectionState demo_env) demo_session =
      (Inr ConnDisconnected, demo_session\<lparr>trace := [state_query]\<rparr>)"
    by (auto simp: connection_state_run demo_session_def ParseConnectionState_def trim_space_no_space is_space_def)
  then have "run_state (superviseOnce demo_env (ret ())) demo_session = ((), ?v)"
    by (simp add: superviseOnce_def demo_session_def new_store_def store_get_def initial_state_def)
  from supervise_transitions [OF this keeps_basic(1)]
  have "w_st ?v = w_st demo_session \<or> (\<exists>s. answered demo_env [] s \<and> (s = ''Connected'' \<longrightarrow>
      conn_of (snap_of demo_session) = ConnDisconnected) \<and> (s \<noteq> ''Connected'' \<longrightarrow>
      conn_of (snap_of demo_session) = ConnConnected))"
    by (auto simp: demo_session_def simp del: snapshot_defs split: if_splits)
  moreover have "conn_of (snap_of ?v) = ConnReconnecting" "conn_of (snap_of demo_session) = ConnConnected"
    by (simp_all add: demo_session_def store_get_def new_store_def initial_state_def)
  then have "w_st ?v \<noteq> w_st demo_session" "conn_of (snap_of demo_session) \<noteq> ConnDisconnected" by force+
  ultimately show ?thesis by (auto simp del: snapshot_defs)
qed

text \<open>Also: The pauses between restarts of a crashing daemon are between one second and 32.\<close>

theorem daemon_backoff_bounds:
  assumes "emits (\<lambda>e. \<forall>d. e \<noteq> Sleep d) run_once" and "emits (\<lambda>e. \<forall>d. e \<noteq> Sleep d) crash"
  shows "emits (\<lambda>e. \<forall>d. e = Sleep d \<longrightarrow> seconds 1 \<le> d \<and> d \<le> seconds 32) (daemon_run n E run_once crash (seconds 1))"
  using daemon_emits [OF _ assms] by simp

end
