(* ===== verification/Uplink.thy ===== *)
theory Uplink
  imports Uplink_Routes Xvpn_Manager
begin

text \<open>
  The uplink's manager (\<open>internal/uplink/manager.go\<close>): bringing the container's exit to the
  configured mode, tearing the SOCKS5 uplink down, the asynchronous UDP probe with its run
  numbers, waiting for it, and the health monitor. The sing-box process is seen through
  effects: its start and stop, and questions whether it is alive.
\<close>

record ul_world = ks_world +
  ul_proc :: bool
  ul_applied :: "uplink_cfg option"
  ul_probeRun :: "nat option"
  ul_nextRun :: nat
  ul_probes :: "(nat \<times> uplink_cfg \<times> string) list"
  ul_proxyIP :: string
  ul_gw :: string
  ul_savedResolv :: "string option"

definition startTimeout :: int where
  "startTimeout = seconds 10"

definition cfgPath :: string where
  "cfgPath = ''/tmp/detour-singbox.json''"

definition endpoint_of :: "uplink_cfg \<Rightarrow> string" where
  "endpoint_of cfg = join_host_port (sk_host (ul_socks5 cfg)) (int_str (sk_port (ul_socks5 cfg)))"

definition downState :: "uplink_cfg \<Rightarrow> string \<Rightarrow> string \<Rightarrow> uplink_st" where
  "downState cfg endpoint reason = \<lparr>u_mode = ul_mode cfg, u_status = UplinkDown, u_udpSupported = TriUnknown,
     u_endpoint = endpoint, u_reason = reason\<rparr>"

definition tcpCheck :: "env \<Rightarrow> string \<Rightarrow> int \<Rightarrow> ('z world_scheme, bool) state" where
  "tcpCheck E ip port = do_dial E (join_host_port ip (int_str port))"

section \<open>The process\<close>

definition procAlive :: "env \<Rightarrow> ('z ul_world_scheme, bool) state" where
  "procAlive E = do {
     w \<leftarrow> getw;
     (if \<not> ul_proc w then ret False else do_flag E ''sing-box alive'')
   }"

definition stopProc :: "env \<Rightarrow> ('z ul_world_scheme, unit) state" where
  "stopProc E = do {
     w \<leftarrow> getw;
     (if \<not> ul_proc w then ret ()
      else do {
        _ \<leftarrow> do_fs E ''SIGTERM'' [''sing-box''];
        gone \<leftarrow> do_sleep E (seconds 3);
        (if gone then ret () else emit Kill);
        modify (\<lambda>w. w\<lparr>ul_proc := False\<rparr>)
      })
   }"

text \<open>The wait for the interface; the \<open>select\<close> between the process's end and 200 ms.\<close>

fun start_wait :: "nat \<Rightarrow> env \<Rightarrow> int \<Rightarrow> ('z ul_world_scheme, go_error option option) state" where
  "start_wait 0 E deadline = ret None"
| "start_wait (Suc n) E deadline = do {
     up \<leftarrow> linkExists E TunIface;
     (if up then ret (Some None)
      else do {
        exited \<leftarrow> do_sleep E 200000000;
        (if exited then do {
           modify (\<lambda>w. w\<lparr>ul_proc := False\<rparr>);
           ret (Some (Some (PlainError ''sing-box exited during startup'')))
         } else do {
           now \<leftarrow> do_clock E;
           (if deadline < now then do {
              stopProc E;
              ret (Some (Some (PlainError (''interface '' @ TunIface @ '' did not appear in '' @ dur_str startTimeout))))
            } else start_wait n E deadline)
         })
      })
   }"

definition startProc :: "nat \<Rightarrow> env \<Rightarrow> ('z ul_world_scheme, go_error option option) state" where
  "startProc n E = do {
     e \<leftarrow> do_fs E ''start'' [''sing-box'', ''run'', ''-c'', cfgPath];
     (case e of
        Some m \<Rightarrow> ret (Some (Some (Wrapped ''start sing-box: '' (PlainError m))))
      | None \<Rightarrow> do {
          modify (\<lambda>w. w\<lparr>ul_proc := True\<rparr>);
          t0 \<leftarrow> do_clock E;
          start_wait n E (t0 + startTimeout)
        })
   }"

section \<open>Applying and tearing down\<close>

definition teardown :: "env \<Rightarrow> ('z ul_world_scheme, unit) state" where
  "teardown E = do {
     stopProc E;
     w \<leftarrow> getw;
     (if ul_savedResolv w \<noteq> None then do {
        _ \<leftarrow> restoreResolvConf E (ul_savedResolv w);
        modify (\<lambda>w. w\<lparr>ul_savedResolv := None\<rparr>)
      } else ret ());
     w \<leftarrow> getw;
     (if ul_gw w \<noteq> [] then do { _ \<leftarrow> restoreHostRoutes E (ul_proxyIP w) (ul_gw w); ret () } else ret ());
     modify (\<lambda>w. w\<lparr>ul_proxyIP := [], ul_applied := None, ul_probeRun := None\<rparr>)
   }"

definition statusOf :: "env \<Rightarrow> uplink_cfg \<Rightarrow> string \<Rightarrow> ('z ul_world_scheme, uplink_st) state" where
  "statusOf E cfg endpoint = do {
     s \<leftarrow> st_get;
     w \<leftarrow> getw;
     ok \<leftarrow> tcpCheck E (ul_proxyIP w) (sk_port (ul_socks5 cfg));
     up \<leftarrow> (if ok then linkExists E TunIface else ret False);
     ret \<lparr>u_mode = ''socks5'', u_status = (if up then UplinkUp else UplinkDown),
       u_udpSupported = u_udpSupported (s_uplink s), u_endpoint = endpoint,
       u_reason = (if up then [] else ''proxy_unreachable'')\<rparr>
   }"

definition startProbe :: "uplink_cfg \<Rightarrow> string \<Rightarrow> ('z ul_world_scheme, unit) state" where
  "startProbe cfg ip = do {
     modify (\<lambda>w. w\<lparr>ul_probeRun := Some (ul_nextRun w), ul_probes := ul_probes w @ [(ul_nextRun w, cfg, ip)],
       ul_nextRun := Suc (ul_nextRun w)\<rparr>);
     st_update (set_udp TriUnknown)
   }"

type_synonym ul_result = "(uplink_st \<times> go_error option) option"

definition socks_up :: "env \<Rightarrow> uplink_cfg \<Rightarrow> string \<Rightarrow> ('z ul_world_scheme, ul_result) state" where
  "socks_up E cfg ip = do {
     r \<leftarrow> redirectResolvConf E;
     w \<leftarrow> getw;
     (case r of
        Inl _ \<Rightarrow> ret ()
      | Inr saved \<Rightarrow> if ul_savedResolv w = None then modify (\<lambda>w. w\<lparr>ul_savedResolv := Some saved\<rparr>) else ret ());
     modify (\<lambda>w. w\<lparr>ul_applied := Some cfg\<rparr>);
     let us = \<lparr>u_mode = ''socks5'', u_status = UplinkUp, u_udpSupported = TriUnknown,
       u_endpoint = endpoint_of cfg, u_reason = []\<rparr>;
     (if sk_udp (ul_socks5 cfg) = ''on'' then ret (Some (us\<lparr>u_udpSupported := TriTrue\<rparr>, None))
      else if sk_udp (ul_socks5 cfg) = ''off'' then ret (Some (us\<lparr>u_udpSupported := TriFalse\<rparr>, None))
      else do { startProbe cfg ip; ret (Some (us, None)) })
   }"

definition socks_build ::
  "nat \<Rightarrow> env \<Rightarrow> (json \<Rightarrow> string) \<Rightarrow> uplink_cfg \<Rightarrow> string \<Rightarrow> string \<Rightarrow> ('z ul_world_scheme, ul_result) state" where
  "socks_build n E marshal cfg ip gw =
     (let fail = (\<lambda>reason e. ret (Some (downState cfg (endpoint_of cfg) reason, Some e))) in do {
       e \<leftarrow> ipRoute E (''replace'' # proxy_route ip gw);
       (case e of Some err \<Rightarrow> fail ''routes_failed'' err | None \<Rightarrow> do {
         ok \<leftarrow> tcpCheck E ip (sk_port (ul_socks5 cfg));
         (if \<not> ok then fail ''proxy_unreachable'' (Wrapped (''proxy '' @ endpoint_of cfg @ '': '') (PlainError ''dial''))
          else do {
            e \<leftarrow> do_write E cfgPath (marshal (SingboxConfig (ul_socks5 cfg) ip));
            (case e of Some m \<Rightarrow> fail ''config_failed'' (PlainError m) | None \<Rightarrow> do {
              s \<leftarrow> startProc n E;
              (case s of
                 None \<Rightarrow> ret None
               | Some (Some err) \<Rightarrow> fail ''engine_failed'' err
               | Some None \<Rightarrow> do {
                   e \<leftarrow> applyRoutes E ip gw;
                   (case e of
                      Some err \<Rightarrow> do { teardown E; fail ''routes_failed'' err }
                    | None \<Rightarrow> socks_up E cfg ip)
                 })
            })
          })
       })
     })"

text \<open>The SOCKS5 branch of \<open>Apply\<close> from the teardown of the old uplink \<open>ap\<close> on.\<close>

definition socks_rebuild ::
  "nat \<Rightarrow> env \<Rightarrow> (json \<Rightarrow> string) \<Rightarrow> (string \<Rightarrow> ('z ul_world_scheme, string res) state) \<Rightarrow> uplink_cfg \<Rightarrow>
   uplink_cfg option \<Rightarrow> ('z ul_world_scheme, ul_result) state" where
  "socks_rebuild n E marshal resolve cfg ap = do {
     (case ap of
        Some a \<Rightarrow> if ul_mode a = ''socks5'' then teardown E else ret ()
      | None \<Rightarrow> ret ());
     r \<leftarrow> resolve (sk_host (ul_socks5 cfg));
     (case r of
        Inl e \<Rightarrow> ret (Some (downState cfg (endpoint_of cfg) ''proxy_unreachable'', Some (Wrapped ''resolve proxy host: '' e)))
      | Inr ip \<Rightarrow> do {
          g \<leftarrow> detectGateway E;
          (case g of
             Inl e \<Rightarrow> ret (Some (downState cfg (endpoint_of cfg) ''no_gateway'', Some e))
           | Inr gw \<Rightarrow> do {
               modify (\<lambda>w. w\<lparr>ul_proxyIP := ip, ul_gw := gw\<rparr>);
               socks_build n E marshal cfg ip gw
             })
        })
   }"

definition ul_apply ::
  "nat \<Rightarrow> env \<Rightarrow> (json \<Rightarrow> string) \<Rightarrow> (string \<Rightarrow> ('z ul_world_scheme, string res) state) \<Rightarrow> uplink_cfg \<Rightarrow>
   ('z ul_world_scheme, ul_result) state" where
  "ul_apply n E marshal resolve cfg = do {
     w \<leftarrow> getw;
     (if ul_mode cfg = ''host'' then do {
        (case ul_applied w of
           Some a \<Rightarrow> if ul_mode a = ''socks5'' then teardown E else ret ()
         | None \<Rightarrow> ret ());
        modify (\<lambda>w. w\<lparr>ul_applied := Some cfg, ul_probeRun := None\<rparr>);
        ret (Some (\<lparr>u_mode = ''host'', u_status = UplinkUp, u_udpSupported = TriTrue, u_endpoint = [], u_reason = []\<rparr>, None))
      }
      else if ul_mode cfg = ''socks5'' then do {
        alive \<leftarrow> (if ul_applied w = Some cfg then procAlive E else ret False);
        (if alive then do { us \<leftarrow> statusOf E cfg (endpoint_of cfg); ret (Some (us, None)) }
         else do {
           socks_rebuild n E marshal resolve cfg (ul_applied w)
         })
      }
      else ret (Some (\<lparr>u_mode = ul_mode cfg, u_status = UplinkUnknown, u_udpSupported = TriUnknown,
        u_endpoint = [], u_reason = []\<rparr>, Some (PlainError (''unknown uplink mode '' @ go_quote (ul_mode cfg))))))
   }"

definition shutdown :: "env \<Rightarrow> ('z ul_world_scheme, unit) state" where
  "shutdown E = do {
     w \<leftarrow> getw;
     (case ul_applied w of
        Some a \<Rightarrow> if ul_mode a = ''socks5'' then teardown E else ret ()
      | None \<Rightarrow> ret ())
   }"

section \<open>Probes\<close>

definition tri :: "bool \<Rightarrow> tristate" where
  "tri b = (if b then TriTrue else TriFalse)"

definition publish_udp :: "bool \<Rightarrow> ('z st_world_scheme, unit) state" where
  "publish_udp supported = st_update (\<lambda>s. if u_mode (s_uplink s) = ''socks5'' then set_udp (tri supported) s else s)"

text \<open>The end of \<open>probeAndPublish\<close> of the run \<open>run\<close>, when the probe has answered; \<open>done\<close> is
  closed by leaving the list of running probes.\<close>

definition probe_finish :: "nat \<Rightarrow> bool \<Rightarrow> ('z ul_world_scheme, unit) state" where
  "probe_finish run supported = do {
     w \<leftarrow> getw;
     (if ul_probeRun w = Some run then publish_udp supported else ret ());
     modify (\<lambda>w. w\<lparr>ul_probes := filter (\<lambda>p. fst p \<noteq> run) (ul_probes w)\<rparr>)
   }"

text \<open>\<open>finished\<close> is whether \<open>run.done\<close> closes before the context ends.\<close>

definition waitUDP :: "bool \<Rightarrow> ('z ul_world_scheme, tristate) state" where
  "waitUDP finished = do {
     w \<leftarrow> getw;
     s \<leftarrow> st_get;
     (case ul_applied w of
        None \<Rightarrow> ret TriUnknown
      | Some cfg \<Rightarrow>
          if ul_mode cfg = ''host'' \<or> sk_udp (ul_socks5 cfg) = ''on'' then ret TriTrue
          else if sk_udp (ul_socks5 cfg) = ''off'' then ret TriFalse
          else (case ul_probeRun w of
              None \<Rightarrow> ret (u_udpSupported (s_uplink s))
            | Some run \<Rightarrow> ret (if finished then u_udpSupported (s_uplink s) else TriUnknown)))
   }"

text \<open>\<open>probe\<close> is \<open>ProbeUDP\<close> on a new connection.\<close>

definition probeAction ::
  "(string \<Rightarrow> socks5_cfg \<Rightarrow> ('z ul_world_scheme, bool) state) \<Rightarrow> ('z ul_world_scheme, go_error option) state" where
  "probeAction probe = do {
     w \<leftarrow> getw;
     (case ul_applied w of
        None \<Rightarrow> ret (Some (PlainError ''probe-uplink is only meaningful in socks5 mode''))
      | Some cfg \<Rightarrow>
          if ul_mode cfg \<noteq> ''socks5''
          then ret (Some (PlainError ''probe-uplink is only meaningful in socks5 mode''))
          else if sk_udp (ul_socks5 cfg) \<in> {''on'', ''off''} then ret None
          else do {
            supported \<leftarrow> probe (ul_proxyIP w) (ul_socks5 cfg);
            publish_udp supported;
            ret None
          })
   }"

section \<open>Monitoring\<close>

definition health :: "bool \<Rightarrow> bool \<Rightarrow> uplink_status \<times> string" where
  "health proxyOK tunOK =
     (if proxyOK \<and> tunOK then (UplinkUp, [])
      else if tunOK \<and> \<not> proxyOK then (UplinkDown, ''proxy_unreachable'')
      else (UplinkDegraded, ''engine_not_running''))"

definition monitor_tick :: "env \<Rightarrow> ('z ul_world_scheme, unit) state \<Rightarrow> ('z ul_world_scheme, unit) state" where
  "monitor_tick E onRecovered = do {
     w \<leftarrow> getw;
     (case ul_applied w of
        None \<Rightarrow> ret ()
      | Some cfg \<Rightarrow>
          if ul_mode cfg \<noteq> ''socks5'' then ret ()
          else do {
            proxyOK \<leftarrow> tcpCheck E (ul_proxyIP w) (sk_port (ul_socks5 cfg));
            alive \<leftarrow> procAlive E;
            tunOK \<leftarrow> (if alive then linkExists E TunIface else ret False);
            let (status, reason) = health proxyOK tunOK;
            s \<leftarrow> st_get;
            (if u_status (s_uplink s) = status then ret ()
             else do {
               st_update (\<lambda>s. s\<lparr>s_uplink := (s_uplink s)\<lparr>u_status := status, u_reason := reason\<rparr>\<rparr>);
               (if status = UplinkUp then onRecovered else ret ())
             })
          })
   }"

fun monitor :: "nat \<Rightarrow> env \<Rightarrow> ('z ul_world_scheme, unit) state \<Rightarrow> ('z ul_world_scheme, unit) state" where
  "monitor 0 E onRecovered = ret ()"
| "monitor (Suc n) E onRecovered = do {
     over \<leftarrow> do_sleep E (seconds 10);
     (if over then ret () else do { monitor_tick E onRecovered; monitor n E onRecovered })
   }"

section \<open>What the operations change\<close>

lemma routes_only [ext_intros]:
  "only_effects (detectGateway E)" "only_effects (ipRoute E as)" "only_effects (applyRoutes E ip gw)"
  "only_effects (restoreHostRoutes E ip gw)" "only_effects (linkExists E i)" "only_effects (redirectResolvConf E)"
  "only_effects (restoreResolvConf E s)" "only_effects (tcpCheck E ip port)"
proof -
  show i: "only_effects (ipRoute E as)" for as :: "string list"
    unfolding ipRoute_def by (intro ext_intros)
  have c: "only_effects m \<Longrightarrow> only_effects n \<Longrightarrow> only_effects (check m n)" for m n :: "('z world_scheme, go_error option) state"
    unfolding check_def by (intro ext_intros)
  show "only_effects (detectGateway E)" "only_effects (applyRoutes E ip gw)"
    "only_effects (restoreHostRoutes E ip gw)" "only_effects (linkExists E i)" "only_effects (redirectResolvConf E)"
    "only_effects (restoreResolvConf E s)" "only_effects (tcpCheck E ip port)"
    unfolding detectGateway_def applyRoutes_def restoreHostRoutes_def linkExists_def redirectResolvConf_def
      restoreResolvConf_def tcpCheck_def
    by (intro ext_intros c i)+
qed

lemmas wp_routes [wp_intros] = routes_only [THEN wp_only]

lemma procAlive_only [ext_intros]: "only_effects (procAlive E)"
  unfolding only_effects_def procAlive_def by (auto intro: extends_nothing)

lemma wp_procAlive [wp_intros]:
  assumes "\<And>b es. b \<longrightarrow> ul_proc w \<Longrightarrow> Q b (w\<lparr>trace := trace w @ es\<rparr>)"
  shows "wp (procAlive E) Q w"
  using assms [of False "[]"] assms by (auto simp: procAlive_def wp_def)

text \<open>\<open>ul_frame w v\<close>: nothing but the manager's fields about the current uplink and the trace
  differ; \<open>proc_to\<close> is a change of the process alone, \<open>torn_down\<close> what a teardown leaves.\<close>

definition ul_frame :: "'z ul_world_scheme \<Rightarrow> 'z ul_world_scheme \<Rightarrow> bool" where
  "ul_frame w v \<longleftrightarrow> (\<exists>es. trace v = trace w @ es) \<and> w_st v = w_st w \<and> ul_nextRun v = ul_nextRun w \<and>
     ul_probes v = ul_probes w \<and> ul_gw v = ul_gw w \<and> containerDNS v = containerDNS w \<and> ks_params v = ks_params w \<and>
     ks_backend v = ks_backend w \<and> ks_legacyLogged v = ks_legacyLogged w \<and> ul_world.more v = ul_world.more w"

definition proc_to :: "bool \<Rightarrow> 'z ul_world_scheme \<Rightarrow> 'z ul_world_scheme \<Rightarrow> bool" where
  "proc_to p w v \<longleftrightarrow> ul_frame w v \<and> ul_proc v = p \<and> ul_savedResolv v = ul_savedResolv w \<and>
     ul_proxyIP v = ul_proxyIP w \<and> ul_applied v = ul_applied w \<and> ul_probeRun v = ul_probeRun w"

definition torn_down :: "'z ul_world_scheme \<Rightarrow> 'z ul_world_scheme \<Rightarrow> bool" where
  "torn_down w v \<longleftrightarrow> ul_frame w v \<and> \<not> ul_proc v \<and> ul_savedResolv v = None \<and> ul_proxyIP v = [] \<and>
     ul_applied v = None \<and> ul_probeRun v = None"

lemmas frame_defs = ul_frame_def proc_to_def torn_down_def

lemma wp_stopProc [wp_intros]: "(\<And>v. proc_to False w v \<Longrightarrow> Q () v) \<Longrightarrow> wp (stopProc E) Q w"
  unfolding stopProc_def wp_def by (auto simp: frame_defs)

lemma wp_teardown [wp_intros]: "(\<And>v. torn_down w v \<Longrightarrow> Q () v) \<Longrightarrow> wp (teardown E) Q w"
  unfolding teardown_def by (intro wp_intros; auto simp: frame_defs)

lemma wp_start_wait:
  assumes "\<And>v. proc_to (ul_proc v) w v \<Longrightarrow> Q None v" and "\<And>v. proc_to (ul_proc w) w v \<Longrightarrow> Q (Some None) v"
    and "\<And>v e. proc_to False w v \<Longrightarrow> Q (Some (Some e)) v"
  shows "wp (start_wait n E d) Q w"
  using assms
proof (induction n arbitrary: w)
  case (Suc n)
  show ?case
    unfolding start_wait.simps
    by (intro wp_intros Suc.IH; (rule Suc.prems)?) (auto simp: frame_defs)
qed (auto simp: frame_defs intro: wp_return)

lemma wp_startProc [wp_intros]:
  assumes "\<not> ul_proc w" and "\<And>v. proc_to (ul_proc v) w v \<Longrightarrow> Q None v" and "\<And>v. proc_to True w v \<Longrightarrow> Q (Some None) v"
    and "\<And>v e. proc_to False w v \<Longrightarrow> Q (Some (Some e)) v"
  shows "wp (startProc n E) Q w"
  unfolding startProc_def
  by (intro wp_intros wp_start_wait; rule assms) (use assms(1) in \<open>auto simp: frame_defs\<close>)

section \<open>The manager's invariant\<close>

text \<open>sing-box runs, the resolver is redirected and a probe is awaited only while a SOCKS5 uplink
  is applied, and the awaited probe is one of that uplink.\<close>

definition socks_applied :: "'z ul_world_scheme \<Rightarrow> bool" where
  "socks_applied w \<longleftrightarrow> (\<exists>c. ul_applied w = Some c \<and> ul_mode c = ''socks5'')"

definition probe_current :: "'z ul_world_scheme \<Rightarrow> nat \<Rightarrow> bool" where
  "probe_current w r \<longleftrightarrow> (\<exists>c. ul_applied w = Some c \<and> ul_mode c = ''socks5'' \<and> sk_udp (ul_socks5 c) \<notin> {''on'', ''off''} \<and>
     (\<forall>(q, d, ip) \<in> set (ul_probes w). q = r \<longrightarrow> d = c \<and> ip = ul_proxyIP w))"

definition uplink_inv :: "'z ul_world_scheme \<Rightarrow> bool" where
  "uplink_inv w \<longleftrightarrow> (ul_proc w \<or> ul_savedResolv w \<noteq> None \<longrightarrow> socks_applied w) \<and>
     (\<forall>p \<in> set (ul_probes w). fst p < ul_nextRun w) \<and>
     (\<forall>r. ul_probeRun w = Some r \<longrightarrow> r < ul_nextRun w \<and> probe_current w r)"

lemmas inv_defs = uplink_inv_def probe_current_def socks_applied_def

lemma inv_torn_down: "uplink_inv w \<Longrightarrow> torn_down w v \<Longrightarrow> uplink_inv v"
  by (auto simp: inv_defs frame_defs)

text \<open>How \<open>Apply\<close> may end: \<open>apply_post cfg\<close> relates its answer to the state it leaves.\<close>

definition apply_post :: "uplink_cfg \<Rightarrow> ul_result \<Rightarrow> 'z ul_world_scheme \<Rightarrow> bool" where
  "apply_post cfg r v \<longleftrightarrow> (case r of
     None \<Rightarrow> True
   | Some (us, None) \<Rightarrow> uplink_inv v \<and> ul_applied v = Some cfg \<and> u_mode us = ul_mode cfg
   | Some (us, Some e) \<Rightarrow> uplink_inv v \<and> u_status us \<noteq> UplinkUp \<and> (ul_mode cfg = ''socks5'' \<longrightarrow> \<not> socks_applied v))"

lemma inv_idle:
  assumes "uplink_inv w" and "\<not> socks_applied w"
  shows "\<not> ul_proc w" "ul_savedResolv w = None" "ul_probeRun w = None"
  using assms by (auto simp: inv_defs) (metis not_None_eq)

lemma wp_socks_up:
  assumes "\<forall>p \<in> set (ul_probes w). fst p < ul_nextRun w" and "ul_probeRun w = None"
    and "ul_mode cfg = ''socks5''" and "ul_proxyIP w = ip"
  shows "wp (socks_up E cfg ip) (apply_post cfg) w"
  unfolding socks_up_def startProbe_def Let_def
  by (intro wp_intros) (use assms in \<open>auto simp: apply_post_def inv_defs\<close>)

lemma wp_socks_build:
  assumes "uplink_inv w" and "\<not> socks_applied w" and "ul_mode cfg = ''socks5''" and "ul_proxyIP w = ip"
  shows "wp (socks_build n E marshal cfg ip gw) (apply_post cfg) w"
proof -
  note w = inv_idle [OF assms(1,2)]
  show ?thesis
    unfolding socks_build_def Let_def
    by (intro wp_intros wp_socks_up)
      (use assms w in \<open>auto simp: apply_post_def inv_defs frame_defs downState_def\<close>)
qed

lemma inv_resolved:
  assumes "uplink_inv w" and "\<not> socks_applied w"
  shows "uplink_inv (w\<lparr>trace := es, ul_proxyIP := ip, ul_gw := gw\<rparr>)"
  using inv_idle [OF assms] assms(1) by (simp add: uplink_inv_def)

lemma torn_down_idle: "torn_down w v \<Longrightarrow> \<not> socks_applied v"
  by (simp add: torn_down_def socks_applied_def)

lemma wp_leave_socks:
  assumes "uplink_inv w" and "ap = ul_applied w" and "\<And>v. uplink_inv v \<Longrightarrow> \<not> socks_applied v \<Longrightarrow> Q () v"
  shows "wp (case ap of Some a \<Rightarrow> if ul_mode a = ''socks5'' then teardown E else ret () | None \<Rightarrow> ret ()) Q w"
  by (intro wp_intros assms(3)) (use assms(1,2) in \<open>auto simp: inv_torn_down dest: torn_down_idle simp: socks_applied_def [of w]\<close>)

lemma inv_trace [simp]:
  "uplink_inv (w\<lparr>trace := es\<rparr>) = uplink_inv w" "socks_applied (w\<lparr>trace := es\<rparr>) = socks_applied w"
  by (simp_all add: inv_defs)

lemma inv_host:
  assumes "uplink_inv v" and "\<not> socks_applied v" and "ul_mode cfg \<noteq> ''socks5''"
  shows "uplink_inv (v\<lparr>ul_applied := Some cfg, ul_probeRun := None\<rparr>)"
  using inv_idle [OF assms(1,2)] assms by (simp add: uplink_inv_def)

lemma wp_rebuild:
  assumes "uplink_inv w" and "ul_mode cfg = ''socks5''" and "ap = ul_applied w" and res: "\<And>h. only_effects (resolve h)"
  shows "wp (socks_rebuild n E marshal resolve cfg ap) (apply_post cfg) w"
  unfolding socks_rebuild_def
  by (rule wp_bind, rule wp_leave_socks [OF assms(1,3)],
      intro wp_intros res [THEN wp_only] wp_socks_build inv_resolved)
    (simp_all add: assms(2) apply_post_def downState_def, simp_all add: inv_defs)

lemma wp_ul_apply:
  assumes inv: "uplink_inv w" and res: "\<And>h. only_effects (resolve h)"
  shows "wp (ul_apply n E marshal resolve cfg) (apply_post cfg) w"
proof -
  have host: "wp (case ul_applied w of Some a \<Rightarrow> if ul_mode a = ''socks5'' then teardown E else ret () | None \<Rightarrow> ret ())
      (\<lambda>_ v. uplink_inv v \<and> \<not> socks_applied v) w"
    by (rule wp_leave_socks [OF inv refl]) simp
  show ?thesis
    unfolding ul_apply_def statusOf_def
    by (intro wp_bind wp_get wp_cases(1) wp_rebuild res wp_procAlive wp_return wp_modify wp_st_get wp_routes
          host [THEN wp_mono]) (auto simp: apply_post_def inv_host inv)
qed

section \<open>Fuel\<close>

lemma start_wait_enough:
  assumes "ticking E" and "d < env_clock E (trace w) + int n * 200000000"
  shows "fst (run_state (start_wait (Suc n) E d) w) \<noteq> None"
  using assms(2)
proof (induction n arbitrary: w)
  case 0
  obtain r u where r: "run_state (linkExists E TunIface) w = (r, u)" by fastforce
  with routes_only(5) obtain es where u: "u = w\<lparr>trace := trace w @ es\<rparr>" by (metis only_run)
  have "d < env_clock E (trace u @ [Sleep 200000000])"
    using 0 clock_mono [OF assms(1), of "trace w" "es @ [Sleep 200000000]"] by (simp add: u)
  with r show ?case by (simp split: prod.split)
next
  case (Suc n)
  obtain r u where r: "run_state (linkExists E TunIface) w = (r, u)" by fastforce
  with routes_only(5) obtain es where u: "u = w\<lparr>trace := trace w @ es\<rparr>" by (metis only_run)
  let ?u = "u\<lparr>trace := trace u @ [Sleep 200000000, Clock]\<rparr>"
  have "env_clock E (trace u) + 200000000 \<le> env_clock E (trace u @ [Sleep 200000000])"
    using assms(1) unfolding ticking_def by blast
  then have "d < env_clock E (trace ?u) + int n * 200000000"
    using Suc.prems clock_mono [OF assms(1), of "trace w" es]
      clock_mono [OF assms(1), of "trace u @ [Sleep 200000000]" "[Clock]"]
    by (simp add: u algebra_simps)
  from Suc.IH [OF this] show ?case
    by (simp only: start_wait.simps(2) [of "Suc n"]) (simp add: r split: prod.split del: start_wait.simps)
qed

definition start_fuel :: nat where
  "start_fuel = 52"

lemma startProc_enough:
  assumes "ticking E"
  shows "fst (run_state (startProc start_fuel E) w) \<noteq> None"
proof -
  let ?h = "trace w @ [FsOp ''start'' [''sing-box'', ''run'', ''-c'', cfgPath]]"
  have "env_clock E ?h \<le> env_clock E (?h @ [Clock])"
    by (rule clock_mono [OF assms])
  then have "env_clock E ?h + startTimeout < env_clock E (trace (w\<lparr>ul_proc := True, trace := ?h @ [Clock]\<rparr>)) + int 51 * 200000000"
    by (simp add: startTimeout_def seconds_def)
  from start_wait_enough [OF assms this] show ?thesis
    by (simp add: startProc_def start_fuel_def split: option.split del: start_wait.simps)
qed

lemma apply_enough:
  assumes "ticking E"
  shows "returns (ul_apply start_fuel E marshal resolve cfg)"
proof -
  have p: "returns (startProc start_fuel E)"
    unfolding returns_def by (intro allI startProc_enough assms)
  show ?thesis
    unfolding ul_apply_def socks_rebuild_def socks_build_def socks_up_def Let_def
    by ((rule returns_first [OF p], simp only: option.case) | rule return_intros)+
qed

section \<open>Steps\<close>

text \<open>What may happen to the uplink: an \<open>Apply\<close> or \<open>Shutdown\<close> under the manager's lock, the answer of
  a running probe, a tick of the monitor, and anything other goroutines do outside the manager.\<close>

definition outside :: "'z ul_world_scheme \<Rightarrow> 'z ul_world_scheme \<Rightarrow> bool" where
  "outside w v \<longleftrightarrow> ul_proc v = ul_proc w \<and> ul_applied v = ul_applied w \<and> ul_probeRun v = ul_probeRun w \<and>
     ul_nextRun v = ul_nextRun w \<and> ul_probes v = ul_probes w \<and> ul_proxyIP v = ul_proxyIP w \<and> ul_gw v = ul_gw w \<and>
     ul_savedResolv v = ul_savedResolv w"

inductive ul_step ::
  "env \<Rightarrow> (json \<Rightarrow> string) \<Rightarrow> (string \<Rightarrow> ('z ul_world_scheme, string res) state) \<Rightarrow>
   'z ul_world_scheme \<Rightarrow> 'z ul_world_scheme \<Rightarrow> bool" for E marshal resolve where
  applies: "run_state (ul_apply n E marshal resolve cfg) w = (Some r, v) \<Longrightarrow> ul_step E marshal resolve w v"
| shuts_down: "run_state (shutdown E) w = ((), v) \<Longrightarrow> ul_step E marshal resolve w v"
| answers: "(run, cfg, ip) \<in> set (ul_probes w) \<Longrightarrow> run_state (probe_finish run b) w = ((), v) \<Longrightarrow>
     ul_step E marshal resolve w v"
| ticks: "run_state (monitor_tick E (ret ())) w = ((), v) \<Longrightarrow> ul_step E marshal resolve w v"
| others: "outside w v \<Longrightarrow> ul_step E marshal resolve w v"

inductive ul_reach ::
  "env \<Rightarrow> (json \<Rightarrow> string) \<Rightarrow> (string \<Rightarrow> ('z ul_world_scheme, string res) state) \<Rightarrow> 'z ul_world_scheme \<Rightarrow> bool"
  for E marshal resolve where
  start: "ul_applied w = None \<Longrightarrow> \<not> ul_proc w \<Longrightarrow> ul_probeRun w = None \<Longrightarrow> ul_savedResolv w = None \<Longrightarrow>
     ul_probes w = [] \<Longrightarrow> ul_reach E marshal resolve w"
| step: "ul_reach E marshal resolve w \<Longrightarrow> ul_step E marshal resolve w v \<Longrightarrow> ul_reach E marshal resolve v"

lemma outside_inv: "outside w v \<Longrightarrow> uplink_inv w \<Longrightarrow> uplink_inv v"
  by (simp add: outside_def inv_defs)

lemma outside_run: "wp m (\<lambda>_ v. outside w v) w \<Longrightarrow> run_state m w = (a, v) \<Longrightarrow> outside w v"
  by (rule wpD)

lemma monitor_outside: "wp (monitor_tick E (ret ())) (\<lambda>_ v. outside w v) w"
  unfolding monitor_tick_def Let_def
  by (intro wp_intros wp_st_get wp_st_update wp_procAlive) (auto simp: outside_def)

lemma inv_st: "uplink_inv (w\<lparr>w_st := s\<rparr>) = uplink_inv w"
  by (simp add: inv_defs)

lemma inv_filter: "uplink_inv w \<Longrightarrow> uplink_inv (w\<lparr>ul_probes := filter P (ul_probes w)\<rparr>)"
  unfolding uplink_inv_def probe_current_def socks_applied_def by fastforce

lemma finish_inv:
  assumes "uplink_inv w" and "run_state (probe_finish run b) w = ((), v)"
  shows "uplink_inv v"
proof -
  have "wp (probe_finish run b) (\<lambda>_ v. uplink_inv v) w"
    unfolding probe_finish_def publish_udp_def
    by (intro wp_intros wp_st_update; rule inv_filter) (simp_all add: inv_st assms(1))
  with assms(2) show ?thesis by (simp add: wp_def)
qed

lemma shutdown_inv:
  assumes "uplink_inv w" and "run_state (shutdown E) w = ((), v)"
  shows "uplink_inv v"
proof -
  have "wp (shutdown E) (\<lambda>_ v. uplink_inv v) w"
    unfolding shutdown_def by (rule wp_bind, rule wp_get, rule wp_leave_socks [OF assms(1) refl])
  with assms(2) show ?thesis by (simp add: wp_def)
qed

lemma ul_step_inv:
  assumes "ul_step E marshal resolve w v" and "uplink_inv w" and "\<And>h. only_effects (resolve h)"
  shows "uplink_inv v"
  using assms
proof (cases rule: ul_step.cases)
  case (applies n cfg r)
  from wpD [OF wp_ul_apply [OF assms(2,3)] applies] show ?thesis
    by (auto simp: apply_post_def split: option.splits prod.splits)
next
  case ticks
  from outside_run [OF monitor_outside ticks] show ?thesis using assms(2) by (rule outside_inv)
qed (use assms(2) shutdown_inv finish_inv outside_inv in blast)+

lemma ul_reach_inv:
  assumes "ul_reach E marshal resolve w" and "\<And>h. only_effects (resolve h)"
  shows "uplink_inv w"
  using assms(1)
proof (induction rule: ul_reach.induct)
  case (start w)
  then show ?case by (simp add: uplink_inv_def)
next
  case (step w v)
  then show ?case using assms(2) by (blast intro: ul_step_inv)
qed

section \<open>Properties\<close>

definition resolver_of :: "env \<Rightarrow> string \<Rightarrow> ('z ul_world_scheme, string res) state" where
  "resolver_of E = resolveIPv4 E"

definition idle_world :: ul_world where
  "idle_world = \<lparr>trace = [], w_st = new_store (initial_state ''1'' 0), containerDNS = [], ks_params = ks_defaults,
     ks_backend = [], ks_legacyLogged = False, ul_proc = False, ul_applied = None, ul_probeRun = None, ul_nextRun = 0,
     ul_probes = [], ul_proxyIP = [], ul_gw = [], ul_savedResolv = None\<rparr>"

definition auto_uplink :: uplink_cfg where
  "auto_uplink = \<lparr>ul_mode = ''socks5'', ul_socks5 = zero_socks5\<lparr>sk_host := ''p'', sk_port := 1080, sk_udp := ''auto''\<rparr>\<rparr>"


text \<open>C37: \<open>Apply\<close> returns: with a running clock the wait for sing-box's interface ends within
  \<open>start_fuel\<close> rounds of 200 ms, whatever the process, the routes and the proxy do.\<close>

theorem uplink_apply_returns:
  assumes "ticking E"
  shows "fst (run_state (ul_apply start_fuel E marshal resolve cfg) w) \<noteq> None"
  using apply_enough [OF assms, of marshal resolve cfg] unfolding returns_def by blast

theorem uplink_apply_returns_witness:
  "fst (run_state (ul_apply start_fuel demo_env (\<lambda>_. []) (resolveIPv4 demo_env) auto_uplink) idle_world) \<noteq> None"
  by (rule uplink_apply_returns [OF demo_ticking])

lemma idle_reach: "ul_reach E marshal resolve idle_world"
  by (rule ul_reach.start) (simp_all add: idle_world_def)



definition gw_env :: env where
  "gw_env = ok_env\<lparr>env_exec := (\<lambda>h n as. \<lparr>rr_out = (if as = [''-4'', ''route'', ''show'', ''default'', ''dev'', ''eth0'']
     then ''default via 10.0.0.9 '' else []), rr_exit = 0, rr_err = None\<rparr>)\<rparr>"

lemma gw_detect: "run_state (detectGateway gw_env) w = (Inr ''10.0.0.9'', w\<lparr>trace := trace w @
   [Exec ''ip'' [''-4'', ''route'', ''show'', ''default'', ''dev'', ''eth0'']]\<rparr>)"
  by (simp add: detectGateway_def gw_env_def ok_env_def cut_prefix_def re_space_def)


lemma gw_ok:
  "run_state (linkExists gw_env i) w = (True, w\<lparr>trace := trace w @ [Exec ''ip'' [''link'', ''show'', i]]\<rparr>)"
  "run_state (ipRoute gw_env as) w = (None, w\<lparr>trace := trace w @ [Exec ''ip'' (''route'' # as)]\<rparr>)"
  "run_state (tcpCheck gw_env ip p) w = (True, w\<lparr>trace := trace w @ [Dial (join_host_port ip (int_str p))]\<rparr>)"
  by (simp_all add: linkExists_def ipRoute_def tcpCheck_def gw_env_def ok_env_def)

lemma gw_io: "env_write gw_env h p c = None" "env_read gw_env h p = Inr []" "env_fs gw_env h p as = None"
  by (simp_all add: gw_env_def ok_env_def)

lemma gw_start: "run_state (startProc (Suc n) gw_env) w = (Some None, w\<lparr>ul_proc := True, trace := trace w @
   [FsOp ''start'' [''sing-box'', ''run'', ''-c'', cfgPath], Clock, Exec ''ip'' [''link'', ''show'', TunIface]]\<rparr>)"
  by (simp add: startProc_def gw_ok gw_io)

lemma wp_gw:
  "(\<And>es. Q None (w\<lparr>trace := trace w @ es\<rparr>)) \<Longrightarrow> wp (ipRoute gw_env as) Q w"
  by (simp add: wp_def gw_ok)

lemma wp_gw_write: "(\<And>es. Q None (w\<lparr>trace := trace w @ es\<rparr>)) \<Longrightarrow> wp (do_write gw_env p c) Q w"
  by (simp add: wp_def gw_io)

lemma wp_gw_start: "(\<And>es. Q (Some None) (w\<lparr>ul_proc := True, trace := es\<rparr>)) \<Longrightarrow> wp (startProc (Suc n) gw_env) Q w"
  by (simp add: wp_def gw_start)

lemma wp_gw_bool:
  "(\<And>es. Q True (w\<lparr>trace := trace w @ es\<rparr>)) \<Longrightarrow> wp (tcpCheck gw_env ip p) Q w"
  by (simp add: wp_def gw_ok)

lemma wp_gw_res:
  "(\<And>es. Q (Inr ''10.0.0.9'') (w\<lparr>trace := trace w @ es\<rparr>)) \<Longrightarrow> wp (detectGateway gw_env) Q w"
  "(\<And>es. R (Inr []) (w\<lparr>trace := trace w @ es\<rparr>)) \<Longrightarrow> wp (do_read gw_env p) R w"
  unfolding wp_def by (simp_all add: gw_detect gw_io)

lemma auto_facts: "ul_mode auto_uplink = ''socks5''" "sk_udp (ul_socks5 auto_uplink) = ''auto''"
  "ul_applied idle_world = None" "ul_savedResolv idle_world = None" "ul_probes idle_world = []" "ul_nextRun idle_world = 0"
  by (simp_all add: auto_uplink_def idle_world_def)

lemma gw_socks_up:
  assumes "ul_probes w = []" and "ul_nextRun w = 0"
  shows "wp (socks_up gw_env auto_uplink ip)
    (\<lambda>r v. (\<exists>us. r = Some (us, None)) \<and> ul_probes v = [(0, auto_uplink, ip)] \<and> ul_probeRun v = Some 0) w"
  unfolding socks_up_def startProbe_def Let_def
  by (intro wp_intros) (simp_all add: auto_facts assms)

lemma gw_apply: "wp (ul_apply 1 gw_env (\<lambda>_. []) (\<lambda>h. ret (Inr ''10.0.0.1'')) auto_uplink)
    (\<lambda>r v. (\<exists>us. r = Some (us, None)) \<and> ul_probes v = [(0, auto_uplink, ''10.0.0.1'')] \<and> ul_probeRun v = Some 0) idle_world"
  unfolding ul_apply_def One_nat_def socks_rebuild_def socks_build_def applyRoutes_def check_def Let_def
  by ((rule wp_bind wp_get wp_modify wp_return gw_socks_up wp_gw wp_gw_write wp_gw_start wp_gw_bool wp_gw_res)
    | simp add: auto_facts)+

definition gw_applied :: ul_world where
  "gw_applied = snd (run_state (ul_apply 1 gw_env (\<lambda>_. []) (\<lambda>h. ret (Inr ''10.0.0.1'')) auto_uplink) idle_world)"

definition gw_shown :: ul_world where
  "gw_shown = gw_applied\<lparr>w_st :=
     update (\<lambda>s. s\<lparr>s_uplink := (s_uplink s)\<lparr>u_mode := ''socks5'', u_udpSupported := TriUnknown\<rparr>\<rparr>) (w_st gw_applied)\<rparr>"

lemma gw_shown_reach: "ul_reach gw_env (\<lambda>_. []) (\<lambda>h. ret (Inr ''10.0.0.1'')) gw_shown"
  and gw_shown_probes: "ul_probes gw_shown = [(0, auto_uplink, ''10.0.0.1'')]" "ul_probeRun gw_shown = Some 0"
proof -
  obtain r u where r: "run_state (ul_apply 1 gw_env (\<lambda>_. []) (\<lambda>h. ret (Inr ''10.0.0.1'')) auto_uplink) idle_world = (r, u)"
    by fastforce
  then have u: "gw_applied = u" by (simp only: gw_applied_def snd_conv)
  from wpD [OF gw_apply r] obtain us where us: "r = Some (us, None)"
    and p: "ul_probes u = [(0, auto_uplink, ''10.0.0.1'')]" "ul_probeRun u = Some 0"
    by blast
  from ul_reach.step [OF idle_reach ul_step.applies [OF r [unfolded us]]]
  have "ul_reach gw_env (\<lambda>_. []) (\<lambda>h. ret (Inr ''10.0.0.1'')) gw_applied" by (simp only: u)
  then show "ul_reach gw_env (\<lambda>_. []) (\<lambda>h. ret (Inr ''10.0.0.1'')) gw_shown"
    by (rule ul_reach.step [OF _ ul_step.others]) (simp add: outside_def gw_shown_def)
  show "ul_probes gw_shown = [(0, auto_uplink, ''10.0.0.1'')]" "ul_probeRun gw_shown = Some 0"
    by (simp_all add: gw_shown_def u p)
qed


definition is_write :: "event \<Rightarrow> bool" where
  "is_write e \<longleftrightarrow> (\<exists>p c. e = WriteFile p c)"

lemma no_writes:
  "emits (\<lambda>e. \<not> is_write e) (stopProc E)" "emits (\<lambda>e. \<not> is_write e) (restoreHostRoutes E ip gw)"
  unfolding stopProc_def restoreHostRoutes_def check_def ipRoute_def is_write_def
  by (intro emit_intros; simp)+

lemma teardown_writes:
  assumes "ul_savedResolv v = Some saved"
  shows "\<exists>es. trace (snd (run_state (teardown E) v)) = trace v @ es \<and> filter is_write es = [WriteFile resolvConfPath saved]"
proof -
  obtain x where x: "run_state (stopProc E) v = ((), x)" by (metis (full_types) old.unit.exhaust prod.exhaust)
  have "wp (stopProc E) (\<lambda>_ x. proc_to False v x) v" by (rule wp_stopProc)
  from wpD [OF this x] have same: "proc_to False v x" .
  obtain es where es: "trace x = trace v @ es" "list_all (\<lambda>e. \<not> is_write e) es"
    using no_writes(1) x unfolding emits_def by (metis snd_conv)
  define y where "y = x\<lparr>trace := trace x @ [WriteFile resolvConfPath saved], ul_savedResolv := None\<rparr>"
  obtain f z where z: "run_state (restoreHostRoutes E (ul_proxyIP x) (ul_gw x)) y = (f, z)" by fastforce
  obtain fs where fs: "trace z = trace y @ fs" "list_all (\<lambda>e. \<not> is_write e) fs"
    using no_writes(2) z unfolding emits_def by (metis snd_conv)
  have none: "filter is_write es = []" "filter is_write fs = []"
    using es(2) fs(2) by (simp_all add: filter_empty_conv list_all_iff)
  have y: "trace y = trace v @ es @ [WriteFile resolvConfPath saved]" "ul_gw y = ul_gw x" "ul_proxyIP y = ul_proxyIP x"
    by (simp_all add: y_def es(1))
  have "ul_savedResolv x = Some saved" using same assms by (simp add: proc_to_def)
  then have "run_state (restoreResolvConf E (ul_savedResolv x)) x =
      (map_option PlainError (env_write E (trace x) resolvConfPath saved), x\<lparr>trace := trace x @ [WriteFile resolvConfPath saved]\<rparr>)"
    by (simp add: restoreResolvConf_def)
  with x z y \<open>ul_savedResolv x = Some saved\<close>
  have "trace (snd (run_state (teardown E) v)) = (if ul_gw x \<noteq> [] then trace z else trace y)"
    by (simp add: teardown_def y_def [symmetric])
  then have "trace (snd (run_state (teardown E) v)) = trace v @ es @ WriteFile resolvConfPath saved #
      (if ul_gw x \<noteq> [] then fs else [])"
    by (simp add: fs(1) y(1))
  with none show ?thesis
    by (auto simp: is_write_def)
qed

text \<open>Also: A SOCKS5 uplink gives the resolver back: if the redirection read \<open>saved\<close> from resolv.conf, the
  teardown writes exactly \<open>saved\<close> to it and nothing else to any file, whatever happened in between.\<close>

theorem resolv_conf_restored:
  assumes "ul_savedResolv w = None" and "env_read E (trace w) resolvConfPath = Inr saved"
    and "env_write E (trace w @ [ReadFile resolvConfPath]) resolvConfPath redirected_text = None"
    and "run_state (socks_up E cfg ip) w = (r, u)" and "ul_savedResolv v = ul_savedResolv u"
  shows "\<exists>es. trace (snd (run_state (teardown E) v)) = trace v @ es \<and>
    filter is_write es = [WriteFile resolvConfPath saved]"
  using assms by (intro teardown_writes)
    (auto simp: socks_up_def redirectResolvConf_def startProbe_def Let_def split: if_splits)

theorem resolv_conf_restored_witness:
  "\<exists>es. trace (snd (run_state (teardown ok_env) (snd (run_state (socks_up ok_env auto_uplink ''10.0.0.1'') idle_world)))) =
     trace (snd (run_state (socks_up ok_env auto_uplink ''10.0.0.1'') idle_world)) @ es \<and>
   filter is_write es = [WriteFile resolvConfPath []]"
  by (rule resolv_conf_restored [where w = idle_world and cfg = auto_uplink and ip = "''10.0.0.1''", OF _ _ _ surjective_pairing refl])
    (simp_all add: idle_world_def ok_env_def)

end
