(* ===== verification/Reconciler.thy ===== *)
theory Reconciler
  imports Uplink Config_Store
begin

text \<open>
  The reconciler (\<open>internal/reconciler/reconciler.go\<close>): one pass compares the configuration and
  the desired state with what has been applied and brings the kill switch, the uplink, the
  settings and the connection up to date, in this order; failures of the connection are retried
  with a backoff. The layers are drivers, a record of operations as in the code; they are
  instantiated by the models of the kill switch, the uplink and the ExpressVPN manager.
  \<open>rc_calls\<close> and \<open>rc_timers\<close> are ghosts: the calls of the drivers with their outcomes, and the
  timers that will wake the loop.
\<close>

section \<open>State\<close>

record connSpec =
  cn_Location :: string
  cn_Protocol :: string

datatype rcall =
    KsApply uplink_cfg bool
  | UplinkApply uplink_cfg bool
  | Settings expressvpn_cfg bool
  | WaitUDP tristate
  | Connect string string bool
  | Disconnect bool

record rec_world = ul_world +
  rc_cfg :: config
  rc_appliedKS :: "uplink_cfg option"
  rc_appliedUplink :: "uplink_cfg option"
  rc_appliedEVPN :: "expressvpn_cfg option"
  rc_appliedConn :: "connSpec option"
  rc_failures :: nat
  rc_nextRetry :: "int option"
  rc_force :: string
  rc_wake :: bool
  rc_calls :: "rcall list"
  rc_timers :: "int list"

text \<open>\<open>XVPNDriver\<close>, \<open>UplinkDriver\<close>, \<open>KillswitchDriver\<close>.\<close>

record 'w drivers =
  d_connect :: "string \<Rightarrow> string \<Rightarrow> ('w, go_error option) state"
  d_disconnect :: "('w, go_error option) state"
  d_settings :: "expressvpn_cfg \<Rightarrow> ('w, go_error option) state"
  d_uplink :: "uplink_cfg \<Rightarrow> ('w, uplink_st \<times> go_error option) state"
  d_waitUDP :: "('w, tristate) state"
  d_killswitch :: "uplink_cfg \<Rightarrow> ('w, go_error option) state"

definition maxReconnectFailures :: nat where
  "maxReconnectFailures = 10"

definition ghost :: "rcall \<Rightarrow> ('z rec_world_scheme, unit) state" where
  "ghost c = modify (\<lambda>w. w\<lparr>rc_calls := rc_calls w @ [c]\<rparr>)"

definition rec_fail :: "env \<Rightarrow> string \<Rightarrow> go_error \<Rightarrow> ('z st_world_scheme, unit) state" where
  "rec_fail E code err = do {
     now \<leftarrow> do_clock E;
     st_update (set_last_error (Some \<lparr>er_code = code, er_message = err_text err, er_at = now\<rparr>))
   }"

definition errCode :: "go_error \<Rightarrow> string \<Rightarrow> string" where
  "errCode e d = (case as_cli e of Some (code, _) \<Rightarrow> code | None \<Rightarrow> d)"

text \<open>\<open>wake\<close> has a buffer of one: a second signal is dropped.\<close>

definition wake :: "('z rec_world_scheme, unit) state" where
  "wake = modify (\<lambda>w. w\<lparr>rc_wake := True\<rparr>)"

definition forgetConnection :: "string \<Rightarrow> ('z rec_world_scheme, unit) state" where
  "forgetConnection reason = modify (\<lambda>w. w\<lparr>rc_force := reason\<rparr>)"

definition resetRetries :: "('z rec_world_scheme, unit) state" where
  "resetRetries = do { modify (\<lambda>w. w\<lparr>rc_failures := 0, rc_nextRetry := None\<rparr>); wake }"

section \<open>The layers\<close>

text \<open>The first three steps; the result is whether the pass goes on.\<close>

definition ks_step :: "env \<Rightarrow> 'z rec_world_scheme drivers \<Rightarrow> uplink_cfg \<Rightarrow> ('z rec_world_scheme, bool) state" where
  "ks_step E D cfg = do {
     w \<leftarrow> getw;
     (if rc_appliedKS w = Some cfg then ret True
      else do {
        e \<leftarrow> d_killswitch D cfg;
        ghost (KsApply cfg (e = None));
        (case e of
           Some err \<Rightarrow> do {
             rec_fail E ''killswitch_failed'' err;
             st_update (set_ks_active False);
             ret False
           }
         | None \<Rightarrow> do {
             modify (\<lambda>w. w\<lparr>rc_appliedKS := Some cfg\<rparr>);
             st_update (set_ks_active True);
             ret True
           })
      })
   }"

definition show_applying :: "uplink_cfg \<Rightarrow> snapshot \<Rightarrow> snapshot" where
  "show_applying cfg s =
     (let s = s\<lparr>s_uplink := (s_uplink s)\<lparr>u_mode := ul_mode cfg, u_status := UplinkUnknown, u_reason := ''applying'',
          u_udpSupported := TriUnknown\<rparr>\<rparr>
      in if s_desired s = DesiredConnected \<and> conn_of s = ConnConnected then set_conn ConnReconnecting s else s)"

definition show_uplink :: "uplink_st \<Rightarrow> snapshot \<Rightarrow> snapshot" where
  "show_uplink us s = s\<lparr>s_uplink :=
     (if u_udpSupported us = TriUnknown then us\<lparr>u_udpSupported := u_udpSupported (s_uplink s)\<rparr> else us)\<rparr>"

definition uplink_step ::
  "env \<Rightarrow> 'z rec_world_scheme drivers \<Rightarrow> uplink_cfg \<Rightarrow> snapshot \<Rightarrow> ('z rec_world_scheme, bool) state" where
  "uplink_step E D cfg s = do {
     w \<leftarrow> getw;
     (if rc_appliedUplink w = Some cfg then ret True
      else do {
        st_update (show_applying cfg);
        (if s_desired s = DesiredConnected \<and> rc_appliedUplink w \<noteq> None then forgetConnection ''uplink_changed'' else ret ());
        (us, e) \<leftarrow> d_uplink D cfg;
        ghost (UplinkApply cfg (e = None));
        (case e of
           Some err \<Rightarrow> do {
             rec_fail E ''uplink_failed'' err;
             st_update (\<lambda>s. s\<lparr>s_uplink := us\<rparr>);
             ret False
           }
         | None \<Rightarrow> do {
             modify (\<lambda>w. w\<lparr>rc_appliedUplink := Some cfg\<rparr>);
             st_update (show_uplink us);
             ret True
           })
      })
   }"

definition settings_step :: "env \<Rightarrow> 'z rec_world_scheme drivers \<Rightarrow> expressvpn_cfg \<Rightarrow> ('z rec_world_scheme, unit) state" where
  "settings_step E D cfg = do {
     w \<leftarrow> getw;
     (if rc_appliedEVPN w = Some cfg then ret ()
      else do {
        e \<leftarrow> d_settings D cfg;
        ghost (Settings cfg (e = None));
        (case e of
           Some err \<Rightarrow> rec_fail E ''expressvpn_settings_failed'' err
         | None \<Rightarrow> modify (\<lambda>w. w\<lparr>rc_appliedEVPN := Some cfg\<rparr>))
      })
   }"

section \<open>The connection\<close>

definition connectReason :: "string \<Rightarrow> connection \<Rightarrow> connSpec option \<Rightarrow> connSpec \<Rightarrow> string" where
  "connectReason force conn applied want =
     (if force \<noteq> [] then force
      else if conn = ConnConnected \<and> applied \<noteq> None \<and> map_option cn_Location applied \<noteq> Some (cn_Location want)
      then ''location_changed''
      else if conn = ConnConnected then ''protocol_changed''
      else if conn = ConnReconnecting then ''connection_lost''
      else if conn = ConnError then ''retry''
      else ''connect'')"

definition locationOrSmart :: "string \<Rightarrow> string" where
  "locationOrSmart loc = (if loc = [] then ''smart'' else loc)"

definition backoff :: "nat \<Rightarrow> int" where
  "backoff n = (let b = seconds 1 * 2 ^ (n - 1) in if seconds 60 < b then seconds 60 else b)"

definition onConnectFailure :: "env \<Rightarrow> 'z rec_world_scheme drivers \<Rightarrow> go_error \<Rightarrow> ('z rec_world_scheme, unit) state" where
  "onConnectFailure E D err = do {
     modify (\<lambda>w. w\<lparr>rc_failures := Suc (rc_failures w)\<rparr>);
     w \<leftarrow> getw;
     let n = rc_failures w;
     (if n < maxReconnectFailures then do {
        now \<leftarrow> do_clock E;
        modify (\<lambda>w. w\<lparr>rc_nextRetry := Some (now + backoff n)\<rparr>)
      } else ret ());
     d \<leftarrow> d_disconnect D;
     ghost (Disconnect (d = None));
     (if maxReconnectFailures \<le> n then do {
        rec_fail E ''reconnect_exhausted'' err;
        st_update (set_conn ConnError)
      } else do {
        rec_fail E (errCode err ''connect_failed'') err;
        st_update (set_conn ConnError);
        modify (\<lambda>w. w\<lparr>rc_timers := rc_timers w @ [backoff n]\<rparr>)
      })
   }"

definition show_connecting :: "snapshot \<Rightarrow> snapshot" where
  "show_connecting s =
     (if conn_of s = ConnConnected then set_conn ConnReconnecting s
      else if conn_of s \<noteq> ConnReconnecting then set_conn ConnConnecting s else s)"

definition show_connected :: "string \<Rightarrow> snapshot \<Rightarrow> snapshot" where
  "show_connected location s =
     (let s = set_conn ConnConnected s;
          s = (if location \<noteq> [] then s\<lparr>s_expressvpn := (s_expressvpn s)\<lparr>x_location := location\<rparr>\<rparr> else s)
      in set_last_error None s)"

text \<open>The wait for the probe of a new uplink, before the protocol is chosen.\<close>

definition await_udp :: "'z rec_world_scheme drivers \<Rightarrow> uplink_cfg \<Rightarrow> ('z rec_world_scheme, tristate) state" where
  "await_udp D ul = do {
     s \<leftarrow> st_get;
     let udp = u_udpSupported (s_uplink s);
     (if ul_mode ul = ''socks5'' \<and> sk_udp (ul_socks5 ul) = ''auto'' \<and> udp = TriUnknown
      then do {
        v \<leftarrow> d_waitUDP D;
        ghost (WaitUDP v);
        (if v \<noteq> TriUnknown then do { st_update (set_udp v); ret v } else ret udp)
      }
      else ret udp)
   }"

definition prepare_connect ::
  "'z rec_world_scheme drivers \<Rightarrow> config \<Rightarrow> connSpec \<Rightarrow> ('z rec_world_scheme, string) state" where
  "prepare_connect D c want = do {
     let requested = (if cn_Protocol want = [] then ''auto'' else cn_Protocol want);
     st_update show_connecting;
     udp \<leftarrow> await_udp D (cf_uplink c);
     let (effective, reason) = EffectiveProtocol requested (ul_mode (cf_uplink c)) udp;
     st_update (\<lambda>s. s\<lparr>s_expressvpn := (s_expressvpn s)\<lparr>x_protocol :=
       \<lparr>pr_requested = requested, pr_effective = effective, pr_reason = reason\<rparr>\<rparr>\<rparr>);
     ret effective
   }"

definition attempt_connect ::
  "env \<Rightarrow> 'z rec_world_scheme drivers \<Rightarrow> config \<Rightarrow> connSpec \<Rightarrow> ('z rec_world_scheme, unit) state" where
  "attempt_connect E D c want = do {
     effective \<leftarrow> prepare_connect D c want;
     e \<leftarrow> d_connect D (cn_Location want) effective;
     ghost (Connect (cn_Location want) effective (e = None));
     (case e of
        Some err \<Rightarrow> onConnectFailure E D err
      | None \<Rightarrow> do {
          modify (\<lambda>w. w\<lparr>rc_failures := 0, rc_nextRetry := None, rc_appliedConn := Some want\<rparr>);
          st_update (show_connected (cn_Location want))
        })
   }"

definition connect_step :: "env \<Rightarrow> 'z rec_world_scheme drivers \<Rightarrow> config \<Rightarrow> ('z rec_world_scheme, unit) state" where
  "connect_step E D c = do {
     s \<leftarrow> st_get;
     let want = \<lparr>cn_Location = ev_location (cf_expressvpn c), cn_Protocol = ev_protocol (cf_expressvpn c)\<rparr>;
     (case s_desired s of
        DesiredConnected \<Rightarrow> do {
          w \<leftarrow> getw;
          let force = (rc_force w \<noteq> []);
          modify (\<lambda>w. w\<lparr>rc_force := []\<rparr>);
          let exhausted = (maxReconnectFailures \<le> rc_failures w);
          now \<leftarrow> do_clock E;
          let retryDue = (case rc_nextRetry w of None \<Rightarrow> True | Some t \<Rightarrow> t < now);
          let needsConnect = (force \<or> conn_of s \<in> {ConnDisconnected, ConnReconnecting, ConnError} \<or>
            (rc_appliedConn w \<noteq> None \<and> rc_appliedConn w \<noteq> Some want \<and> conn_of s = ConnConnected));
          (if \<not> needsConnect then ret ()
           else if \<not> force \<and> (exhausted \<or> \<not> retryDue) then ret ()
           else attempt_connect E D c want)
        }
      | DesiredDisconnected \<Rightarrow>
          (if conn_of s \<in> {ConnConnected, ConnConnecting, ConnReconnecting} then do {
             e \<leftarrow> d_disconnect D;
             ghost (Disconnect (e = None));
             (case e of
                Some err \<Rightarrow> rec_fail E ''disconnect_failed'' err
              | None \<Rightarrow> do {
                  modify (\<lambda>w. w\<lparr>rc_appliedConn := None\<rparr>);
                  st_update (set_conn ConnDisconnected)
                })
           } else ret ()))
   }"

definition reconcile :: "env \<Rightarrow> 'z rec_world_scheme drivers \<Rightarrow> ('z rec_world_scheme, unit) state" where
  "reconcile E D = do {
     w \<leftarrow> getw;
     let c = rc_cfg w;
     s \<leftarrow> st_get;
     on \<leftarrow> ks_step E D (cf_uplink c);
     (if \<not> on then ret ()
      else do {
        on \<leftarrow> uplink_step E D (cf_uplink c) s;
        (if \<not> on then ret ()
         else do {
           settings_step E D (cf_expressvpn c);
           connect_step E D c
         })
      })
   }"

text \<open>The loop, at most \<open>n\<close> rounds: a wait ends by the context, a wake-up or the tick.\<close>

fun rec_loop :: "nat \<Rightarrow> env \<Rightarrow> 'z rec_world_scheme drivers \<Rightarrow> ('z rec_world_scheme, unit) state" where
  "rec_loop 0 E D = ret ()"
| "rec_loop (Suc n) E D = do {
     over \<leftarrow> do_sleep E (seconds 30);
     (if over then ret ()
      else do {
        tick \<leftarrow> do_flag E ''tick'';
        (if tick then ret () else modify (\<lambda>w. w\<lparr>rc_wake := False\<rparr>));
        reconcile E D;
        rec_loop n E D
      })
   }"

definition rec_run :: "nat \<Rightarrow> env \<Rightarrow> 'z rec_world_scheme drivers \<Rightarrow> ('z rec_world_scheme, unit) state" where
  "rec_run n E D = do { reconcile E D; rec_loop n E D }"

section \<open>The agent's drivers\<close>

text \<open>The operations that wait have a fuel and answer \<open>None\<close> when it runs out; the driver reports
  that as an error, which does not happen with enough fuel. While the reconciler waits for a UDP
  probe, the probe may answer.\<close>

definition hung :: go_error where
  "hung = PlainError ''still running''"

definition settled :: "'a \<Rightarrow> ('s, 'a option) state \<Rightarrow> ('s, 'a) state" where
  "settled d m = do { r \<leftarrow> m; ret (case r of Some a \<Rightarrow> a | None \<Rightarrow> d) }"

definition wait_probe :: "env \<Rightarrow> ('z ul_world_scheme, tristate) state" where
  "wait_probe E = do {
     answered \<leftarrow> do_flag E ''probe answered'';
     supported \<leftarrow> do_flag E ''probe verdict'';
     w \<leftarrow> getw;
     (if answered then (case ul_probeRun w of Some run \<Rightarrow> probe_finish run supported | None \<Rightarrow> ret ()) else ret ());
     waitUDP answered
   }"

definition agent_drivers ::
  "nat \<Rightarrow> env \<Rightarrow> timings \<Rightarrow> (json \<Rightarrow> string) \<Rightarrow> ((string \<times> bool) list \<Rightarrow> (string \<times> bool) list) \<Rightarrow>
   'z rec_world_scheme drivers" where
  "agent_drivers n E T marshal pick = \<lparr>
     d_connect = (\<lambda>loc proto. settled (Some hung) (xv_Connect n E T loc proto)),
     d_disconnect = settled (Some hung) (xv_Disconnect n E T),
     d_settings = applySettings E pick,
     d_uplink = (\<lambda>cfg. settled (downState cfg [] ''engine_failed'', Some hung) (ul_apply n E marshal (resolveIPv4 E) cfg)),
     d_waitUDP = wait_probe E,
     d_killswitch = ks_apply E (resolveIPv4 E)\<rparr>"

section \<open>What the drivers may touch\<close>

text \<open>A driver operation leaves the reconciler's own fields alone, and of the published state the
  desired connection, the connection and the kill switch flag: these the reconciler writes itself.\<close>

definition own_fields :: "'z rec_world_scheme \<Rightarrow>
  config \<times> uplink_cfg option \<times> uplink_cfg option \<times> expressvpn_cfg option \<times> connSpec option \<times> nat \<times> int option \<times>
  string \<times> bool \<times> rcall list \<times> int list" where
  "own_fields w = (rc_cfg w, rc_appliedKS w, rc_appliedUplink w, rc_appliedEVPN w, rc_appliedConn w, rc_failures w,
     rc_nextRetry w, rc_force w, rc_wake w, rc_calls w, rc_timers w)"

definition shown :: "'z st_world_scheme \<Rightarrow> desired_connection \<times> connection \<times> bool" where
  "shown w = (s_desired (snap_of w), conn_of (snap_of w), k_active (s_killswitch (snap_of w)))"

definition owned :: "('z rec_world_scheme, 'a) state \<Rightarrow> bool" where
  "owned m \<longleftrightarrow> keeps own_fields m \<and> keeps shown m \<and> extending m"

lemma wp_owned:
  assumes "owned m"
    and "\<And>a v es. own_fields v = own_fields w \<Longrightarrow> shown v = shown w \<Longrightarrow> trace v = trace w @ es \<Longrightarrow> Q a v"
  shows "wp m Q w"
proof -
  obtain a v where r: "run_state m w = (a, v)" by fastforce
  from assms(1) r have "own_fields v = own_fields w" "shown v = shown w" "\<exists>es. trace v = trace w @ es"
    by (auto simp: owned_def keeps_def extending_def) (metis snd_conv)+
  with assms(2) r show ?thesis by (auto simp: wp_def)
qed

lemma wp_clock: "Q (env_clock E (trace w)) (w\<lparr>trace := trace w @ [Clock]\<rparr>) \<Longrightarrow> wp (do_clock E) Q w"
  by (simp add: wp_def)

locale layer_drivers =
  fixes D :: "'z rec_world_scheme drivers"
  assumes connect_owned: "owned (d_connect D location protocol)"
    and disconnect_owned: "owned (d_disconnect D)"
    and settings_owned: "owned (d_settings D ev)"
    and uplink_owned: "owned (d_uplink D ul)"
    and wait_owned: "owned (d_waitUDP D)"
    and killswitch_owned: "owned (d_killswitch D ul)"
begin

lemmas wp_drivers = connect_owned [THEN wp_owned] disconnect_owned [THEN wp_owned] settings_owned [THEN wp_owned]
  uplink_owned [THEN wp_owned] wait_owned [THEN wp_owned] killswitch_owned [THEN wp_owned]

end

definition passed :: "rcall list \<Rightarrow> 'z rec_world_scheme \<Rightarrow> 'z rec_world_scheme \<Rightarrow> bool" where
  "passed cs w v \<longleftrightarrow> rc_cfg v = rc_cfg w \<and> rc_calls v = rc_calls w @ cs \<and> s_desired (snap_of v) = s_desired (snap_of w) \<and>
     (\<exists>es. trace v = trace w @ es)"

definition conn_fields :: "'z rec_world_scheme \<Rightarrow> connSpec option \<times> nat \<times> int option \<times> int list" where
  "conn_fields w = (rc_appliedConn w, rc_failures w, rc_nextRetry w, rc_timers w)"

lemma passed_refl: "passed [] w w"
  by (simp add: passed_def)

lemma passed_trans: "passed cs w u \<Longrightarrow> passed ds u v \<Longrightarrow> passed (cs @ ds) w v"
  by (auto simp: passed_def)

lemmas pass_defs = passed_def own_fields_def shown_def conn_fields_def

text \<open>What each of the first three steps does.\<close>

definition ks_done :: "uplink_cfg \<Rightarrow> bool \<Rightarrow> 'z rec_world_scheme \<Rightarrow> 'z rec_world_scheme \<Rightarrow> bool" where
  "ks_done cfg on w v \<longleftrightarrow> (let cs = (if rc_appliedKS w = Some cfg then [] else [KsApply cfg on]) in
     passed cs w v \<and> conn_fields v = conn_fields w \<and> conn_of (snap_of v) = conn_of (snap_of w) \<and>
     rc_appliedUplink v = rc_appliedUplink w \<and> rc_force v = rc_force w \<and>
     rc_appliedKS v = (if on then Some cfg else rc_appliedKS w) \<and> (\<not> on \<longrightarrow> rc_appliedKS w \<noteq> Some cfg) \<and>
     k_active (s_killswitch (snap_of v)) = (if cs = [] then k_active (s_killswitch (snap_of w)) else on))"

definition uplink_done :: "uplink_cfg \<Rightarrow> bool \<Rightarrow> 'z rec_world_scheme \<Rightarrow> 'z rec_world_scheme \<Rightarrow> bool" where
  "uplink_done cfg on w v \<longleftrightarrow> passed (if rc_appliedUplink w = Some cfg then [] else [UplinkApply cfg on]) w v \<and>
     conn_fields v = conn_fields w \<and>
     (conn_of (snap_of v) = conn_of (snap_of w) \<or> conn_of (snap_of w) = ConnConnected \<and> conn_of (snap_of v) = ConnReconnecting) \<and>
     k_active (s_killswitch (snap_of v)) = k_active (s_killswitch (snap_of w)) \<and> rc_appliedKS v = rc_appliedKS w \<and>
     rc_appliedUplink v = (if on then Some cfg else rc_appliedUplink w) \<and> (\<not> on \<longrightarrow> rc_appliedUplink w \<noteq> Some cfg) \<and>
     (rc_appliedUplink w = Some cfg \<longrightarrow> rc_force v = rc_force w)"

definition settings_done :: "expressvpn_cfg \<Rightarrow> 'z rec_world_scheme \<Rightarrow> 'z rec_world_scheme \<Rightarrow> bool" where
  "settings_done ev w v \<longleftrightarrow> (\<exists>cs. passed cs w v \<and> (cs = [] \<or> (\<exists>ok. cs = [Settings ev ok]))) \<and>
     conn_fields v = conn_fields w \<and> shown v = shown w \<and>
     rc_appliedKS v = rc_appliedKS w \<and> rc_appliedUplink v = rc_appliedUplink w \<and> rc_force v = rc_force w"

text \<open>What one attempt to connect does: the wait for the probe if there is one, the connect with the
  effective protocol, and after a failure the disconnect, the count and the backoff.\<close>

definition pass_frame :: "'z rec_world_scheme \<Rightarrow> 'z rec_world_scheme \<Rightarrow> bool" where
  "pass_frame w v \<longleftrightarrow> k_active (s_killswitch (snap_of v)) = k_active (s_killswitch (snap_of w)) \<and>
     rc_appliedKS v = rc_appliedKS w \<and> rc_appliedUplink v = rc_appliedUplink w"

definition attempted :: "config \<Rightarrow> connSpec \<Rightarrow> tristate \<Rightarrow> bool \<Rightarrow> rcall list \<Rightarrow> bool" where
  "attempted c want udp ok cs \<longleftrightarrow> (\<exists>d. let p = fst (EffectiveProtocol (cn_Protocol want) (ul_mode (cf_uplink c)) udp) in
     cs \<in> (\<lambda>ws. ws @ Connect (cn_Location want) p ok # (if ok then [] else [Disconnect d])) ` {[], [WaitUDP udp]})"

definition succeeded :: "connSpec \<Rightarrow> 'z rec_world_scheme \<Rightarrow> 'z rec_world_scheme \<Rightarrow> bool" where
  "succeeded want w v \<longleftrightarrow> conn_of (snap_of v) = ConnConnected \<and> rc_failures v = 0 \<and> rc_nextRetry v = None \<and>
     rc_appliedConn v = Some want \<and> rc_timers v = rc_timers w"

text \<open>\<open>t\<close> is a reading of the clock between two states.\<close>

definition read_clock :: "env \<Rightarrow> 'z world_scheme \<Rightarrow> 'z world_scheme \<Rightarrow> int \<Rightarrow> bool" where
  "read_clock E w v t \<longleftrightarrow> (\<exists>h. prefix (trace w) h \<and> prefix h (trace v) \<and> t = env_clock E h)"

lemma read_clockI: "trace v = trace w @ es \<Longrightarrow> read_clock E w v (env_clock E (trace w))"
  by (auto simp: read_clock_def)

lemma read_clock_later: "trace u = trace w @ es \<Longrightarrow> read_clock E u v t \<Longrightarrow> read_clock E w v t"
  by (auto simp: read_clock_def dest: append_prefixD)

definition failed :: "env \<Rightarrow> 'z rec_world_scheme \<Rightarrow> 'z rec_world_scheme \<Rightarrow> bool" where
  "failed E w v \<longleftrightarrow> conn_of (snap_of v) = ConnError \<and> rc_appliedConn v = rc_appliedConn w \<and>
     rc_failures v = Suc (rc_failures w) \<and>
     (if Suc (rc_failures w) < maxReconnectFailures
      then (\<exists>t. read_clock E w v t \<and> rc_nextRetry v = Some (t + backoff (Suc (rc_failures w)))) \<and>
           rc_timers v = rc_timers w @ [backoff (Suc (rc_failures w))]
      else rc_nextRetry v = rc_nextRetry w \<and> rc_timers v = rc_timers w)"

lemma show_simps [simp]:
  "s_desired (show_connecting s) = s_desired s" "s_killswitch (show_connecting s) = s_killswitch s"
  "s_uplink (show_connecting s) = s_uplink s"
  "s_desired (show_connected l s) = s_desired s" "s_killswitch (show_connected l s) = s_killswitch s"
  "conn_of (show_connected l s) = ConnConnected"
  by (simp_all add: show_connecting_def show_connected_def Let_def)

lemma effective_auto: "EffectiveProtocol (if p = [] then ''auto'' else p) m u = EffectiveProtocol p m u"
  by (simp add: EffectiveProtocol_def)

context layer_drivers
begin

lemma ks_step_wp: "wp (ks_step E D cfg) (\<lambda>on v. ks_done cfg on w v) w"
  unfolding ks_step_def ghost_def rec_fail_def
  by (intro wp_bind wp_get wp_cases wp_return wp_modify wp_st_update wp_effects wp_drivers)
    (auto simp: ks_done_def pass_defs)

lemma uplink_step_wp: "wp (uplink_step E D cfg s) (\<lambda>on v. uplink_done cfg on w v) w"
  unfolding uplink_step_def ghost_def rec_fail_def forgetConnection_def
  by (intro wp_bind wp_get wp_cases wp_return wp_modify wp_st_update wp_effects wp_drivers)
    (auto simp: uplink_done_def pass_defs show_applying_def show_uplink_def Let_def)

lemma settings_step_wp: "wp (settings_step E D ev) (\<lambda>_ v. settings_done ev w v) w"
  unfolding settings_step_def ghost_def rec_fail_def
  by (intro wp_bind wp_get wp_cases wp_return wp_modify wp_st_update wp_effects wp_drivers)
    (auto simp: settings_done_def pass_defs)

lemma failure_wp:
  "wp (onConnectFailure E D err) (\<lambda>_ v. \<exists>d. passed [Disconnect d] w v \<and> conn_of (snap_of v) = ConnError \<and>
     k_active (s_killswitch (snap_of v)) = k_active (s_killswitch (snap_of w)) \<and>
     rc_appliedKS v = rc_appliedKS w \<and> rc_appliedUplink v = rc_appliedUplink w \<and> rc_force v = rc_force w \<and>
     rc_appliedConn v = rc_appliedConn w \<and> rc_failures v = Suc (rc_failures w) \<and>
     (if Suc (rc_failures w) < maxReconnectFailures
      then rc_nextRetry v = Some (env_clock E (trace w) + backoff (Suc (rc_failures w))) \<and>
           rc_timers v = rc_timers w @ [backoff (Suc (rc_failures w))]
      else rc_nextRetry v = rc_nextRetry w \<and> rc_timers v = rc_timers w)) w"
  unfolding onConnectFailure_def ghost_def rec_fail_def Let_def
  by (intro wp_bind wp_get wp_cases wp_return wp_modify wp_st_update wp_clock wp_drivers)
    (auto simp: pass_defs)

lemma await_wp:
  "wp (await_udp D ul) (\<lambda>udp v. \<exists>cs. passed cs w v \<and> shown v = shown w \<and> conn_fields v = conn_fields w \<and>
     rc_appliedKS v = rc_appliedKS w \<and> rc_appliedUplink v = rc_appliedUplink w \<and> rc_force v = rc_force w \<and>
     (cs = [] \<and> udp = u_udpSupported (s_uplink (snap_of w)) \<or> cs = [WaitUDP udp])) w"
  unfolding await_udp_def ghost_def Let_def
  by (intro wp_bind wp_get wp_cases wp_return wp_modify wp_st_update wp_st_get wp_drivers)
    (auto simp: pass_defs)


lemma prepare_wp:
  "wp (prepare_connect D c want) (\<lambda>p v. \<exists>cs udp. passed cs w v \<and> pass_frame w v \<and> conn_fields v = conn_fields w \<and>
     rc_force v = rc_force w \<and> cs \<in> {[], [WaitUDP udp]} \<and>
     (cs = [] \<longrightarrow> udp = u_udpSupported (s_uplink (snap_of w))) \<and>
     p = fst (EffectiveProtocol (cn_Protocol want) (ul_mode (cf_uplink c)) udp)) w"
  unfolding prepare_connect_def Let_def
  by (intro wp_bind wp_cases wp_return wp_st_update await_wp [THEN wp_mono])
    (auto simp: pass_defs pass_frame_def effective_auto)

lemma connect_call_wp:
  "wp (d_connect D l p \<bind> (\<lambda>e. ghost (Connect l p (e = None)) \<bind> (\<lambda>_. f e)))
     Q w" if "\<And>e v. passed [Connect l p (e = None)] w v \<Longrightarrow> shown v = shown w \<Longrightarrow> pass_frame w v \<Longrightarrow>
       conn_fields v = conn_fields w \<Longrightarrow> rc_force v = rc_force w \<Longrightarrow> wp (f e) Q v"
  unfolding ghost_def
  by (intro wp_bind wp_modify wp_drivers that) (auto simp: pass_defs pass_frame_def)

end

lemma frames_trans:
  "pass_frame w u \<Longrightarrow> pass_frame u v \<Longrightarrow> pass_frame w v"
  "succeeded want u v \<Longrightarrow> conn_fields u = conn_fields w \<Longrightarrow> succeeded want w v"
  by (auto simp: pass_frame_def succeeded_def conn_fields_def)

lemma failed_trans:
  assumes "failed E u v" and "conn_fields u = conn_fields w" and "passed cs w u"
  shows "failed E w v"
  using assms by (auto simp: failed_def passed_def conn_fields_def) (metis read_clock_later)

context layer_drivers
begin

lemma attempt_wp:
  "wp (attempt_connect E D c want) (\<lambda>_ v. \<exists>cs udp ok. passed cs w v \<and> pass_frame w v \<and> rc_force v = rc_force w \<and>
     attempted c want udp ok cs \<and> (if ok then succeeded want w v else failed E w v)) w"
  (is "wp _ ?Q w")
proof -
  have "wp (case e of Some err \<Rightarrow> onConnectFailure E D err
      | None \<Rightarrow> do {
          modify (\<lambda>w. w\<lparr>rc_failures := 0, rc_nextRetry := None, rc_appliedConn := Some want\<rparr>);
          st_update (show_connected (cn_Location want))
        })
     (\<lambda>_ v. \<exists>ds. passed ds u v \<and> pass_frame u v \<and> rc_force v = rc_force u \<and>
       (if e = None then ds = [] \<and> succeeded want u v else (\<exists>d. ds = [Disconnect d]) \<and> failed E u v)) u" for e u
    by (intro wp_bind wp_cases wp_modify wp_st_update failure_wp [THEN wp_mono])
      (auto simp: pass_frame_def succeeded_def failed_def pass_defs dest: read_clockI)
  note rest = this
  show ?thesis
    unfolding attempt_connect_def
  proof (rule wp_bind, rule wp_mono [OF prepare_wp], elim exE conjE, rule connect_call_wp, rule wp_mono [OF rest], elim exE conjE)
    fix p u cs udp e x y v ds
    assume u: "passed cs w u" "pass_frame w u" "conn_fields u = conn_fields w" "rc_force u = rc_force w"
        "cs \<in> {[], [WaitUDP udp]}" "p = fst (EffectiveProtocol (cn_Protocol want) (ul_mode (cf_uplink c)) udp)"
      and x: "passed [Connect (cn_Location want) p (e = None)] u x" "pass_frame u x" "conn_fields x = conn_fields u"
        "rc_force x = rc_force u"
      and v: "passed ds x v" "pass_frame x v" "rc_force v = rc_force x"
        "if e = None then ds = [] \<and> succeeded want x v else (\<exists>d. ds = [Disconnect d]) \<and> failed E x v"
    have "passed (cs @ Connect (cn_Location want) p (e = None) # ds) w v"
      using passed_trans [OF passed_trans [OF u(1) x(1)] v(1)] by simp
    moreover have "if e = None then succeeded want w v else failed E w v"
      using v(4) frames_trans(2) [of want x v u] frames_trans(2) [of want x v w] u(3) x(3)
        failed_trans [of E x v w, OF _ _ passed_trans [OF u(1) x(1)]] by (auto split: if_splits)
    moreover have "attempted c want udp (e = None) (cs @ Connect (cn_Location want) p (e = None) # ds)"
      using u(5,6) v(4) by (auto simp: attempted_def split: if_splits)
    moreover have "pass_frame w v" using u(2) x(2) v(2) by (blast intro: frames_trans(1))
    ultimately show "?Q y v" using u(4) x(4) v(3)
      by (intro exI [of _ "cs @ Connect (cn_Location want) p (e = None) # ds"] exI [of _ udp] exI [of _ "e = None"]) simp
  qed
qed

end

section \<open>A pass\<close>

definition want_of :: "config \<Rightarrow> connSpec" where
  "want_of c = \<lparr>cn_Location = ev_location (cf_expressvpn c), cn_Protocol = ev_protocol (cf_expressvpn c)\<rparr>"

definition needs_connect :: "config \<Rightarrow> 'z rec_world_scheme \<Rightarrow> bool" where
  "needs_connect c w \<longleftrightarrow> rc_force w \<noteq> [] \<or> conn_of (snap_of w) \<in> {ConnDisconnected, ConnReconnecting, ConnError} \<or>
     (rc_appliedConn w \<noteq> None \<and> rc_appliedConn w \<noteq> Some (want_of c) \<and> conn_of (snap_of w) = ConnConnected)"

definition may_retry :: "int \<Rightarrow> 'z rec_world_scheme \<Rightarrow> bool" where
  "may_retry t w \<longleftrightarrow> rc_force w \<noteq> [] \<or>
     rc_failures w < maxReconnectFailures \<and> (case rc_nextRetry w of None \<Rightarrow> True | Some r \<Rightarrow> r < t)"

definition idle :: "'z rec_world_scheme \<Rightarrow> 'z rec_world_scheme \<Rightarrow> bool" where
  "idle w v \<longleftrightarrow> conn_of (snap_of v) = conn_of (snap_of w) \<and> conn_fields v = conn_fields w"

text \<open>The outcome of the connection step, decided by the state before it.\<close>

definition conn_outcome :: "env \<Rightarrow> config \<Rightarrow> rcall list \<Rightarrow> 'z rec_world_scheme \<Rightarrow> 'z rec_world_scheme \<Rightarrow> bool" where
  "conn_outcome E c cs w v \<longleftrightarrow> passed cs w v \<and> pass_frame w v \<and>
     (case s_desired (snap_of w) of
        DesiredConnected \<Rightarrow> rc_force v = [] \<and> (\<exists>t. read_clock E w v t \<and>
          (if needs_connect c w \<and> may_retry t w
           then \<exists>udp ok. attempted c (want_of c) udp ok cs \<and> (if ok then succeeded (want_of c) w v else failed E w v)
           else cs = [] \<and> idle w v))
      | DesiredDisconnected \<Rightarrow> rc_force v = rc_force w \<and>
          (if conn_of (snap_of w) \<in> {ConnConnected, ConnConnecting, ConnReconnecting}
           then \<exists>ok. cs = [Disconnect ok] \<and> rc_failures v = rc_failures w \<and>
             conn_of (snap_of v) = (if ok then ConnDisconnected else conn_of (snap_of w))
           else cs = [] \<and> idle w v))"

lemmas outcome_defs = conn_outcome_def needs_connect_def may_retry_def idle_def want_of_def

lemma clear_force:
  "succeeded want (w\<lparr>rc_force := f, trace := tr\<rparr>) v = succeeded want w v"
  "pass_frame (w\<lparr>rc_force := f, trace := tr\<rparr>) v = pass_frame w v"
  by (simp_all add: succeeded_def pass_frame_def)

lemma clear_force_clock:
  assumes "passed cs (w\<lparr>rc_force := f, trace := trace w @ es\<rparr>) v"
  shows "passed cs w v" and "failed E (w\<lparr>rc_force := f, trace := trace w @ es\<rparr>) v \<Longrightarrow> failed E w v"
proof -
  let ?u = "w\<lparr>rc_force := f, trace := trace w @ es\<rparr>"
  have u: "passed [] w ?u" "conn_fields ?u = conn_fields w" by (simp_all add: pass_defs)
  from passed_trans [OF u(1) assms] show "passed cs w v" by simp
  show "failed E ?u v \<Longrightarrow> failed E w v" using u by (blast intro: failed_trans)
qed

context layer_drivers
begin

lemma connect_step_wp: "wp (connect_step E D c) (\<lambda>_ v. \<exists>cs. conn_outcome E c cs w v) w"
proof -
  let ?u = "w\<lparr>rc_force := [], trace := trace w @ [Clock]\<rparr>"
  have go: "wp (attempt_connect E D c (want_of c)) (\<lambda>_ v. \<exists>cs. conn_outcome E c cs w v) ?u"
    if "s_desired (snap_of w) = DesiredConnected" "needs_connect c w" "may_retry (env_clock E (trace w)) w"
  proof (rule wp_mono [OF attempt_wp], elim exE conjE)
    fix v cs udp ok
    assume v: "passed cs ?u v" "pass_frame ?u v" "rc_force v = rc_force ?u" "attempted c (want_of c) udp ok cs"
      "if ok then succeeded (want_of c) ?u v else failed E ?u v"
    note cf = clear_force_clock [OF v(1)]
    from cf(1) obtain es where "trace v = trace w @ es" by (auto simp: passed_def)
    then have "read_clock E w v (env_clock E (trace w))" by (rule read_clockI)
    with cf v that show "\<exists>cs. conn_outcome E c cs w v"
      by (intro exI [of _ cs]) (auto simp: conn_outcome_def clear_force split: if_splits)
  qed
  have stay: "conn_outcome E c [] w ?u"
    if "s_desired (snap_of w) = DesiredConnected" "\<not> (needs_connect c w \<and> may_retry (env_clock E (trace w)) w)"
    using that by (auto simp: conn_outcome_def pass_defs pass_frame_def idle_def intro!: exI [of _ "env_clock E (trace w)"] read_clockI)
  note go = go [unfolded needs_connect_def may_retry_def want_of_def]
    and stay = stay [unfolded needs_connect_def may_retry_def want_of_def]
  show ?thesis
  proof (cases "s_desired (snap_of w)")
    case DesiredConnected
    note go = go [OF DesiredConnected] and stay = stay [OF DesiredConnected]
    have clock: "env_clock E (trace (w\<lparr>rc_force := []\<rparr>)) = env_clock E (trace w)"
      and state: "(w\<lparr>rc_force := []\<rparr>)\<lparr>trace := trace (w\<lparr>rc_force := []\<rparr>) @ [Clock]\<rparr> = ?u" by simp_all
    show ?thesis
      unfolding connect_step_def Let_def
      by (rule wp_bind, rule wp_st_get, simp only: DesiredConnected desired_connection.case,
          intro wp_bind wp_get wp_modify wp_clock wp_cases(1) wp_return; simp only: clock state;
          (rule go | rule exI, rule stay)) (auto simp: not_le)
  next
    case DesiredDisconnected
    show ?thesis
      unfolding connect_step_def Let_def ghost_def rec_fail_def
      by (rule wp_bind, rule wp_st_get, simp only: DesiredDisconnected desired_connection.case,
          intro wp_bind wp_get wp_modify wp_clock wp_cases wp_return wp_st_update wp_drivers)
        (auto simp: DesiredDisconnected conn_outcome_def idle_def pass_defs pass_frame_def)
  qed
qed

end

text \<open>A change that fails and is taken back: the old uplink counts as applied still, so it is not brought up again, and the
  old rules are not loaded again, so the flag of the kill switch stays down.\<close>

context layer_drivers
begin

lemma taken_back:
  "run_state (uplink_step E D u s) w = (False, v) \<Longrightarrow> rc_appliedUplink w = Some old \<Longrightarrow>
     run_state (uplink_step E D old t) v = (True, v)"
  "run_state (ks_step E D u) w = (False, v) \<Longrightarrow> rc_appliedKS w = Some old \<Longrightarrow>
     run_state (ks_step E D old) v = (True, v) \<and> \<not> k_active (s_killswitch (snap_of v))"
  using wpD [OF uplink_step_wp, of E u s w False v] wpD [OF ks_step_wp, of E u w False v]
  by (auto simp: uplink_step_def [of _ _ old] ks_step_def [of _ _ old] uplink_done_def ks_done_def Let_def split: if_splits)

end

text \<open>The outcome of a pass: stopped at the kill switch, stopped at the uplink, or through to the
  connection, which is then decided in the state \<open>x\<close> that the layers left.\<close>

definition conn_kept :: "'z rec_world_scheme \<Rightarrow> 'z rec_world_scheme \<Rightarrow> bool" where
  "conn_kept w v \<longleftrightarrow> conn_fields v = conn_fields w \<and> (conn_of (snap_of v) = conn_of (snap_of w) \<or>
     conn_of (snap_of w) = ConnConnected \<and> conn_of (snap_of v) = ConnReconnecting)"

definition layers_up :: "uplink_cfg \<Rightarrow> expressvpn_cfg \<Rightarrow> rcall list \<Rightarrow> 'z rec_world_scheme \<Rightarrow> 'z rec_world_scheme \<Rightarrow> bool" where
  "layers_up u ev cs w x \<longleftrightarrow> passed cs w x \<and> conn_kept w x \<and> rc_appliedKS x = Some u \<and> rc_appliedUplink x = Some u \<and>
     (rc_appliedUplink w = Some u \<longrightarrow> rc_force x = rc_force w) \<and>
     (rc_appliedKS w = Some u \<longrightarrow> k_active (s_killswitch (snap_of x)) = k_active (s_killswitch (snap_of w))) \<and>
     (rc_appliedKS w \<noteq> Some u \<longrightarrow> k_active (s_killswitch (snap_of x))) \<and>
     (\<exists>ks up st. cs = ks @ up @ st \<and>
        ks = (if rc_appliedKS w = Some u then [] else [KsApply u True]) \<and>
        up = (if rc_appliedUplink w = Some u then [] else [UplinkApply u True]) \<and>
        (st = [] \<or> (\<exists>ok. st = [Settings ev ok])))"

definition stopped :: "uplink_cfg \<Rightarrow> rcall list \<Rightarrow> 'z rec_world_scheme \<Rightarrow> 'z rec_world_scheme \<Rightarrow> bool" where
  "stopped u cs w v \<longleftrightarrow> passed cs w v \<and> conn_kept w v \<and> rc_appliedUplink v = rc_appliedUplink w \<and>
     (cs = [KsApply u False] \<and> rc_appliedKS v = rc_appliedKS w \<and> \<not> k_active (s_killswitch (snap_of v)) \<or>
      rc_appliedKS v = Some u \<and>
        cs = (if rc_appliedKS w = Some u then [] else [KsApply u True]) @ [UplinkApply u False])"

lemma stopped_ks: "ks_done u False w v \<Longrightarrow> stopped u [KsApply u False] w v"
  by (auto simp: ks_done_def stopped_def conn_kept_def Let_def split: if_splits)

lemma stopped_uplink:
  assumes "ks_done u True w a" and "uplink_done u False a v"
  shows "\<exists>cs. stopped u cs w v"
proof -
  have "passed ((if rc_appliedKS w = Some u then [] else [KsApply u True]) @ [UplinkApply u False]) w v"
    using assms by (intro passed_trans [of _ w a]) (auto simp: ks_done_def uplink_done_def Let_def split: if_splits)
  with assms show ?thesis
    by (intro exI [of _ "(if rc_appliedKS w = Some u then [] else [KsApply u True]) @ [UplinkApply u False]"])
      (auto simp: stopped_def conn_kept_def ks_done_def uplink_done_def Let_def split: if_splits)
qed

lemma layers_done:
  assumes "ks_done u True w a" and "uplink_done u True a b" and "settings_done ev b x"
  shows "\<exists>cs. layers_up u ev cs w x"
proof -
  let ?ks = "if rc_appliedKS w = Some u then [] else [KsApply u True]"
  let ?up = "if rc_appliedUplink w = Some u then [] else [UplinkApply u True]"
  obtain st where st: "passed st b x" "st = [] \<or> (\<exists>ok. st = [Settings ev ok])"
    using assms(3) by (auto simp: settings_done_def)
  have "passed (?ks @ ?up @ st) w x"
    using assms st(1) by (intro passed_trans [of _ w a] passed_trans [of _ a b])
      (auto simp: ks_done_def uplink_done_def Let_def)
  with assms st(2) show ?thesis
    by (intro exI [of _ "?ks @ ?up @ st"])
      (auto simp: layers_up_def conn_kept_def ks_done_def uplink_done_def settings_done_def shown_def Let_def split: if_splits)
qed

context layer_drivers
begin

lemma reconcile_wp:
  "wp (reconcile E D) (\<lambda>_ v. let c = rc_cfg w; u = cf_uplink c in
     (\<exists>cs. stopped u cs w v) \<or>
     (\<exists>cs ds x. layers_up u (cf_expressvpn c) cs w x \<and> conn_outcome E c ds x v)) w"
  unfolding reconcile_def Let_def
  apply (rule wp_bind, rule wp_get, rule wp_bind, rule wp_st_get, rule wp_bind, rule wp_mono [OF ks_step_wp], rule wp_cases(1), rule wp_return)
   apply (use stopped_ks in \<open>simp, blast\<close>)
  apply (rule wp_bind, rule wp_mono [OF uplink_step_wp], rule wp_cases(1), rule wp_return)
   apply (use stopped_uplink in \<open>simp, blast\<close>)
  apply (rule wp_bind, rule wp_mono [OF settings_step_wp], rule wp_mono [OF connect_step_wp])
  apply (use layers_done in \<open>simp, blast\<close>)
  done

end

section \<open>The agent's drivers keep the contract\<close>

named_theorems owned_intros \<open>composition rules for \<open>owned\<close>\<close>

lemma owned_bind [owned_intros]: "owned m \<Longrightarrow> (\<And>x. owned (f x)) \<Longrightarrow> owned (m \<bind> f)"
  by (simp add: owned_def keeps_bind extending_bind)

lemma owned_only: "only_effects m \<Longrightarrow> owned m"
  by (auto simp: owned_def own_fields_def shown_def intro: only_extending keeps_only)

lemmas owned_basic [owned_intros] = only_basic [THEN owned_only]

lemma owned_modify [owned_intros]:
  "(\<And>w. own_fields (f w) = own_fields w \<and> shown (f w) = shown w \<and> trace (f w) = trace w) \<Longrightarrow> owned (modify f)"
  by (simp add: owned_def keeps_def extending_def)

lemma owned_st_update [owned_intros]:
  "(\<And>s. s_desired (f s) = s_desired s \<and> conn_of (f s) = conn_of s \<and> s_killswitch (f s) = s_killswitch s) \<Longrightarrow> owned (st_update f)"
  by (simp add: owned_def keeps_def extending_def own_fields_def shown_def)

lemma owned_st_get [owned_intros]: "owned st_get"
  by (simp add: owned_def keeps_def extending_def)

lemma owned_cases [owned_intros]:
  "(c \<Longrightarrow> owned a) \<Longrightarrow> (\<not> c \<Longrightarrow> owned b) \<Longrightarrow> owned (if c then a else b)"
  "owned a \<Longrightarrow> (\<And>x. owned (f x)) \<Longrightarrow> owned (case_option a f r)"
  "(\<And>x. owned (g x)) \<Longrightarrow> (\<And>x. owned (h x)) \<Longrightarrow> owned (case_sum g h s)"
  "(\<And>x y. owned (k x y)) \<Longrightarrow> owned (case_prod k p)"
  by (auto split: option.split sum.split prod.split)

lemma owned_attempt [owned_intros]: "owned m \<Longrightarrow> (\<And>x. owned (f x)) \<Longrightarrow> owned (attempt m f)"
  unfolding attempt_def by (intro owned_intros)

lemma owned_settled: "owned m \<Longrightarrow> owned (settled d m)"
  unfolding settled_def by (intro owned_intros)

lemmas owned_ops = routes_only [THEN owned_only] cli_only [THEN owned_only] resolve_only [THEN owned_only]

lemma poll_owned: "owned chk \<Longrightarrow> owned (poll_loop n E d p chk ok late)"
  by (induction n) (auto intro!: owned_intros)

lemma xv_connect_owned: "owned (xv_Connect n E T l p)" and xv_disconnect_owned: "owned (xv_Disconnect n E T)"
proof -
  show d: "owned (xv_Disconnect n E T)"
    unfolding xv_Disconnect_def xv_disconnect_def waitDisconnected_def
    by (intro owned_intros owned_ops poll_owned) simp_all
  have a: "owned (connect_attempt n E T l p)"
    unfolding connect_attempt_def ensureDisconnected_def waitConnected_def
    by (intro owned_intros owned_ops poll_owned d [unfolded xv_Disconnect_def])
  have c: "owned (afterConnect E)"
    unfolding afterConnect_def by (intro owned_intros owned_ops) (simp add: Let_def)
  have "owned (connect_from k n E T l p d e)" for k d e
    by (induction k arbitrary: d e) (auto intro!: owned_intros a c)
  then show "owned (xv_Connect n E T l p)" unfolding xv_Connect_def .
qed

lemma xv_settings_owned: "owned (applySettings E pick ev)"
proof -
  have "owned (set_toggles E ts)" for ts
    by (induction ts) (auto intro!: owned_intros owned_ops)
  then show ?thesis unfolding applySettings_def .
qed

lemma ks_apply_owned: "owned (ks_apply E (resolveIPv4 E) cfg)"
  unfolding ks_apply_def load_params_def Let_def
  by (intro owned_intros owned_ops dockerSubnet_only [THEN owned_only] applyNFT_only [THEN owned_only]
      applyIptables_only [THEN owned_only]) (auto simp: own_fields_def shown_def)

lemma teardown_owned: "owned (teardown E)" and stopProc_owned: "owned (stopProc E)"
proof -
  show s: "owned (stopProc E)"
    unfolding stopProc_def by (intro owned_intros) (auto simp: own_fields_def shown_def)
  show "owned (teardown E)"
    unfolding teardown_def by (intro owned_intros owned_ops s) (auto simp: own_fields_def shown_def)
qed

lemma startProc_owned: "owned (startProc n E)"
proof -
  have "owned (start_wait n E d)" for d
    by (induction n) (auto intro!: owned_intros owned_ops stopProc_owned simp: own_fields_def shown_def)
  then show ?thesis
    unfolding startProc_def by (intro owned_intros) (auto simp: own_fields_def shown_def)
qed

lemma ul_apply_owned: "owned (ul_apply n E marshal (resolveIPv4 E) cfg)"
  unfolding ul_apply_def statusOf_def socks_rebuild_def socks_build_def socks_up_def startProbe_def Let_def
  by (intro owned_intros owned_ops teardown_owned startProc_owned procAlive_only [THEN owned_only])
    (auto simp: own_fields_def shown_def)

lemma wait_probe_owned: "owned (wait_probe E)"
  unfolding wait_probe_def waitUDP_def probe_finish_def publish_udp_def
  by (intro owned_intros) (auto simp: own_fields_def shown_def)

interpretation agent: layer_drivers "agent_drivers n E T marshal pick" for n E T marshal pick
  by unfold_locales
    (simp_all add: agent_drivers_def owned_settled xv_connect_owned xv_disconnect_owned xv_settings_owned ul_apply_owned wait_probe_owned ks_apply_owned)

section \<open>Consequences\<close>

text \<open>The order of the layers.\<close>

fun rank :: "rcall \<Rightarrow> nat" where
  "rank (KsApply u ok) = 0"
| "rank (UplinkApply u ok) = 1"
| "rank (Settings e ok) = 2"
| "rank (WaitUDP v) = 3"
| "rank (Connect l p ok) = 4"
| "rank (Disconnect ok) = 5"

abbreviation "is_vpn c \<equiv> rank c = 4"

lemma layers_rank: "layers_up u ev cs w x \<Longrightarrow> sorted_wrt (<) (map rank cs) \<and> (\<forall>c \<in> set cs. rank c < 3)"
  by (auto simp: layers_up_def split: if_splits)

lemma outcome_rank: "conn_outcome E c ds x v \<Longrightarrow> sorted_wrt (<) (map rank ds) \<and> (\<forall>c \<in> set ds. 3 \<le> rank c)"
  by (auto simp: conn_outcome_def attempted_def Let_def split: desired_connection.splits if_splits)

lemma stopped_rank: "stopped u cs w v \<Longrightarrow> sorted_wrt (<) (map rank cs) \<and> (\<forall>c \<in> set cs. rank c < 3)"
  by (auto simp: stopped_def split: if_splits)

text \<open>What a connect of a pass was decided on.\<close>

lemma outcome_connect:
  assumes "conn_outcome E c ds x v" and "Connect l p ok \<in> set ds"
  shows "s_desired (snap_of x) = DesiredConnected \<and> l = ev_location (cf_expressvpn c) \<and>
    (\<exists>udp. p = fst (EffectiveProtocol (ev_protocol (cf_expressvpn c)) (ul_mode (cf_uplink c)) udp)) \<and>
    (\<exists>t. read_clock E x v t \<and> may_retry t x) \<and>
    (if ok then succeeded (want_of c) x v else failed E x v)"
  using assms
  by (auto simp: conn_outcome_def attempted_def want_of_def Let_def split: desired_connection.splits if_splits)

lemma outcome_connected:
  assumes "conn_outcome E c ds x v" and "conn_of (snap_of v) = ConnConnected" and "conn_of (snap_of x) \<noteq> ConnConnected"
  shows "\<exists>l p. Connect l p True \<in> set ds"
  using assms
  by (auto simp: conn_outcome_def attempted_def failed_def idle_def Let_def split: desired_connection.splits if_splits)

definition connects_of :: "rcall list \<Rightarrow> rcall list" where
  "connects_of cs = filter is_vpn cs"

lemma passed_through: "layers_up u ev cs w x \<Longrightarrow> conn_outcome E c ds x v \<Longrightarrow> passed (cs @ ds) w v"
  by (auto simp: layers_up_def conn_outcome_def intro: passed_trans)

lemma ranks_append:
  assumes "sorted_wrt (<) (map rank cs) \<and> (\<forall>c \<in> set cs. rank c < 3)"
    and "sorted_wrt (<) (map rank ds) \<and> (\<forall>c \<in> set ds. 3 \<le> rank c)"
  shows "sorted_wrt (<) (map rank (cs @ ds))"
  using assms by (auto simp: sorted_wrt_append) force

context layer_drivers
begin

lemma pass_cases:
  assumes "run_state (reconcile E D) w = (r, v)"
  obtains (stop) cs where "stopped (cf_uplink (rc_cfg w)) cs w v"
    | (through) cs ds x where "layers_up (cf_uplink (rc_cfg w)) (cf_expressvpn (rc_cfg w)) cs w x"
        "conn_outcome E (rc_cfg w) ds x v"
  using wpD [OF reconcile_wp assms] by (auto simp: Let_def)

lemma pass_order:
  assumes "run_state (reconcile E D) w = (r, v)"
  shows "\<exists>cs. rc_calls v = rc_calls w @ cs \<and> sorted_wrt (<) (map rank cs) \<and>
    ((\<exists>c \<in> set cs. 1 \<le> rank c) \<longrightarrow> rc_appliedKS v = Some (cf_uplink (rc_cfg w))) \<and>
    ((\<exists>c \<in> set cs. is_vpn c) \<longrightarrow> rc_appliedUplink v = Some (cf_uplink (rc_cfg w)) \<and> s_desired (snap_of w) = DesiredConnected) \<and>
    (\<forall>u. KsApply u False \<in> set cs \<longrightarrow> cs = [KsApply u False] \<and> \<not> k_active (s_killswitch (snap_of v)))"
  using assms
proof (cases rule: pass_cases)
  case (stop cs)
  then show ?thesis
    using stopped_rank [OF stop] by (intro exI [of _ cs]) (auto simp: stopped_def passed_def split: if_splits)
next
  case (through cs ds x)
  note ranks = layers_rank [OF through(1)] outcome_rank [OF through(2)]
  have ks: "\<not> (\<exists>u. KsApply u False \<in> set (cs @ ds))"
    using through ranks by (auto simp: layers_up_def split: if_splits)
  have desired: "s_desired (snap_of w) = DesiredConnected" if c: "c \<in> set (cs @ ds)" "is_vpn c" for c
  proof -
    from c ranks(1) have "c \<in> set ds" by force
    with c obtain l p ok where "Connect l p ok \<in> set ds" by (cases c rule: rcall.exhaust) auto
    with outcome_connect [OF through(2)] through(1) show ?thesis by (auto simp: layers_up_def passed_def)
  qed
  have "rc_appliedKS v = Some (cf_uplink (rc_cfg w)) \<and> rc_appliedUplink v = Some (cf_uplink (rc_cfg w))"
    using through by (auto simp: layers_up_def conn_outcome_def pass_frame_def)
  moreover have "rc_calls v = rc_calls w @ cs @ ds"
    using passed_through [OF through] by (simp add: passed_def)
  ultimately show ?thesis
    using ranks_append [OF ranks] ks desired by (intro exI [of _ "cs @ ds"]) auto
qed

text \<open>A connect: why it was made, with what, and what it leaves.\<close>

lemma pass_connect:
  assumes "run_state (reconcile E D) w = (r, v)" and "rc_calls v = rc_calls w @ cs" and "Connect l p ok \<in> set cs"
  shows "l = ev_location (cf_expressvpn (rc_cfg w)) \<and>
    (\<exists>udp. p = fst (EffectiveProtocol (ev_protocol (cf_expressvpn (rc_cfg w))) (ul_mode (cf_uplink (rc_cfg w))) udp)) \<and>
    (rc_force w \<noteq> [] \<or> rc_appliedUplink w \<noteq> Some (cf_uplink (rc_cfg w)) \<or>
      rc_failures w < maxReconnectFailures \<and>
      (\<exists>t. read_clock E w v t \<and> (\<forall>d. rc_nextRetry w = Some d \<longrightarrow> d < t))) \<and>
    (if ok then succeeded (want_of (rc_cfg w)) w v else failed E w v)"
  using assms(1)
proof (cases rule: pass_cases)
  case (stop ds)
  with assms(2,3) show ?thesis by (auto simp: stopped_def passed_def split: if_splits)
next
  case (through ds es x)
  have x: "passed ds w x" "conn_fields x = conn_fields w" and f: "rc_appliedUplink w = Some (cf_uplink (rc_cfg w)) \<longrightarrow> rc_force x = rc_force w"
    using through(1) by (auto simp: layers_up_def conn_kept_def)
  have "cs = ds @ es"
    using passed_through [OF through] assms(2) by (simp add: passed_def)
  with assms(3) layers_rank [OF through(1)] have "Connect l p ok \<in> set es" by auto
  note c = outcome_connect [OF through(2) this]
  then obtain t where t: "read_clock E x v t" "may_retry t x" by blast
  with x have "read_clock E w v t" by (auto simp: passed_def intro: read_clock_later)
  with t(2) f x(2) have "rc_force w \<noteq> [] \<or> rc_appliedUplink w \<noteq> Some (cf_uplink (rc_cfg w)) \<or>
      rc_failures w < maxReconnectFailures \<and> (\<exists>t. read_clock E w v t \<and> (\<forall>d. rc_nextRetry w = Some d \<longrightarrow> d < t))"
    by (auto simp: may_retry_def conn_fields_def)
  moreover have "if ok then succeeded (want_of (rc_cfg w)) w v else failed E w v"
    using c x frames_trans(2) [of "want_of (rc_cfg w)" x v w] failed_trans [of E x v w, OF _ x(2,1)] by (auto split: if_splits)
  ultimately show ?thesis using c by blast
qed

lemma pass_connected:
  assumes "run_state (reconcile E D) w = (r, v)" and "rc_calls v = rc_calls w @ cs"
    and "conn_of (snap_of v) = ConnConnected" and "conn_of (snap_of w) \<noteq> ConnConnected"
  shows "\<exists>l p. Connect l p True \<in> set cs"
  using assms(1)
proof (cases rule: pass_cases)
  case (stop ds)
  with assms show ?thesis by (auto simp: stopped_def conn_kept_def)
next
  case (through ds es x)
  have "conn_of (snap_of x) \<noteq> ConnConnected"
    using through(1) assms(4) by (auto simp: layers_up_def conn_kept_def)
  from outcome_connected [OF through(2) assms(3) this] show ?thesis
    using passed_through [OF through] assms(2) by (auto simp: passed_def)
qed

end

lemma backoff_bounds: "seconds 1 \<le> backoff n \<and> backoff n \<le> seconds 60"
  by (simp add: backoff_def seconds_def Let_def)

section \<open>Properties\<close>

text \<open>C4: A pass of the reconciler works through the layers in order (kill switch, uplink, settings,
  probe, connection) and fails closed: nothing beyond the kill switch is called unless its rules are
  the ones applied for the configured uplink, the VPN is connected only over the configured uplink and
  only if it is desired, and after a failure of the kill switch nothing else is called and it is not
  shown as active.\<close>

theorem pass_fails_closed:
  assumes "run_state (reconcile E (agent_drivers n E T marshal pick)) w = (r, v)"
  shows "\<exists>cs. rc_calls v = rc_calls w @ cs \<and> sorted_wrt (<) (map rank cs) \<and>
    ((\<exists>c \<in> set cs. 1 \<le> rank c) \<longrightarrow> rc_appliedKS v = Some (cf_uplink (rc_cfg w))) \<and>
    ((\<exists>c \<in> set cs. is_vpn c) \<longrightarrow> rc_appliedUplink v = Some (cf_uplink (rc_cfg w)) \<and> s_desired (snap_of w) = DesiredConnected) \<and>
    (\<forall>u. KsApply u False \<in> set cs \<longrightarrow> cs = [KsApply u False] \<and> \<not> k_active (s_killswitch (snap_of v)))"
  using assms by (rule agent.pass_order)

text \<open>C10: A pass shows the VPN as newly connected only after the driver's \<open>Connect\<close> succeeded in this
  very pass, for the configured location and with the effective protocol of the configured one.\<close>

theorem connected_is_earned:
  assumes "run_state (reconcile E (agent_drivers n E T marshal pick)) w = (r, v)"
    and "conn_of (snap_of v) = ConnConnected" and "conn_of (snap_of w) \<noteq> ConnConnected"
  shows "\<exists>cs p udp. rc_calls v = rc_calls w @ cs \<and> Connect (ev_location (cf_expressvpn (rc_cfg w))) p True \<in> set cs \<and>
    p = fst (EffectiveProtocol (ev_protocol (cf_expressvpn (rc_cfg w))) (ul_mode (cf_uplink (rc_cfg w))) udp)"
proof -
  from agent.pass_order [OF assms(1)] obtain cs where cs: "rc_calls v = rc_calls w @ cs" by blast
  from agent.pass_connected [OF assms(1) cs assms(2,3)] obtain l p where "Connect l p True \<in> set cs" by blast
  with agent.pass_connect [OF assms(1) cs this] cs show ?thesis by blast
qed

text \<open>C30: Retries are bounded: an unforced pass over an uplink that has not changed connects only while
  fewer than ten connects have failed in a row and only after the retry time; a failed connect counts,
  shows the error, and up to the tenth failure sets the retry time to between one and sixty seconds
  after a reading of the clock in this pass and arms a timer for as long.\<close>

theorem retries_bounded:
  assumes "run_state (reconcile E (agent_drivers n E T marshal pick)) w = (r, v)"
    and "rc_calls v = rc_calls w @ cs" and "Connect l p ok \<in> set cs"
    and "rc_force w = []" and "rc_appliedUplink w = Some (cf_uplink (rc_cfg w))"
  shows "rc_failures w < 10 \<and> (\<exists>t. read_clock E w v t \<and> (\<forall>d. rc_nextRetry w = Some d \<longrightarrow> d < t)) \<and>
    (\<not> ok \<longrightarrow> conn_of (snap_of v) = ConnError \<and> rc_failures v = Suc (rc_failures w) \<and>
      (rc_failures v < 10 \<longrightarrow> (\<exists>t b. read_clock E w v t \<and> seconds 1 \<le> b \<and> b \<le> seconds 60 \<and>
         rc_nextRetry v = Some (t + b) \<and> rc_timers v = rc_timers w @ [b])))"
  using agent.pass_connect [OF assms(1-3)] assms(4,5) backoff_bounds [of "Suc (rc_failures w)"]
  by (auto simp: failed_def maxReconnectFailures_def split: if_splits)

lemma demo_states:
  "\<not> list_ex is_connect (trace w) \<Longrightarrow> run_state (cli_RawConnectionState demo_env) w =
     (Inr ''Disconnected'', w\<lparr>trace := trace w @ [state_query]\<rparr>)"
  "list_ex is_connect (trace w) \<Longrightarrow> run_state (cli_ConnectionState demo_env) w =
     (Inr ConnConnected, w\<lparr>trace := trace w @ [state_query]\<rparr>)"
  by (simp_all add: raw_state_run connection_state_run answered_def demo_env_def trim_space_no_space is_space_def)

lemma demo_attempt:
  assumes "\<not> list_ex is_connect (trace w)"
  shows "fst (run_state (connect_attempt (Suc n) demo_env T l p) w) = Some (Inr None)"
proof -
  let ?u = "w\<lparr>trace := trace w @ [state_query]\<rparr>"
  have "run_state (ensureDisconnected (Suc n) demo_env T) w = (Some None, ?u)"
    using assms by (simp add: ensureDisconnected_def demo_states rawDisconnected_def)
  then show ?thesis
    by (simp add: connect_attempt_def cli_Set_def cli_Connect_def cli_ok_def cli_run_def waitConnected_def
        demo_env_def [THEN arg_cong [where f = env_exec]] demo_states)
qed

lemma ownedD: "owned m \<Longrightarrow> keeps own_fields m" "owned m \<Longrightarrow> keeps shown m"
  by (simp_all add: owned_def)

lemma wp_demo_connect:
  assumes "\<not> list_ex is_connect (trace w)" and "\<And>v. own_fields v = own_fields w \<Longrightarrow> shown v = shown w \<Longrightarrow> Q None v"
  shows "wp (d_connect (agent_drivers (Suc n) demo_env T marshal pick) l p) Q w"
proof -
  obtain r v where r: "run_state (d_connect (agent_drivers (Suc n) demo_env T marshal pick) l p) w = (r, v)" by fastforce
  obtain u where u: "run_state (connect_attempt (Suc n) demo_env T l p) w = (Some (Inr None), u)"
    using demo_attempt [OF assms(1)] by (metis prod.collapse)
  have "r = None"
    using r u by (simp add: agent_drivers_def settled_def xv_Connect_def connectRetries_def numeral_3_eq_3 split: prod.splits) auto
  with r assms(2) keepsD [OF agent.connect_owned [THEN ownedD(1)] r] keepsD [OF agent.connect_owned [THEN ownedD(2)] r]
  show ?thesis by (simp add: wp_def)
qed

definition ready_world :: rec_world where
  "ready_world = \<lparr>trace = [], w_st = new_store (set_desired DesiredConnected (initial_state ''1'' 0)), containerDNS = [],
     ks_params = ks_defaults, ks_backend = [], ks_legacyLogged = False, ul_proc = False, ul_applied = None, ul_probeRun = None,
     ul_nextRun = 0, ul_probes = [], ul_proxyIP = [], ul_gw = [], ul_savedResolv = None, rc_cfg = default_config,
     rc_appliedKS = Some (cf_uplink default_config), rc_appliedUplink = Some (cf_uplink default_config),
     rc_appliedEVPN = Some (cf_expressvpn default_config), rc_appliedConn = None, rc_failures = 0, rc_nextRetry = None,
     rc_force = [], rc_wake = False, rc_calls = [], rc_timers = []\<rparr>"

abbreviation "demo_drivers \<equiv> agent_drivers 1 demo_env defaultTimings (\<lambda>_. []) (\<lambda>ts. ts)"

lemma ready_facts:
  "rc_cfg ready_world = default_config" "rc_appliedKS ready_world = Some (cf_uplink default_config)"
  "rc_appliedUplink ready_world = Some (cf_uplink default_config)" "rc_appliedEVPN ready_world = Some (cf_expressvpn default_config)"
  "rc_force ready_world = []" "rc_failures ready_world = 0" "rc_nextRetry ready_world = None" "trace ready_world = []"
  "rc_calls ready_world = []" "s_desired (snap_of ready_world) = DesiredConnected" "conn_of (snap_of ready_world) = ConnDisconnected"
  by (simp_all add: ready_world_def new_store_def store_get_def initial_state_def)

lemma steps_noop:
  "rc_appliedKS w = Some u \<Longrightarrow> run_state (ks_step E D u) w = (True, w)"
  "rc_appliedUplink w = Some u \<Longrightarrow> run_state (uplink_step E D u s) w = (True, w)"
  "rc_appliedEVPN w = Some ev \<Longrightarrow> run_state (settings_step E D ev) w = ((), w)"
  by (simp_all add: ks_step_def uplink_step_def settings_step_def)

lemma ready_pass: "\<exists>v. run_state (reconcile demo_env demo_drivers) ready_world = ((), v) \<and>
   rc_calls v = [Connect [] ''auto'' True] \<and> conn_of (snap_of v) = ConnConnected"
proof -
  let ?w = "ready_world\<lparr>rc_force := [], trace := [Clock]\<rparr>"
  obtain u where u: "run_state (prepare_connect demo_drivers default_config (want_of default_config)) ?w = (''auto'', u)"
    and tr: "trace u = [Clock]" "rc_calls u = []"
    by (simp add: prepare_connect_def await_udp_def Let_def default_config_def want_of_def EffectiveProtocol_def ready_facts)
  have "wp (d_connect demo_drivers [] ''auto'') (\<lambda>e v. e = None \<and> rc_calls v = []) u"
    unfolding One_nat_def by (rule wp_demo_connect) (auto simp: tr own_fields_def)
  then obtain v where v: "run_state (d_connect demo_drivers [] ''auto'') u = (None, v)" "rc_calls v = []"
    by (auto simp: wp_def split: prod.splits)
  have want: "cn_Location (want_of default_config) = []" by (simp add: want_of_def default_config_def)
  have "run_state (connect_step demo_env demo_drivers default_config) ready_world =
      run_state (attempt_connect demo_env demo_drivers default_config (want_of default_config)) ?w"
    by (simp add: connect_step_def ready_facts Let_def want_of_def maxReconnectFailures_def)
  then show ?thesis
    using u v by (simp add: reconcile_def steps_noop ready_facts attempt_connect_def ghost_def want)
qed

theorem pass_fails_closed_witness:
  "\<exists>cs v. run_state (reconcile demo_env demo_drivers) ready_world = ((), v) \<and> rc_calls v = rc_calls ready_world @ cs \<and>
     sorted_wrt (<) (map rank cs)"
proof -
  from ready_pass obtain v where v: "run_state (reconcile demo_env demo_drivers) ready_world = ((), v)" by blast
  from pass_fails_closed [OF v] v show ?thesis by blast
qed

theorem connected_is_earned_witness:
  "\<exists>cs p. rc_calls (snd (run_state (reconcile demo_env demo_drivers) ready_world)) = rc_calls ready_world @ cs \<and>
     Connect (ev_location (cf_expressvpn default_config)) p True \<in> set cs"
proof -
  from ready_pass obtain v where v: "run_state (reconcile demo_env demo_drivers) ready_world = ((), v)"
    and c: "conn_of (snap_of v) = ConnConnected" by blast
  have "conn_of (snap_of ready_world) \<noteq> ConnConnected" by (simp add: ready_facts)
  from connected_is_earned [OF v c this] show ?thesis by (simp only: v snd_conv ready_facts) blast
qed

theorem retries_bounded_witness:
  "rc_failures ready_world < 10 \<and> (\<exists>t. read_clock demo_env ready_world (snd (run_state (reconcile demo_env demo_drivers) ready_world)) t)"
proof -
  from ready_pass obtain v where v: "run_state (reconcile demo_env demo_drivers) ready_world = ((), v)"
    and c: "rc_calls v = rc_calls ready_world @ [Connect [] ''auto'' True]" by (auto simp: ready_facts)
  have m: "Connect [] ''auto'' True \<in> set [Connect [] ''auto'' True]" by simp
  have u: "rc_force ready_world = []" "rc_appliedUplink ready_world = Some (cf_uplink (rc_cfg ready_world))"
    by (simp_all add: ready_facts)
  from retries_bounded [OF v c m u] show ?thesis by (simp only: v snd_conv) blast
qed

section \<open>Recovery\<close>

lemma wp_conj: "wp m P w \<Longrightarrow> wp m Q w \<Longrightarrow> wp m (\<lambda>a v. P a v \<and> Q a v) w"
  by (auto simp: wp_def)

definition connects :: "'z rec_world_scheme \<Rightarrow> nat" where
  "connects w = length (filter is_vpn (rc_calls w))"

text \<open>One pass of a disconnected agent whose retry is due.\<close>

definition waiting :: "env \<Rightarrow> nat \<Rightarrow> 'z rec_world_scheme \<Rightarrow> bool" where
  "waiting E j w \<longleftrightarrow> s_desired (snap_of w) = DesiredConnected \<and> rc_failures w = j \<and> connects w = j \<and>
     conn_of (snap_of w) \<in> {ConnDisconnected, ConnReconnecting, ConnError} \<and>
     (\<forall>d. rc_nextRetry w = Some d \<longrightarrow> d < env_clock E (trace w))"

lemma layers_all:
  "ks_done u a w v \<and> a \<Longrightarrow> uplink_done u b v y \<and> b \<Longrightarrow> settings_done ev y x \<Longrightarrow> \<exists>cs. layers_up u ev cs w x"
  using layers_done [of u w v y ev x] by auto

lemma attempted_connects: "attempted c want udp ok ds \<Longrightarrow> length (filter is_vpn ds) = 1"
  by (auto simp: attempted_def Let_def)

lemma layers_connects: "layers_up u ev cs w x \<Longrightarrow> connects x = connects w"
  using layers_rank [of u ev cs w x] by (auto simp: layers_up_def passed_def connects_def filter_empty_conv)

text \<open>Layers that work for the uplinks in \<open>good\<close>, and a daemon whose connects fail until \<open>k\<close> have been made.\<close>

locale steady_layers = layer_drivers D for D :: "'z rec_world_scheme drivers" +
  fixes k :: nat and good :: "uplink_cfg \<Rightarrow> bool"
  assumes killswitch_works: "good ul \<Longrightarrow> fst (run_state (d_killswitch D ul) w) = None"
    and uplink_works: "good ul \<Longrightarrow> snd (fst (run_state (d_uplink D ul) w)) = None"
    and connect_works: "fst (run_state (d_connect D location protocol) w) = None \<longleftrightarrow> k \<le> connects w"
begin

lemma wp_ks_works: "good cfg \<Longrightarrow> (\<And>v. P None v) \<Longrightarrow> wp (d_killswitch D cfg) P w"
  using killswitch_works [of cfg w] by (cases "run_state (d_killswitch D cfg) w") (simp add: wp_def)

lemma wp_uplink_works: "good cfg \<Longrightarrow> (\<And>us v. P (us, None) v) \<Longrightarrow> wp (d_uplink D cfg) P w"
  using uplink_works [of cfg w] by (cases "run_state (d_uplink D cfg) w") (auto simp: wp_def)

lemma wp_connect_works:
  "(\<And>v. k \<le> connects w \<Longrightarrow> P None v) \<Longrightarrow> (\<And>e v. \<not> k \<le> connects w \<Longrightarrow> P (Some e) v) \<Longrightarrow> wp (d_connect D l p) P w"
  using connect_works [of l p w] by (cases "run_state (d_connect D l p) w") (auto simp: wp_def)

lemmas wp_works = wp_ks_works wp_uplink_works wp_connect_works

lemma ks_goes_on: "good cfg \<Longrightarrow> wp (ks_step E D cfg) (\<lambda>on v. on) w"
  unfolding ks_step_def ghost_def rec_fail_def
  by (intro wp_bind wp_get wp_cases wp_return wp_modify wp_st_update wp_effects wp_works) auto

lemma uplink_goes_on: "good cfg \<Longrightarrow> wp (uplink_step E D cfg s) (\<lambda>on v. on) w"
  unfolding uplink_step_def ghost_def forgetConnection_def rec_fail_def
  by (intro wp_bind wp_get wp_cases wp_return wp_modify wp_st_update wp_effects wp_works) auto

lemma attempt_decided: "wp (attempt_connect E D c want) (\<lambda>_ v. conn_of (snap_of v) = ConnConnected \<longleftrightarrow> k \<le> connects w) w"
  unfolding attempt_connect_def ghost_def
  apply (rule wp_bind, rule wp_mono [OF prepare_wp], rule wp_bind)
  apply (rule wp_connect_works; intro wp_bind wp_modify wp_cases wp_st_update failure_wp [THEN wp_mono])
  apply (auto simp: passed_def connects_def)
  done

lemma connect_decided:
  assumes "s_desired (snap_of w) = DesiredConnected" and "needs_connect c w" and "may_retry (env_clock E (trace w)) w"
  shows "wp (connect_step E D c) (\<lambda>_ v. conn_of (snap_of v) = ConnConnected \<longleftrightarrow> k \<le> connects w) w"
  unfolding connect_step_def Let_def
  apply (rule wp_bind, rule wp_st_get, simp only: assms(1) desired_connection.case)
  apply (intro wp_bind wp_get wp_modify wp_clock wp_cases(1) wp_return attempt_decided [THEN wp_mono])
  using assms(2,3) apply (auto simp: connects_def needs_connect_def may_retry_def want_of_def split: option.splits)
  done

lemma steady_pass_wp:
  assumes "good (cf_uplink (rc_cfg w))"
  shows "wp (reconcile E D) (\<lambda>_ v. let c = rc_cfg w in
     \<exists>cs ds x. layers_up (cf_uplink c) (cf_expressvpn c) cs w x \<and> conn_outcome E c ds x v \<and>
       (s_desired (snap_of x) = DesiredConnected \<and> needs_connect c x \<and> may_retry (env_clock E (trace x)) x \<longrightarrow>
         (conn_of (snap_of v) = ConnConnected \<longleftrightarrow> k \<le> connects x))) w"
proof -
  have dec: "wp (connect_step E D c) (\<lambda>_ v. (\<exists>ds. conn_outcome E c ds x v) \<and>
      (s_desired (snap_of x) = DesiredConnected \<and> needs_connect c x \<and> may_retry (env_clock E (trace x)) x \<longrightarrow>
         (conn_of (snap_of v) = ConnConnected \<longleftrightarrow> k \<le> connects x))) x" for c x
    using connect_decided [of x c E] connect_step_wp [of E c x] by (auto simp: wp_def split: prod.splits)
  show ?thesis
    unfolding reconcile_def Let_def
    apply (rule wp_bind, rule wp_get, rule wp_bind, rule wp_st_get, rule wp_bind, rule wp_mono [OF wp_conj [OF ks_step_wp ks_goes_on [OF assms]]])
    apply (simp only: simp_thms if_False)
    apply (rule wp_bind, rule wp_mono [OF wp_conj [OF uplink_step_wp uplink_goes_on [OF assms]]])
    apply (simp only: simp_thms if_False)
    apply (rule wp_bind, rule wp_mono [OF settings_step_wp], rule wp_mono [OF dec])
    apply (frule (2) layers_all, blast)
    done
qed

lemma steady_pass:
  assumes run: "run_state (reconcile E D) w = (r, v)" and tick: "ticking E" and w: "waiting E j w" and "j < maxReconnectFailures"
    and good: "good (cf_uplink (rc_cfg w))"
  shows "s_desired (snap_of v) = DesiredConnected \<and> rc_cfg v = rc_cfg w \<and>
    (if k \<le> j then conn_of (snap_of v) = ConnConnected
     else conn_of (snap_of v) = ConnError \<and> rc_failures v = Suc j \<and> connects v = Suc j \<and>
       (\<forall>d. rc_nextRetry v = Some d \<longrightarrow> d \<le> env_clock E (trace v) + seconds 60))"
proof -
  let ?c = "rc_cfg w"
  from wpD [OF steady_pass_wp [OF good] run] obtain cs ds x where l: "layers_up (cf_uplink ?c) (cf_expressvpn ?c) cs w x"
    and o: "conn_outcome E ?c ds x v"
    and dec: "s_desired (snap_of x) = DesiredConnected \<and> needs_connect ?c x \<and> may_retry (env_clock E (trace x)) x \<longrightarrow>
       (conn_of (snap_of v) = ConnConnected \<longleftrightarrow> k \<le> connects x)"
    by (auto simp: Let_def)
  have x: "s_desired (snap_of x) = DesiredConnected" "rc_failures x = j" "rc_nextRetry x = rc_nextRetry w" "needs_connect ?c x"
    "connects x = j"
    using l w layers_connects [OF l] by (auto simp: layers_up_def passed_def conn_kept_def conn_fields_def waiting_def needs_connect_def)
  obtain es where es: "trace x = trace w @ es" using l by (auto simp: layers_up_def passed_def)
  have due: "may_retry t x" if "env_clock E (trace w) \<le> t" for t
    using w x assms(4) that by (auto simp: may_retry_def waiting_def split: option.split)
  have "may_retry (env_clock E (trace x)) x"
    using clock_mono [OF tick, of "trace w" es] by (intro due) (simp add: es)
  moreover have "may_retry t x" if "read_clock E x v t" for t
    using that clock_mono [OF tick] by (intro due) (auto simp: read_clock_def prefix_def es)
  ultimately obtain udp ok where a: "attempted ?c (want_of ?c) udp ok ds"
      "if ok then succeeded (want_of ?c) x v else failed E x v" and k: "ok \<longleftrightarrow> k \<le> j"
    using o x dec by (auto simp: conn_outcome_def succeeded_def failed_def split: if_splits)
  have v: "passed ds x v" using o by (simp add: conn_outcome_def)
  have "rc_cfg x = ?c" using l by (simp add: layers_up_def passed_def)
  then have desired: "s_desired (snap_of v) = DesiredConnected \<and> rc_cfg v = ?c" and conns: "connects v = Suc j"
    using v x attempted_connects [OF a(1)] by (simp_all add: passed_def connects_def)
  show ?thesis
  proof (cases ok)
    case True
    with a k desired show ?thesis by (auto simp: succeeded_def)
  next
    case False
    have "d \<le> env_clock E (trace v) + seconds 60" if d: "rc_nextRetry v = Some d" for d
    proof (cases "Suc j < maxReconnectFailures")
      case True
      with False a x d obtain t where "read_clock E x v t" "d = t + backoff (Suc j)"
        by (auto simp: failed_def)
      then obtain h fs where "trace v = h @ fs" "d = env_clock E h + backoff (Suc j)"
        by (auto simp: read_clock_def prefix_def)
      with clock_mono [OF tick, of h fs] backoff_bounds [of "Suc j"] show ?thesis by simp
    next
      case no: False
      with False a x d have "rc_nextRetry w = Some d" by (auto simp: failed_def)
      then have "d < env_clock E (trace w)" using w by (simp add: waiting_def)
      moreover from v es obtain fs where "trace v = trace w @ fs" by (auto simp: passed_def)
      ultimately show ?thesis using clock_mono [OF tick, of "trace w" fs] by (simp add: seconds_def)
    qed
    with False a k desired conns x show ?thesis by (auto simp: failed_def)
  qed
qed

end

text \<open>Passes at least a minute apart, as the ticks and the timers of the loop bring them about.\<close>

fun rec_passes :: "nat \<Rightarrow> env \<Rightarrow> 'z rec_world_scheme drivers \<Rightarrow> ('z rec_world_scheme, unit) state" where
  "rec_passes 0 E D = ret ()"
| "rec_passes (Suc n) E D = do { reconcile E D; _ \<leftarrow> do_sleep E (seconds 61); rec_passes n E D }"

context steady_layers
begin

lemma recovery:
  assumes tick: "ticking E" and k: "k < maxReconnectFailures"
    and "waiting E j w" and "good (cf_uplink (rc_cfg w))" and "j \<le> k" and "run_state (rec_passes (Suc (k - j)) E D) w = (r, v)"
  shows "conn_of (snap_of v) = ConnConnected"
  using assms(3-6)
proof (induction "k - j" arbitrary: j w)
  case 0
  obtain u where u: "run_state (reconcile E D) w = ((), u)" by (metis (full_types) old.unit.exhaust prod.exhaust)
  from steady_pass [OF u tick 0(2) _ 0(3)] 0(1,4) k have "conn_of (snap_of u) = ConnConnected" by auto
  with 0 u show ?case by auto
next
  case (Suc m)
  obtain u where u: "run_state (reconcile E D) w = ((), u)" by (metis (full_types) old.unit.exhaust prod.exhaust)
  let ?u = "u\<lparr>trace := trace u @ [Sleep (seconds 61)]\<rparr>"
  from Suc.hyps(2) have m: "m = k - Suc j" "k - j = Suc m" "\<not> k \<le> j" by auto
  from steady_pass [OF u tick Suc.prems(1) _ Suc.prems(2)] m(3) Suc.prems(3) k
  have p: "s_desired (snap_of u) = DesiredConnected \<and> rc_cfg u = rc_cfg w" "conn_of (snap_of u) = ConnError" "rc_failures u = Suc j"
    "connects u = Suc j" "\<And>d. rc_nextRetry u = Some d \<Longrightarrow> d \<le> env_clock E (trace u) + seconds 60"
    by auto
  have "env_clock E (trace u) + seconds 61 \<le> env_clock E (trace u @ [Sleep (seconds 61)])"
    using tick unfolding ticking_def by blast
  with p have "waiting E (Suc j) ?u"
    by (auto simp: waiting_def connects_def seconds_def)
  moreover have "run_state (rec_passes (Suc (k - Suc j)) E D) ?u = (r, v)"
    using Suc.prems(4) u by (simp add: m(2) m(1) [symmetric])
  moreover have "good (cf_uplink (rc_cfg ?u))" using p(1) Suc.prems(2) by simp
  ultimately show ?case using Suc.hyps(1) [OF m(1)] m(3) by auto
qed

end


text \<open>Drivers that only report: the connects fail until \<open>k\<close> have been made.\<close>

definition flaky_drivers :: "nat \<Rightarrow> 'z rec_world_scheme drivers" where
  "flaky_drivers k = \<lparr>d_connect = (\<lambda>l p. do { w \<leftarrow> getw; ret (if k \<le> connects w then None else Some ContextDone) }),
     d_disconnect = ret None, d_settings = (\<lambda>_. ret None),
     d_uplink = (\<lambda>cfg. ret (downState cfg [] [], None)), d_waitUDP = ret TriTrue, d_killswitch = (\<lambda>_. ret None)\<rparr>"

interpretation flaky: steady_layers "flaky_drivers k" k "\<lambda>_. True" for k
  by unfold_locales (simp_all add: flaky_drivers_def owned_intros)


section \<open>The agent's own layers at work\<close>

text \<open>A container in which every command works, and a daemon that is connected from \<open>connect\<close> to \<open>disconnect\<close>: with the
  uplink of the host the agent's own drivers are layers that work.\<close>

definition is_disconnect :: "event \<Rightarrow> bool" where
  "is_disconnect e \<longleftrightarrow> e = Exec ctlPath [''-t'', int_str (ctlTimeout div 1000000000), ''disconnect'']"

definition live_up :: "event list \<Rightarrow> bool" where
  "live_up h = foldl (\<lambda>up e. if is_connect e then True else if is_disconnect e then False else up) False h"

lemma live_up_app: "live_up (h @ es) = foldl (\<lambda>up e. if is_connect e then True else if is_disconnect e then False else up) (live_up h) es"
  by (simp add: live_up_def)

lemma not_connecting: "\<not> is_connect state_query" "\<not> is_disconnect state_query"
  by (simp_all add: state_query_def state_args_def is_disconnect_def)

definition live_env :: env where
  "live_env = demo_env\<lparr>env_exec := (\<lambda>h n as. \<lparr>rr_out = (if as = state_args
     then (if live_up h then ''Connected'' else ''Disconnected'') else []), rr_exit = 0, rr_err = None\<rparr>)\<rparr>"

lemma live_exec: "env_exec live_env h n as = \<lparr>rr_out = (if as = state_args
     then (if live_up h then ''Connected'' else ''Disconnected'') else []), rr_exit = 0, rr_err = None\<rparr>"
  by (simp add: live_env_def)

lemma live_raw: "run_state (cli_RawConnectionState live_env) w =
    (Inr (if live_up (trace w) then ''Connected'' else ''Disconnected''), w\<lparr>trace := trace w @ [state_query]\<rparr>)"
  by (simp add: raw_state_run answered_def live_exec trim_space_no_space is_space_def)

lemma live_state: "live_up (trace w) \<Longrightarrow> run_state (cli_ConnectionState live_env) w =
    (Inr ConnConnected, w\<lparr>trace := trace w @ [state_query]\<rparr>)"
  by (simp add: connection_state_run answered_def live_exec trim_space_no_space is_space_def)

lemma live_disconnects: "\<exists>v. run_state (ensureDisconnected (Suc n) live_env T) w = (Some None, v)"
  by (simp add: ensureDisconnected_def live_raw rawDisconnected_def xv_disconnect_def cli_Disconnect_def cli_ok_def cli_run_def
      live_exec waitDisconnected_def live_up_app is_disconnect_def not_connecting)

lemma live_attempt: "\<exists>v. run_state (connect_attempt (Suc n) live_env T l p) w = (Some (Inr None), v)"
proof -
  obtain v where v: "run_state (ensureDisconnected (Suc n) live_env T) w = (Some None, v)" using live_disconnects by blast
  show ?thesis
    by (simp add: connect_attempt_def v cli_Set_def cli_Connect_def cli_ok_def cli_run_def live_exec waitConnected_def live_state
        live_up_app is_disconnect_def)
qed

interpretation live: steady_layers "agent_drivers (Suc n) live_env T marshal pick" 0 "\<lambda>ul. ul_mode ul = ''host''" for n T marshal pick
proof
  fix ul :: uplink_cfg and w :: "'z rec_world_scheme" and location protocol
  show "fst (run_state (d_killswitch (agent_drivers (Suc n) live_env T marshal pick) ul) w) = None" if "ul_mode ul = ''host''"
    using that by (simp add: agent_drivers_def ks_apply_def load_params_def dockerSubnet_def applyNFT_def with_temp_file_def live_env_def demo_env_def ok_env_def Let_def)
  show "snd (fst (run_state (d_uplink (agent_drivers (Suc n) live_env T marshal pick) ul) w)) = None" if "ul_mode ul = ''host''"
    using that by (simp add: agent_drivers_def settled_def ul_apply_def Let_def split: prod.split)
  show "fst (run_state (d_connect (agent_drivers (Suc n) live_env T marshal pick) location protocol) w) = None \<longleftrightarrow> 0 \<le> connects w"
  proof -
    obtain v where "run_state (connect_attempt (Suc n) live_env T location protocol) w = (Some (Inr None), v)" using live_attempt by blast
    then show ?thesis
      by (simp add: agent_drivers_def settled_def xv_Connect_def connectRetries_def numeral_3_eq_3 split: prod.split)
  qed
qed

end
