(* ===== verification/Lockdown.thy ===== *)
theory Lockdown
  imports Reconciler
begin

text \<open>
  The reconciler together with the kill switch and the ExpressVPN manager: the agent never tells the
  daemon to connect before the rules of the configured uplink are loaded. The kill switch proves what a
  successful \<open>Apply\<close> has loaded, the reconciler the order of a pass; here the two are put together over
  the trace of the commands that were run, for every sequence of passes. \<open>calm\<close> operations leave alone
  what is known of the loaded rules, \<open>unconnecting\<close> ones never run \<open>expressvpnctl connect\<close>.
\<close>

section \<open>Who touches the rules\<close>

definition rules_known :: "'z rec_world_scheme \<Rightarrow> uplink_cfg option \<times> params \<times> string" where
  "rules_known w = (rc_appliedKS w, ks_params w, ks_backend w)"

lemma keeps_st [keep_intros]:
  "(\<And>s w. f (w\<lparr>w_st := s\<rparr>) = f w) \<Longrightarrow> keeps f (st_update g)" "keeps f st_get"
  by (simp_all add: keeps_def st_update_def)

definition calm :: "('z rec_world_scheme, 'a) state \<Rightarrow> bool" where
  "calm m \<longleftrightarrow> keeps rules_known m"

lemma calm_bind [keep_intros]: "calm m \<Longrightarrow> (\<And>x. calm (f x)) \<Longrightarrow> calm (m \<bind> f)"
  by (simp add: calm_def keeps_bind)

lemma calm_only: "only_effects m \<Longrightarrow> calm m"
  by (auto simp: calm_def rules_known_def intro: keeps_only)

lemmas calm_basic [keep_intros] = only_basic [THEN calm_only]

lemma calm_modify [keep_intros]: "(\<And>w. rules_known (f w) = rules_known w) \<Longrightarrow> calm (modify f)"
  by (simp add: calm_def keep_intros)

lemma calm_st [keep_intros]: "calm (st_update f)" "calm st_get"
  by (simp_all add: calm_def rules_known_def keep_intros)

lemma calm_cases [keep_intros]:
  "(c \<Longrightarrow> calm a) \<Longrightarrow> (\<not> c \<Longrightarrow> calm b) \<Longrightarrow> calm (if c then a else b)"
  "calm a \<Longrightarrow> (\<And>x. calm (f x)) \<Longrightarrow> calm (case_option a f r)"
  "(\<And>x. calm (g x)) \<Longrightarrow> (\<And>x. calm (h x)) \<Longrightarrow> calm (case_sum g h s)"
  "(\<And>x y. calm (k x y)) \<Longrightarrow> calm (case_prod k p)"
  by (auto split: option.split sum.split prod.split)

lemma calm_attempt [keep_intros]: "calm m \<Longrightarrow> (\<And>x. calm (f x)) \<Longrightarrow> calm (attempt m f)"
  unfolding attempt_def by (intro keep_intros)

lemma calm_settled: "calm m \<Longrightarrow> calm (settled d m)"
  unfolding settled_def by (intro keep_intros)

lemmas calm_ops = routes_only [THEN calm_only] cli_only [THEN calm_only] resolve_only [THEN calm_only]

lemma poll_calm: "calm chk \<Longrightarrow> calm (poll_loop n E d p chk ok late)"
  by (induction n) (auto intro!: keep_intros)

lemma xv_disconnect_calm: "calm (xv_Disconnect n E T)"
  unfolding xv_Disconnect_def xv_disconnect_def waitDisconnected_def
  by (intro keep_intros calm_ops poll_calm)

lemma xv_connect_calm: "calm (xv_Connect n E T l p)"
proof -
  have a: "calm (connect_attempt n E T l p)"
    unfolding connect_attempt_def ensureDisconnected_def waitConnected_def
    by (intro keep_intros calm_ops poll_calm xv_disconnect_calm [unfolded xv_Disconnect_def])
  have c: "calm (afterConnect E)"
    unfolding afterConnect_def by (intro keep_intros calm_ops)
  have "calm (connect_from k n E T l p d e)" for k d e
    by (induction k arbitrary: d e) (auto intro!: keep_intros a c)
  then show ?thesis unfolding xv_Connect_def .
qed

lemma toggles_calm: "calm (set_toggles E ts)"
  by (induction ts) (auto intro!: keep_intros calm_ops)

lemma uplink_calm: "calm (ul_apply n E marshal (resolveIPv4 E) cfg)"
proof -
  have s: "calm (stopProc E)"
    unfolding stopProc_def by (intro keep_intros) (auto simp: rules_known_def)
  have t: "calm (teardown E)"
    unfolding teardown_def by (intro keep_intros calm_ops s) (auto simp: rules_known_def)
  have "calm (start_wait n E d)" for d
    by (induction n) (auto intro!: keep_intros calm_ops s simp: rules_known_def)
  then have p: "calm (startProc n E)"
    unfolding startProc_def by (intro keep_intros) (auto simp: rules_known_def)
  show ?thesis
    unfolding ul_apply_def statusOf_def socks_rebuild_def socks_build_def socks_up_def startProbe_def Let_def
    by (intro keep_intros calm_ops t p procAlive_only [THEN calm_only]) (auto simp: rules_known_def)
qed

lemma wait_probe_calm: "calm (wait_probe E)"
  unfolding wait_probe_def waitUDP_def probe_finish_def publish_udp_def
  by (intro keep_intros) (auto simp: rules_known_def)

section \<open>Who connects\<close>

abbreviation "unconnecting \<equiv> emits (\<lambda>e. \<not> is_connect e)"

lemma resolve_quiet: "unconnecting (resolveIPv4 E host)"
  unfolding resolveIPv4_def getContainerDNS_def by (intro emit_intros; simp)

lemma firewall_quiet: "unconnecting (ks_apply E (resolveIPv4 E) cfg)"
  unfolding ks_apply_def load_params_def applyNFT_def applyIptables_def insertJump_def with_temp_file_def
    dockerSubnet_def Let_def
  by (intro emit_intros resolve_quiet; simp add: ctlPath_def)

lemma toggles_quiet: "unconnecting (set_toggles E ts)"
  by (induction ts) (auto intro!: emit_intros)

lemma routes_quiet [emit_intros]:
  "unconnecting (ipRoute E as)" "unconnecting (linkExists E i)" "unconnecting (tcpCheck E ip port)"
  "unconnecting (procAlive E)" "unconnecting (stopProc E)" "unconnecting (restoreResolvConf E s)"
  "unconnecting (redirectResolvConf E)" "unconnecting (detectGateway E)"
  unfolding ipRoute_def linkExists_def tcpCheck_def procAlive_def stopProc_def restoreResolvConf_def
    redirectResolvConf_def detectGateway_def
  by (intro emit_intros; simp add: ctlPath_def)+

lemma uplink_quiet: "unconnecting (ul_apply n E marshal (resolveIPv4 E) cfg)"
proof -
  have c: "unconnecting m \<Longrightarrow> unconnecting k \<Longrightarrow> unconnecting (check m k)" for m k :: "('b world_scheme, go_error option) state"
    unfolding check_def by (intro emit_intros)
  have t: "unconnecting (teardown E)"
    unfolding teardown_def restoreHostRoutes_def by (intro emit_intros c; simp)
  have "unconnecting (start_wait n E d)" for d
    by (induction n) (auto intro!: emit_intros)
  then have p: "unconnecting (startProc n E)"
    unfolding startProc_def by (intro emit_intros; simp)
  show ?thesis
    unfolding ul_apply_def statusOf_def socks_rebuild_def socks_build_def socks_up_def startProbe_def applyRoutes_def Let_def
    by (intro emit_intros c t p resolve_quiet; simp)
qed

lemma steps_quiet:
  fixes E n T marshal pick
  defines "D \<equiv> agent_drivers n E T marshal pick"
  shows "unconnecting (ks_step E D cfg)" "unconnecting (uplink_step E D cfg s)" "unconnecting (settings_step E D ev)"
  unfolding ks_step_def uplink_step_def settings_step_def D_def agent_drivers_def settled_def applySettings_def
    ghost_def rec_fail_def forgetConnection_def drivers.simps
  by (intro emit_intros firewall_quiet uplink_quiet toggles_quiet; simp)+

lemma calm_desired: "calm a \<Longrightarrow> calm b \<Longrightarrow> calm (case_desired_connection a b d)"
  by (cases d) auto

lemma steps_calm:
  fixes E n T marshal pick
  defines "D \<equiv> agent_drivers n E T marshal pick"
  shows "calm (uplink_step E D cfg s)" "calm (settings_step E D ev)" "calm (connect_step E D c)"
  unfolding uplink_step_def settings_step_def connect_step_def attempt_connect_def prepare_connect_def await_udp_def
    onConnectFailure_def D_def agent_drivers_def applySettings_def ghost_def rec_fail_def forgetConnection_def Let_def drivers.simps
  by (intro keep_intros calm_desired calm_settled uplink_calm toggles_calm xv_connect_calm xv_disconnect_calm wait_probe_calm;
      simp add: rules_known_def)+


section \<open>The rules are loaded before the VPN connects\<close>

text \<open>What the reconciler believes of the kill switch is what has been done: the rules of \<open>appliedKS\<close>
  have been loaded.\<close>

definition guarded :: "env \<Rightarrow> 'z rec_world_scheme \<Rightarrow> bool" where
  "guarded E w \<longleftrightarrow> (\<forall>u. rc_appliedKS w = Some u \<longrightarrow> params_for u (ks_params w) (ks_params w) \<and>
     (\<exists>h. prefix h (trace w) \<and> loaded E (ks_params w) (ks_backend w) h))"

lemma guarded_kept:
  assumes "guarded E w" and "rules_known v = rules_known w" and "prefix (trace w) (trace v)"
  shows "guarded E v"
  using assms by (auto simp: guarded_def rules_known_def intro: prefix_order.trans)

lemma params_for_self: "params_for u p q \<Longrightarrow> params_for u q q"
  by (simp add: params_for_def)

text \<open>The kill switch step: as \<open>guarded\<close> as before, and on success for the given uplink.\<close>

lemma ks_step_guarded:
  assumes run: "run_state (ks_step E (agent_drivers n E T marshal pick) cfg) w = (on, v)" and "guarded E w"
  shows "guarded E v" and "on \<Longrightarrow> rc_appliedKS v = Some cfg"
proof -
  obtain e u where ks: "run_state (ks_apply E (resolveIPv4 E) cfg) w = (e, u)" by fastforce
  note post = ks_apply_run [OF ks resolve_only]
  obtain es where es: "trace u = trace w @ es" and own: "own_fields u = own_fields w"
    using ks_apply_owned [of E cfg] ks unfolding owned_def keeps_def extending_def by (metis snd_conv)
  have kept: "rc_appliedKS u = rc_appliedKS w" using own by (simp add: own_fields_def)
  show "on \<Longrightarrow> rc_appliedKS v = Some cfg"
    using run ks by (auto simp: ks_step_def agent_drivers_def ghost_def rec_fail_def split: if_splits option.splits)
  have "guarded E v" if ne: "rc_appliedKS w \<noteq> Some cfg"
  proof (cases e)
    case None
    with post have p: "params_for cfg (ks_params w) (ks_params u)" "loaded E (ks_params u) (ks_backend u) (trace u)" by simp_all
    have "rc_appliedKS v = Some cfg" "ks_params v = ks_params u" "ks_backend v = ks_backend u" "trace v = trace u"
      using run ks None ne by (auto simp: ks_step_def agent_drivers_def ghost_def)
    with p show ?thesis by (auto simp: guarded_def intro: params_for_self)
  next
    case (Some err)
    with post obtain fs where u: "u = w\<lparr>trace := trace w @ fs\<rparr>" by auto
    have "rules_known v = rules_known w" "trace v = trace w @ fs @ [Clock]"
      using run ks Some ne by (auto simp: ks_step_def agent_drivers_def ghost_def rec_fail_def rules_known_def u)
    with \<open>guarded E w\<close> show ?thesis by (auto intro: guarded_kept)
  qed
  moreover have "guarded E v" if "rc_appliedKS w = Some cfg"
    using run that \<open>guarded E w\<close> by (auto simp: ks_step_def)
  ultimately show "guarded E v" by blast
qed

definition quietly :: "'z world_scheme \<Rightarrow> 'z world_scheme \<Rightarrow> bool" where
  "quietly w v \<longleftrightarrow> (\<exists>es. trace v = trace w @ es \<and> list_all (\<lambda>e. \<not> is_connect e) es)"

lemma quietly_trans: "quietly w u \<Longrightarrow> quietly u v \<Longrightarrow> quietly w v"
  by (auto simp: quietly_def)

lemma quiet_run: "unconnecting m \<Longrightarrow> run_state m w = (a, v) \<Longrightarrow> quietly w v"
  unfolding quietly_def emits_def by (metis snd_conv)

lemma calm_run: "calm m \<Longrightarrow> run_state m w = (a, v) \<Longrightarrow> rules_known v = rules_known w"
  unfolding calm_def by (rule keepsD)

lemma ks_step_ifaces:
  assumes "run_state (ks_step E (agent_drivers n E T marshal pick) cfg) w = (on, v)"
  shows "p_TunIface (ks_params v) = p_TunIface (ks_params w)"
    and "p_EthIface (ks_params v) = p_EthIface (ks_params w)"
    and "p_UplinkIface (ks_params v) = p_UplinkIface (ks_params w)"
proof -
  obtain e u where ks: "run_state (ks_apply E (resolveIPv4 E) cfg) w = (e, u)" by fastforce
  from ks_apply_run [OF ks resolve_only]
  have "p_TunIface (ks_params u) = p_TunIface (ks_params w) \<and> p_EthIface (ks_params u) = p_EthIface (ks_params w) \<and>
      p_UplinkIface (ks_params u) = p_UplinkIface (ks_params w)"
    by (auto simp: params_for_def split: option.splits)
  then show "p_TunIface (ks_params v) = p_TunIface (ks_params w)" "p_EthIface (ks_params v) = p_EthIface (ks_params w)"
      "p_UplinkIface (ks_params v) = p_UplinkIface (ks_params w)"
    using assms ks by (auto simp: ks_step_def agent_drivers_def ghost_def rec_fail_def split: if_splits option.splits)
qed

text \<open>A pass: the kill switch step, then either nothing, or two steps that never connect, then the
  connection.\<close>

lemma pass_steps:
  assumes run: "run_state (reconcile E (agent_drivers n E T marshal pick)) w = (r, v)"
  obtains on a where "run_state (ks_step E (agent_drivers n E T marshal pick) (cf_uplink (rc_cfg w))) w = (on, a)"
    and "on \<and> (\<exists>x. quietly a x \<and> rules_known x = rules_known a \<and>
        (v = x \<or> (\<exists>c. run_state (connect_step E (agent_drivers n E T marshal pick) c) x = (r, v)))) \<or> v = a"
proof -
  let ?D = "agent_drivers n E T marshal pick"
  obtain on a where a: "run_state (ks_step E ?D (cf_uplink (rc_cfg w))) w = (on, a)" by fastforce
  obtain on2 b where b: "run_state (uplink_step E ?D (cf_uplink (rc_cfg w)) (snap_of w)) a = (on2, b)" by fastforce
  obtain u x where x: "run_state (settings_step E ?D (cf_expressvpn (rc_cfg w))) b = (u, x)" by (metis surj_pair)
  note qs = quiet_run [OF steps_quiet(2) b] quiet_run [OF steps_quiet(3) x]
  note cs = calm_run [OF steps_calm(1) b] calm_run [OF steps_calm(2) x]
  have "on \<and> (\<exists>x. quietly a x \<and> rules_known x = rules_known a \<and>
        (v = x \<or> (\<exists>c. run_state (connect_step E ?D c) x = (r, v)))) \<or> v = a"
  proof (cases "on \<and> on2")
    case True
    with run a b x have "run_state (connect_step E ?D (rc_cfg w)) x = (r, v)"
      by (simp add: reconcile_def Let_def st_get_def)
    with True qs cs show ?thesis by (auto intro: quietly_trans)
  next
    case False
    with run a b have "v = a \<or> on \<and> v = b"
      by (auto simp: reconcile_def Let_def st_get_def split: if_splits)
    with qs cs show ?thesis by auto
  qed
  with a show thesis by (rule that)
qed


lemma connect_before:
  assumes "quietly w x" and "trace v = trace x @ fs" and "trace v = trace w @ es1 @ e # es2" and "is_connect e"
  shows "prefix (trace x) (trace w @ es1)"
proof -
  obtain qs where qs: "trace x = trace w @ qs" "list_all (\<lambda>e. \<not> is_connect e) qs"
    using assms(1) by (auto simp: quietly_def)
  then have "qs @ fs = es1 @ e # es2" using assms(2,3) by simp
  then consider us where "es1 = qs @ us" | us where "qs = es1 @ e # us"
    by (auto simp: append_eq_append_conv2 append_eq_Cons_conv Cons_eq_append_conv)
  then show ?thesis
  proof cases
    case (2 us)
    with qs(2) assms(4) show ?thesis by simp
  qed (simp add: qs(1))
qed

lemma pass_locked:
  assumes run: "run_state (reconcile E (agent_drivers n E T marshal pick)) w = (r, v)" and "guarded E w"
  shows "guarded E v" and "p_TunIface (ks_params v) = p_TunIface (ks_params w)"
    and "p_EthIface (ks_params v) = p_EthIface (ks_params w)" and "prefix (trace w) (trace v)"
    and "trace v = trace w @ es1 @ e # es2 \<Longrightarrow> is_connect e \<Longrightarrow>
      \<exists>h p b. prefix h (trace w @ es1) \<and> loaded E p b h \<and> params_for (cf_uplink (rc_cfg w)) (ks_params w) p"
proof -
  let ?D = "agent_drivers n E T marshal pick" and ?u = "cf_uplink (rc_cfg w)"
  from run show pre: "prefix (trace w) (trace v)"
    using agent.pass_order [OF run] wpD [OF agent.reconcile_wp run]
    by (auto simp: Let_def stopped_def passed_def layers_up_def conn_outcome_def)
  obtain on a where a: "run_state (ks_step E ?D ?u) w = (on, a)"
    and rest: "on \<and> (\<exists>x. quietly a x \<and> rules_known x = rules_known a \<and>
        (v = x \<or> (\<exists>c. run_state (connect_step E ?D c) x = (r, v)))) \<or> v = a"
    using run by (rule pass_steps)
  note g = ks_step_guarded [OF a assms(2)] and ifaces = ks_step_ifaces [OF a] and wa = quiet_run [OF steps_quiet(1) a]
  have pa: "prefix (trace w) (trace a)" using wa by (auto simp: quietly_def)
  have "\<exists>x fs. quietly w x \<and> rules_known x = rules_known a \<and> rules_known v = rules_known a \<and>
      prefix (trace a) (trace x) \<and> trace v = trace x @ fs \<and> (on \<or> fs = [])"
  proof (cases "v = a")
    case False
    with rest obtain x where x: "on" "quietly a x" "rules_known x = rules_known a"
      and v: "v = x \<or> (\<exists>c. run_state (connect_step E ?D c) x = (r, v))" by blast
    have "rules_known v = rules_known x \<and> (\<exists>fs. trace v = trace x @ fs)"
      using v
    proof
      assume "\<exists>c. run_state (connect_step E ?D c) x = (r, v)"
      then obtain c where c: "run_state (connect_step E ?D c) x = (r, v)" by blast
      from calm_run [OF steps_calm(3) c] wpD [OF agent.connect_step_wp c] show ?thesis
        by (auto simp: conn_outcome_def passed_def)
    qed simp
    with x quietly_trans [OF wa x(2)] show ?thesis unfolding prefix_def quietly_def by metis
  qed (use wa in auto)
  then obtain x fs where x: "quietly w x" "rules_known x = rules_known a" "rules_known v = rules_known a"
    "prefix (trace a) (trace x)" "trace v = trace x @ fs" "on \<or> fs = []" by blast
  show "guarded E v"
    using guarded_kept [OF g(1) x(3)] x(4,5) by (auto simp: prefix_def)
  show "p_TunIface (ks_params v) = p_TunIface (ks_params w)" "p_EthIface (ks_params v) = p_EthIface (ks_params w)"
    using x(3) ifaces by (simp_all add: rules_known_def)
  assume e: "trace v = trace w @ es1 @ e # es2" "is_connect e"
  from connect_before [OF x(1,5) e] have before: "prefix (trace x) (trace w @ es1)" .
  have "fs \<noteq> []"
  proof
    assume "fs = []"
    with before x(5) e have "length (trace x) \<le> length (trace w @ es1)" "trace x = trace w @ es1 @ e # es2"
      by (auto dest: prefix_length_le)
    then show False by simp
  qed
  with x(6) have on by simp
  then have ap: "rc_appliedKS a = Some ?u" by (rule g(2))
  with g(1) obtain h where p: "params_for ?u (ks_params a) (ks_params a)" and h: "prefix h (trace a)"
    and l: "loaded E (ks_params a) (ks_backend a) h"
    unfolding guarded_def by blast
  have "prefix h (trace w @ es1)"
    using h x(4) before by (meson prefix_order.trans)
  moreover have "params_for ?u (ks_params w) (ks_params a)"
    using p ifaces by (simp add: params_for_def)
  ultimately show "\<exists>h p b. prefix h (trace w @ es1) \<and> loaded E p b h \<and> params_for ?u (ks_params w) p"
    using l by blast
qed

section \<open>Property\<close>

text \<open>What may happen between passes: anything that other goroutines do, as long as it is not the
  kill switch's own state that changes (only the reconciler applies it).\<close>

inductive agent_reach :: "env \<Rightarrow> params \<Rightarrow> 'z rec_world_scheme \<Rightarrow> bool" for E p0 where
  starts: "rc_appliedKS w = None \<Longrightarrow> ks_params w = p0 \<Longrightarrow> agent_reach E p0 w"
| passes: "agent_reach E p0 w \<Longrightarrow> run_state (reconcile E (agent_drivers n E T marshal pick)) w = (r, v) \<Longrightarrow> agent_reach E p0 v"
| others: "agent_reach E p0 w \<Longrightarrow> rules_known v = rules_known w \<Longrightarrow> prefix (trace w) (trace v) \<Longrightarrow> agent_reach E p0 v"

lemma reach_guarded:
  assumes "agent_reach E p0 w"
  shows "guarded E w \<and> p_TunIface (ks_params w) = p_TunIface p0 \<and> p_EthIface (ks_params w) = p_EthIface p0"
  using assms
proof (induction rule: agent_reach.induct)
  case (passes w n T marshal pick r v)
  then show ?case using pass_locked(1-3) [OF passes(2)] by simp
next
  case (others w v)
  then show ?case using guarded_kept [of E w v] by (auto simp: rules_known_def)
qed (simp add: guarded_def)

text \<open>C1: The VPN is told to connect only behind the kill switch. After any sequence of passes and of
  changes by other goroutines, every \<open>expressvpnctl connect\<close> of a pass comes after the successful load of
  the rules for the uplink that this pass is to bring about, and with these rules a packet that carries
  the proxy's mark leaves only over loopback, through the tunnel or to the Docker subnet.\<close>

theorem connects_behind_rules:
  assumes "agent_reach E p0 w" and "run_state (reconcile E (agent_drivers n E T marshal pick)) w = (r, v)"
    and "trace v = trace w @ es1 @ e # es2" and "is_connect e"
  shows "\<exists>h p b. prefix h (trace w @ es1) \<and> loaded E p b h \<and> p_Mode p = ul_mode (cf_uplink (rc_cfg w)) \<and>
    (\<forall>net (pk :: 'ip packet). (nft_verdict net p pk = Accept \<or> ipt_verdict net p pk = Accept) \<and> pk_mark pk = Mark \<longrightarrow>
      pk_oif pk = ''lo'' \<or> pk_oif pk = p_TunIface p0 \<or>
      pk_oif pk = p_EthIface p0 \<and> net (p_DockerSubnet p) (pk_dst pk))"
proof -
  note w = reach_guarded [OF assms(1)]
  from pass_locked(5) [OF assms(2) _ assms(3,4)] w obtain h p b where p: "prefix h (trace w @ es1)" "loaded E p b h"
    "params_for (cf_uplink (rc_cfg w)) (ks_params w) p" by blast
  moreover have "p_TunIface p = p_TunIface p0" "p_EthIface p = p_EthIface p0" "p_Mode p = ul_mode (cf_uplink (rc_cfg w))"
    using w p(3) by (simp_all add: params_for_def)
  ultimately show ?thesis
    using nft.no_leak ipt.no_leak by metis
qed

definition fresh_world :: rec_world where
  "fresh_world = ready_world\<lparr>rc_appliedKS := None\<rparr>"

lemma fresh_ks: "\<exists>es p. run_state (ks_step demo_env demo_drivers (cf_uplink default_config)) fresh_world =
    (True, ready_world\<lparr>trace := es, ks_backend := ''nft'', ks_params := p,
       rc_calls := [KsApply (cf_uplink default_config) True], w_st := update (set_ks_active True) (w_st ready_world)\<rparr>) \<and>
    \<not> list_ex is_connect es"
  by (simp add: ks_step_def agent_drivers_def ks_apply_def dockerSubnet_def load_params_def applyNFT_def with_temp_file_def
      demo_env_def ok_env_def fresh_world_def ready_world_def ghost_def default_config_def st_update_def Let_def ctlPath_def)


lemma prepare_host: "\<exists>u. run_state (prepare_connect D default_config (want_of default_config)) w = (''auto'', u) \<and> trace u = trace w"
  by (simp add: prepare_connect_def await_udp_def Let_def default_config_def want_of_def EffectiveProtocol_def)

lemma fresh_pass: "\<exists>v es1 e es2. run_state (reconcile demo_env demo_drivers) fresh_world = ((), v) \<and>
    trace v = trace fresh_world @ es1 @ e # es2 \<and> is_connect e"
proof -
  define s where "s = update (set_ks_active True) (w_st ready_world)"
  from fresh_ks [folded s_def] obtain tr p where a: "run_state (ks_step demo_env demo_drivers (cf_uplink default_config)) fresh_world =
      (True, ready_world\<lparr>trace := tr, ks_backend := ''nft'', ks_params := p,
        rc_calls := [KsApply (cf_uplink default_config) True], w_st := s\<rparr>)"
    and tr: "\<not> list_ex is_connect tr"
    by (elim exE conjE)
  let ?a = "ready_world\<lparr>trace := tr, ks_backend := ''nft'', ks_params := p,
        rc_calls := [KsApply (cf_uplink default_config) True], w_st := s\<rparr>"
  let ?w = "?a\<lparr>rc_force := [], trace := tr @ [Clock]\<rparr>"
  have shown: "s_desired (store_get s) = DesiredConnected" "conn_of (store_get s) = ConnDisconnected"
    using ready_facts(10,11) by (simp_all add: s_def)
  obtain u where u: "run_state (prepare_connect demo_drivers default_config (want_of default_config)) ?w = (''auto'', u)"
    and u_tr: "trace u = tr @ [Clock]"
    using prepare_host [of demo_drivers ?w] by auto
  have no: "\<not> list_ex is_connect (trace u)" using tr u_tr by simp
  have "wp (d_connect demo_drivers [] ''auto'') (\<lambda>e v. e = None) u"
    unfolding One_nat_def by (rule wp_demo_connect [OF no]) simp
  then obtain d where d: "run_state (d_connect demo_drivers [] ''auto'') u = (None, d)"
    by (auto simp: wp_def split: prod.splits)
  then have "run_state (xv_Connect 1 demo_env defaultTimings [] ''auto'') u = (Some None, d)"
    by (auto simp: agent_drivers_def settled_def hung_def split: prod.splits option.splits)
  from connect_from_ok [OF this [unfolded xv_Connect_def]]
  obtain h where h: "prefix (trace u) h" "prefix (h @ [connect_event defaultTimings []]) (trace d)"
    unfolding new_session_def by (meson append_prefixD prefix_order.trans)
  have want: "cn_Location (want_of default_config) = []" by (simp add: want_of_def default_config_def)
  have "run_state (connect_step demo_env demo_drivers default_config) ?a =
      run_state (attempt_connect demo_env demo_drivers default_config (want_of default_config)) ?w"
    by (simp add: connect_step_def ready_facts shown Let_def want_of_def maxReconnectFailures_def)
  moreover have "\<exists>v. run_state (attempt_connect demo_env demo_drivers default_config (want_of default_config)) ?w = ((), v) \<and>
      trace v = trace d"
    using u d by (simp add: attempt_connect_def ghost_def want st_update_def)
  moreover have "run_state (reconcile demo_env demo_drivers) fresh_world =
      run_state (connect_step demo_env demo_drivers default_config) ?a"
    using a steps_noop(2) [of ?a "cf_uplink default_config" demo_env demo_drivers "snap_of fresh_world"]
      steps_noop(3) [of ?a "cf_expressvpn default_config" demo_env demo_drivers]
    by (simp add: reconcile_def fresh_world_def ready_facts Let_def st_get_def)
  ultimately obtain v where v: "run_state (reconcile demo_env demo_drivers) fresh_world = ((), v)" "trace v = trace d" by auto
  have "trace fresh_world = []" by (simp add: fresh_world_def ready_facts)
  moreover obtain es2 where "trace d = h @ connect_event defaultTimings [] # es2"
    using h(2) by (auto simp: prefix_def)
  moreover have "is_connect (connect_event defaultTimings [])" by (simp add: connect_event_def)
  ultimately show ?thesis using v by (metis append_Nil)
qed

theorem connects_behind_rules_witness:
  "\<exists>h p b. loaded demo_env p b h \<and> p_Mode p = ''host''"
proof -
  obtain v es1 e es2 where run: "run_state (reconcile demo_env demo_drivers) fresh_world = ((), v)"
    "trace v = trace fresh_world @ es1 @ e # es2" "is_connect e" using fresh_pass by blast
  have "agent_reach demo_env ks_defaults fresh_world"
    by (rule starts) (simp_all add: fresh_world_def ready_world_def)
  from connects_behind_rules [OF this run, where 'ip = nat]
  have "\<exists>h p b. loaded demo_env p b h \<and> p_Mode p = ul_mode (cf_uplink (rc_cfg fresh_world))" by blast
  then show ?thesis by (simp add: fresh_world_def ready_facts default_config_def)
qed

end
