(* ===== verification/Actions.thy ===== *)
theory Actions
  imports Lockdown Api
begin

text \<open>
  The actions of the REST interface on top of the reconciler (\<open>internal/reconciler/actions.go\<close>): they
  change the desired state or the configuration, wake the loop, and wait on a subscription of the state until
  the connection is where they want it, or failed. What the other goroutines do while an action waits
  is a list of programs over the shared world, the rounds: between two of them the action gets to its
  \<open>select\<close>. \<open>Actions\<close> of the interface is the record of the programs that the interface starts.
\<close>

section \<open>World and parameters\<close>

text \<open>The configuration store and the cache of locations are worlds of their own inside this one;
  \<open>ac_started\<close> counts the refreshes started in the background.\<close>

record act_world = rec_world +
  ac_store :: cfg_world
  ac_locs :: loc_world
  ac_started :: nat

record 'w probers =
  pb_ProbeUplink :: "('w, go_error option) state option"
  pb_Selfcheck :: "('w, go_error option) state option"

text \<open>\<open>json.Marshal\<close>, its inverse, and the text of the cache of locations.\<close>

record act_lib =
  lb_marshal :: "json \<Rightarrow> string"
  lb_unmarshal :: "string \<Rightarrow> json option"
  lb_locations :: "int \<Rightarrow> location list \<Rightarrow> string"

text \<open>The reconciler reads the store's configuration; its hook on changes wakes the loop.\<close>

definition in_store :: "(cfg_world, 'a) state \<Rightarrow> ('z act_world_scheme, 'a) state" where
  "in_store m = State (\<lambda>w. let (r, c) = run_state m ((ac_store w)\<lparr>world.trace := world.trace w\<rparr>)
     in (r, w\<lparr>world.trace := world.trace c, ac_store := c, rc_cfg := cw_cur c,
       rc_wake := (rc_wake w \<or> cw_notified c \<noteq> cw_notified (ac_store w))\<rparr>))"

definition in_locs :: "(loc_world, 'a) state \<Rightarrow> ('z act_world_scheme, 'a) state" where
  "in_locs m = State (\<lambda>w. let (r, l) = run_state m ((ac_locs w)\<lparr>world.trace := world.trace w\<rparr>)
     in (r, w\<lparr>world.trace := world.trace l, ac_locs := l\<rparr>))"

definition st_subscribe :: "('z st_world_scheme, nat) state" where
  "st_subscribe = State (\<lambda>w. let (ch, s) = subscribe (w_st w) in (ch, w\<lparr>w_st := s\<rparr>))"

definition st_receive :: "nat \<Rightarrow> ('z st_world_scheme, snapshot option) state" where
  "st_receive ch = State (\<lambda>w. let (x, s) = receive ch (w_st w) in (x, w\<lparr>w_st := s\<rparr>))"

definition st_cancel :: "nat \<Rightarrow> ('z st_world_scheme, unit) state" where
  "st_cancel ch = modify (\<lambda>w. w\<lparr>w_st := cancel ch (w_st w)\<rparr>)"

section \<open>Waiting for the connection\<close>

fun conn_text :: "connection \<Rightarrow> string" where
  "conn_text ConnDisconnected = ''disconnected''"
| "conn_text ConnConnecting = ''connecting''"
| "conn_text ConnConnected = ''connected''"
| "conn_text ConnReconnecting = ''reconnecting''"
| "conn_text ConnError = ''error''"

definition waitTimeout :: int where
  "waitTimeout = seconds 180"

text \<open>What a received snapshot means: go on, success or an error.\<close>

definition reached :: "connection \<Rightarrow> snapshot \<Rightarrow> go_error option option" where
  "reached target s =
     (if conn_of s = target then Some None
      else if conn_of s = ConnError then
        (case s_lastError s of
           Some e \<Rightarrow> Some (Some (CLIError (er_code e) (er_message e) 0))
         | None \<Rightarrow> Some (Some (PlainError ''connection failed'')))
      else None)"

text \<open>\<open>select\<close>: if the deadline has passed and there is a snapshot, either may be taken.\<close>

fun wait_rounds :: "env \<Rightarrow> int \<Rightarrow> nat \<Rightarrow> connection \<Rightarrow> ('z st_world_scheme, unit) state list \<Rightarrow>
    ('z st_world_scheme, go_error option option) state" where
  "wait_rounds E deadline ch target [] = ret None"
| "wait_rounds E deadline ch target (m # ms) = do {
     m;
     now \<leftarrow> do_clock E;
     done_first \<leftarrow> do_flag E ''select'';
     w \<leftarrow> getw;
     (if deadline \<le> now \<and> (bufs (w_st w) ch = [] \<or> done_first)
      then ret (Some (Some (PlainError (''timed out waiting for '' @ conn_text target))))
      else do {
        x \<leftarrow> st_receive ch;
        (case x of
           None \<Rightarrow> wait_rounds E deadline ch target ms
         | Some s \<Rightarrow> (case reached target s of
             Some r \<Rightarrow> ret (Some r)
           | None \<Rightarrow> wait_rounds E deadline ch target ms))
      })
   }"

text \<open>\<open>None\<close>: the action still waits after these rounds.\<close>

definition waitConnection :: "env \<Rightarrow> connection \<Rightarrow> ('z st_world_scheme, unit) state list \<Rightarrow>
    ('z st_world_scheme, go_error option option) state" where
  "waitConnection E target rounds = do {
     t0 \<leftarrow> do_clock E;
     ch \<leftarrow> st_subscribe;
     r \<leftarrow> wait_rounds E (t0 + waitTimeout) ch target rounds;
     (case r of
        None \<Rightarrow> ret None
      | Some e \<Rightarrow> do { st_cancel ch; ret (Some e) })
   }"

section \<open>The actions\<close>

definition want_connected :: "snapshot \<Rightarrow> snapshot" where
  "want_connected s =
     (let s = set_desired DesiredConnected s;
          s = (if conn_of s = ConnError then set_conn ConnDisconnected s else s)
      in set_last_error None s)"

definition act_Connect :: "env \<Rightarrow> act_lib \<Rightarrow> ('z act_world_scheme, unit) state list \<Rightarrow> string \<Rightarrow>
    ('z act_world_scheme, go_error option option) state" where
  "act_Connect E L rounds location = do {
     p \<leftarrow> (if location \<noteq> [] then in_store (apply_merge_patch E (lb_unmarshal L) (lb_marshal L (JObj (location_patch location))))
       else ret (Inr []));
     (case p of
        Inl e \<Rightarrow> ret (Some (Some e))
      | Inr _ \<Rightarrow> do {
          st_update want_connected;
          resetRetries;
          waitConnection E ConnConnected rounds
        })
   }"

definition act_Disconnect :: "env \<Rightarrow> ('z act_world_scheme, unit) state list \<Rightarrow>
    ('z act_world_scheme, go_error option option) state" where
  "act_Disconnect E rounds = do {
     st_update (set_desired DesiredDisconnected);
     wake;
     waitConnection E ConnDisconnected rounds
   }"

definition act_Reconnect :: "env \<Rightarrow> ('z act_world_scheme, unit) state list \<Rightarrow>
    ('z act_world_scheme, go_error option option) state" where
  "act_Reconnect E rounds = do {
     s \<leftarrow> st_get;
     (if s_desired s \<noteq> DesiredConnected
      then ret (Some (Some (CLIError ''not_connected'' ''nothing to reconnect: desired state is disconnected'' 0)))
      else do {
        st_update (set_conn ConnReconnecting);
        forgetConnection ''user_request'';
        resetRetries;
        waitConnection E ConnConnected rounds
      })
   }"

definition act_Login :: "env \<Rightarrow> string \<Rightarrow> ('z act_world_scheme, go_error option) state" where
  "act_Login E activationCode =
     (if activationCode = [] then ret (Some (CLIError ''invalid_activation_code'' ''activation code is empty'' 0))
      else do {
        e \<leftarrow> xv_Login E activationCode;
        (case e of
           Some err \<Rightarrow> ret (Some err)
         | None \<Rightarrow> do { modify (\<lambda>w. w\<lparr>ac_started := Suc (ac_started w)\<rparr>); ret None })
      })"

definition act_Logout :: "env \<Rightarrow> ('z act_world_scheme, go_error option) state" where
  "act_Logout E = xv_Logout E"

definition act_RefreshLocations :: "env \<Rightarrow> act_lib \<Rightarrow> ('z act_world_scheme, go_error option) state" where
  "act_RefreshLocations E L = in_locs (loc_Refresh E (lb_locations L))"

definition act_Selfcheck :: "'w probers \<Rightarrow> ('w, go_error option) state" where
  "act_Selfcheck P = (case pb_Selfcheck P of
     None \<Rightarrow> ret (Some (CLIError ''not_implemented'' ''self-check is not available yet'' 0))
   | Some m \<Rightarrow> m)"

definition act_ProbeUplink :: "'w probers \<Rightarrow> ('w, go_error option) state" where
  "act_ProbeUplink P = (case pb_ProbeUplink P of
     None \<Rightarrow> ret (Some (CLIError ''not_implemented'' ''uplink probe is not available yet'' 0))
   | Some m \<Rightarrow> m)"

definition act_Locations :: "('z act_world_scheme, location list) state" where
  "act_Locations = in_locs loc_List"

text \<open>What the goroutine of an operation runs for a call of the interface.\<close>

definition run_action :: "env \<Rightarrow> act_lib \<Rightarrow> ('z act_world_scheme) probers \<Rightarrow> ('z act_world_scheme, unit) state list \<Rightarrow>
    action_call \<Rightarrow> ('z act_world_scheme, go_error option option) state" where
  "run_action E L P rounds c = (case c of
     CallConnect l \<Rightarrow> act_Connect E L rounds l
   | CallDisconnect \<Rightarrow> act_Disconnect E rounds
   | CallReconnect \<Rightarrow> act_Reconnect E rounds
   | CallLogin code \<Rightarrow> do { e \<leftarrow> act_Login E code; ret (Some e) }
   | CallLogout \<Rightarrow> do { e \<leftarrow> act_Logout E; ret (Some e) }
   | CallRefreshLocations \<Rightarrow> do { e \<leftarrow> act_RefreshLocations E L; ret (Some e) }
   | CallSelfcheck \<Rightarrow> do { e \<leftarrow> act_Selfcheck P; ret (Some e) }
   | CallProbeUplink \<Rightarrow> do { e \<leftarrow> act_ProbeUplink P; ret (Some e) })"

section \<open>Programs that publish\<close>

text \<open>What happened to the store of the state was a sequence of updates.\<close>

definition updated :: "'z st_world_scheme \<Rightarrow> 'z st_world_scheme \<Rightarrow> bool" where
  "updated w v \<longleftrightarrow> (\<exists>fs. w_st v = fold update fs (w_st w))"

interpretation pub: step_frame updated
proof
  fix u v w :: "'z st_world_scheme"
  show "updated w w" unfolding updated_def by (rule exI [of _ "[]"]) simp
  show "updated u v \<Longrightarrow> updated v w \<Longrightarrow> updated u w" unfolding updated_def by (metis fold_append comp_apply)
qed

text \<open>A frame that holds between states with the same store of the state and the same fields of the surrounding agent,
  and over an update of that store: all that the reconciler and its layers do is within it.\<close>

lemma more_fields [simp]:
  fixes w :: "'z rec_world_scheme"
  shows "rec_world.more (w\<lparr>trace := es\<rparr>) = rec_world.more w" "rec_world.more (w\<lparr>w_st := s\<rparr>) = rec_world.more w"
    "rec_world.more (w\<lparr>containerDNS := d\<rparr>) = rec_world.more w" "rec_world.more (w\<lparr>ks_params := p\<rparr>) = rec_world.more w"
    "rec_world.more (w\<lparr>ks_backend := d\<rparr>) = rec_world.more w" "rec_world.more (w\<lparr>ks_legacyLogged := b\<rparr>) = rec_world.more w"
    "rec_world.more (w\<lparr>ul_proc := b\<rparr>) = rec_world.more w" "rec_world.more (w\<lparr>ul_applied := u\<rparr>) = rec_world.more w"
    "rec_world.more (w\<lparr>ul_probeRun := r\<rparr>) = rec_world.more w" "rec_world.more (w\<lparr>ul_nextRun := n\<rparr>) = rec_world.more w"
    "rec_world.more (w\<lparr>ul_probes := ps\<rparr>) = rec_world.more w" "rec_world.more (w\<lparr>ul_proxyIP := d\<rparr>) = rec_world.more w"
    "rec_world.more (w\<lparr>ul_gw := d\<rparr>) = rec_world.more w" "rec_world.more (w\<lparr>ul_savedResolv := o1\<rparr>) = rec_world.more w"
    "rec_world.more (w\<lparr>rc_appliedKS := u\<rparr>) = rec_world.more w" "rec_world.more (w\<lparr>rc_appliedUplink := u\<rparr>) = rec_world.more w"
    "rec_world.more (w\<lparr>rc_appliedEVPN := e\<rparr>) = rec_world.more w" "rec_world.more (w\<lparr>rc_appliedConn := c\<rparr>) = rec_world.more w"
    "rec_world.more (w\<lparr>rc_failures := n\<rparr>) = rec_world.more w" "rec_world.more (w\<lparr>rc_nextRetry := t\<rparr>) = rec_world.more w"
    "rec_world.more (w\<lparr>rc_force := d\<rparr>) = rec_world.more w" "rec_world.more (w\<lparr>rc_wake := b\<rparr>) = rec_world.more w"
    "rec_world.more (w\<lparr>rc_calls := cs\<rparr>) = rec_world.more w" "rec_world.more (w\<lparr>rc_timers := ts\<rparr>) = rec_world.more w"
  by (cases w; simp)+

locale store_frame = step_frame R for R :: "'z rec_world_scheme \<Rightarrow> 'z rec_world_scheme \<Rightarrow> bool" +
  assumes inner: "w_st v = w_st w \<Longrightarrow> prefix (trace w) (trace v) \<Longrightarrow> rec_world.more v = rec_world.more w \<Longrightarrow> R w v"
    and published: "R w (w\<lparr>w_st := update f (w_st w)\<rparr>)"
begin

lemma in_modify:
  "(\<And>w. w_st (f w) = w_st w \<and> trace (f w) = trace w \<and> rec_world.more (f w) = rec_world.more w) \<Longrightarrow> within (modify f)"
  by (simp add: within_def inner)

lemma in_only: "only_effects m \<Longrightarrow> within m"
  unfolding within_def
proof
  fix w
  assume "only_effects m"
  then obtain es where "snd (run_state m w) = w\<lparr>trace := trace w @ es\<rparr>" by (auto simp: only_effects_def)
  then show "R w (snd (run_state m w))" by (simp add: inner)
qed

lemma in_st: "within (st_update f)" "within st_get"
  by (simp_all add: within_def st_update_def published same st_get_def)

lemma in_settled: "within m \<Longrightarrow> within (settled d m)"
  unfolding settled_def by (intro within_intros)

lemma in_desired: "within a \<Longrightarrow> within b \<Longrightarrow> within (case_desired_connection a b d)"
  by (cases d) auto

lemmas in_intros = within_intros only_basic [THEN in_only] in_st in_modify
lemmas in_ops = routes_only [THEN in_only] cli_only [THEN in_only] resolve_only [THEN in_only]

lemma poll_in: "within chk \<Longrightarrow> within (poll_loop n E d p chk ok late)"
  by (induction n) (auto intro!: in_intros)

lemma xv_connect_in: "within (xv_Connect n E T l p)" and xv_disconnect_in: "within (xv_Disconnect n E T)"
proof -
  show d: "within (xv_Disconnect n E T)"
    unfolding xv_Disconnect_def xv_disconnect_def waitDisconnected_def
    by (intro in_intros in_ops poll_in)
  have a: "within (connect_attempt n E T l p)"
    unfolding connect_attempt_def ensureDisconnected_def waitConnected_def
    by (intro in_intros in_ops poll_in d [unfolded xv_Disconnect_def])
  have c: "within (afterConnect E)"
    unfolding afterConnect_def by (intro in_intros in_ops)
  have "within (connect_from k n E T l p d e)" for k d e
    by (induction k arbitrary: d e) (auto intro!: in_intros a c)
  then show "within (xv_Connect n E T l p)" unfolding xv_Connect_def .
qed

lemma toggles_in: "within (set_toggles E ts)"
  by (induction ts) (auto intro!: in_intros in_ops)

lemma ks_apply_in: "within (ks_apply E (resolveIPv4 E) cfg)"
  unfolding ks_apply_def load_params_def Let_def
  by (intro in_intros in_ops dockerSubnet_only [THEN in_only] applyNFT_only [THEN in_only]
      applyIptables_only [THEN in_only]) auto

lemma uplink_in: "within (ul_apply n E marshal (resolveIPv4 E) cfg)"
proof -
  have s: "within (stopProc E)"
    unfolding stopProc_def by (intro in_intros) auto
  have t: "within (teardown E)"
    unfolding teardown_def by (intro in_intros in_ops s) auto
  have "within (start_wait n E d)" for d
    by (induction n) (auto intro!: in_intros in_ops s)
  then have p: "within (startProc n E)"
    unfolding startProc_def by (intro in_intros) auto
  show ?thesis
    unfolding ul_apply_def statusOf_def socks_rebuild_def socks_build_def socks_up_def startProbe_def Let_def
    by (intro in_intros in_ops t p procAlive_only [THEN in_only]) auto
qed

lemma wait_probe_in: "within (wait_probe E)"
  unfolding wait_probe_def waitUDP_def probe_finish_def publish_udp_def
  by (intro in_intros) auto

lemma reconcile_in:
  assumes "\<And>l p. within (d_connect D l p)" and "within (d_disconnect D)" and "\<And>ev. within (d_settings D ev)"
    and "\<And>ul. within (d_uplink D ul)" and "within (d_waitUDP D)" and "\<And>ul. within (d_killswitch D ul)"
  shows "within (reconcile E D)"
  unfolding reconcile_def ks_step_def uplink_step_def settings_step_def connect_step_def attempt_connect_def
    prepare_connect_def await_udp_def onConnectFailure_def ghost_def rec_fail_def forgetConnection_def Let_def
  by (intro in_intros in_desired assms; simp)

lemma agent_in: "within (reconcile E (agent_drivers n E T marshal pick))"
  unfolding agent_drivers_def applySettings_def
  by (rule reconcile_in)
    (simp_all add: in_settled uplink_in toggles_in ks_apply_in xv_connect_in xv_disconnect_in wait_probe_in)

lemma supervise_in: "within wake' \<Longrightarrow> within (superviseOnce E wake')"
  unfolding superviseOnce_def Let_def by (intro in_intros in_ops; simp)

end

interpretation pubs: store_frame updated
proof
  fix v w :: "'z rec_world_scheme" and f
  show "w_st v = w_st w \<Longrightarrow> updated w v" unfolding updated_def by (rule exI [of _ "[]"]) simp
  show "updated w (w\<lparr>w_st := update f (w_st w)\<rparr>)" unfolding updated_def by (rule exI [of _ "[f]"]) simp
qed

section \<open>An action that waits\<close>

definition watching :: "nat \<Rightarrow> 'z st_world_scheme \<Rightarrow> bool" where
  "watching ch w \<longleftrightarrow> store_inv (w_st w) \<and> ch \<in> set (subs (w_st w))"

lemma watching_updates:
  assumes "store_inv s" and "ch \<in> set (subs s)"
  shows "store_inv (fold update fs s) \<and> ch \<in> set (subs (fold update fs s))"
  using assms
proof (induction fs arbitrary: s)
  case (Cons f fs)
  from Cons.IH [of "update f s"] Cons.prems show ?case by (simp add: store_inv_update)
qed simp

lemma watching_round:
  assumes "pub.within m" and "watching ch w" and "run_state m w = (r, v)"
  shows "watching ch v"
proof -
  obtain fs where "w_st v = fold update fs (w_st w)"
    using assms(1,3) by (auto simp: pub.within_def updated_def dest: spec [of _ w])
  with assms(2) watching_updates [of "w_st w" ch fs] show ?thesis by (simp add: watching_def)
qed

lemma receive_current:
  assumes "watching ch w"
  shows "case receive ch (w_st w) of (x, s) \<Rightarrow> (x = None \<or> x = Some (snap_of w)) \<and> store_get s = snap_of w \<and>
    store_inv s \<and> ch \<in> set (subs s)"
proof -
  have "bufs (w_st w) ch = [] \<or> bufs (w_st w) ch = [cur (w_st w)]"
    using assms by (auto simp: watching_def store_inv_def)
  with assms store_inv_receive [of "w_st w" ch] show ?thesis
    by (auto simp: receive_def watching_def store_get_def)
qed

lemma wait_rounds_ok:
  assumes "run_state (wait_rounds E d ch target ms) w = (Some None, v)"
    and "\<forall>m \<in> set ms. pub.within m" and "watching ch w"
  shows "conn_of (snap_of v) = target"
  using assms
proof (induction ms arbitrary: w)
  case (Cons m ms)
  obtain u where u: "run_state m w = ((), u)" by (metis (full_types) old.unit.exhaust prod.exhaust)
  have wu: "watching ch u" by (rule watching_round [OF _ Cons.prems(3) u]) (simp add: Cons.prems(2))
  obtain x s where r: "receive ch (w_st u) = (x, s)" by fastforce
  from receive_current [OF wu] r have s: "x = None \<or> x = Some (snap_of u)" "store_get s = snap_of u"
    "store_inv s" "ch \<in> set (subs s)" by auto
  let ?y = "u\<lparr>trace := trace u @ [Clock, Stat ''select''], w_st := s\<rparr>"
  have y: "watching ch ?y" using s by (simp add: watching_def)
  from Cons.prems(1) u r s consider
      "x = Some (snap_of u)" "reached target (snap_of u) = Some None" "v = ?y"
    | "run_state (wait_rounds E d ch target ms) ?y = (Some None, v)"
    by (auto simp: st_receive_def split: if_splits option.splits)
  then show ?case
  proof cases
    case 1
    with s show ?thesis by (auto simp: reached_def split: if_splits option.splits)
  next
    case 2
    with Cons.IH y Cons.prems(2) show ?thesis by simp
  qed
qed simp

lemma subscribed:
  assumes "store_inv (w_st w)"
  shows "watching (fst (subscribe (w_st w))) (w\<lparr>w_st := snd (subscribe (w_st w))\<rparr>)"
  using store_inv_subscribe [OF assms] by (simp add: watching_def subscribe_def)

lemma waitConnection_ok:
  assumes "run_state (waitConnection E target rounds) w = (Some None, v)"
    and "\<forall>m \<in> set rounds. pub.within m" and "store_inv (w_st w)"
  shows "conn_of (snap_of v) = target"
proof -
  let ?u = "w\<lparr>trace := trace w @ [Clock], w_st := snd (subscribe (w_st w))\<rparr>"
  let ?ch = "fst (subscribe (w_st w))"
  have "watching ?ch ?u" using subscribed [OF assms(3)] by (simp add: watching_def)
  moreover obtain x where "run_state (wait_rounds E (env_clock E (trace w) + waitTimeout) ?ch target rounds) ?u = (Some None, x)"
    "v = x\<lparr>w_st := cancel ?ch (w_st x)\<rparr>"
    using assms(1) by (auto simp: waitConnection_def st_subscribe_def st_cancel_def split: prod.splits option.splits)
  ultimately show ?thesis using wait_rounds_ok assms(2) by (fastforce simp: store_get_def cancel_def)
qed


definition call_done :: "action_call \<Rightarrow> snapshot \<Rightarrow> bool" where
  "call_done c s = (case c of
     CallConnect l \<Rightarrow> conn_of s = ConnConnected
   | CallReconnect \<Rightarrow> conn_of s = ConnConnected
   | CallDisconnect \<Rightarrow> conn_of s = ConnDisconnected
   | CallLogin code \<Rightarrow> code \<noteq> [] \<and> x_auth (s_expressvpn s) = AuthLoggedIn
   | CallLogout \<Rightarrow> x_auth (s_expressvpn s) = AuthLoggedOut \<and> conn_of s = ConnDisconnected \<and> s_desired s = DesiredDisconnected
   | _ \<Rightarrow> True)"

lemma login_done: "run_state (xv_Login E code) w = (None, v) \<Longrightarrow> x_auth (s_expressvpn (snap_of v)) = AuthLoggedIn"
  by (auto simp: xv_Login_def setAuth_def split: prod.splits if_splits option.splits)

lemma logout_done: "run_state (xv_Logout E) w = (None, v) \<Longrightarrow> x_auth (s_expressvpn (snap_of v)) = AuthLoggedOut \<and>
    conn_of (snap_of v) = ConnDisconnected \<and> s_desired (snap_of v) = DesiredDisconnected"
  by (auto simp: xv_Logout_def split: prod.splits option.splits)

lemma in_store_st: "run_state (in_store m) w = (r, v) \<Longrightarrow> w_st v = w_st w"
  by (auto simp: in_store_def Let_def split: prod.splits)


section \<open>A connect that is asked for\<close>

context steady_layers
begin

lemma asked_pass:
  assumes run: "run_state (reconcile E D) w = (r, v)" and k: "k = 0"
    and w: "s_desired (snap_of w) = DesiredConnected" "conn_of (snap_of w) \<in> {ConnDisconnected, ConnReconnecting}"
      "rc_failures w = 0" "rc_nextRetry w = None" and good: "good (cf_uplink (rc_cfg w))"
  shows "conn_of (snap_of v) = ConnConnected \<and> s_desired (snap_of v) = DesiredConnected \<and> rc_cfg v = rc_cfg w \<and>
    (\<exists>cs p. rc_calls v = rc_calls w @ cs \<and> Connect (ev_location (cf_expressvpn (rc_cfg w))) p True \<in> set cs)"
proof -
  let ?c = "rc_cfg w"
  from wpD [OF steady_pass_wp [OF good] run] obtain cs ds x where l: "layers_up (cf_uplink ?c) (cf_expressvpn ?c) cs w x"
    and o: "conn_outcome E ?c ds x v"
    and dec: "s_desired (snap_of x) = DesiredConnected \<and> needs_connect ?c x \<and> may_retry (env_clock E (trace x)) x \<longrightarrow>
       (conn_of (snap_of v) = ConnConnected \<longleftrightarrow> k \<le> connects x)"
    by (auto simp: Let_def)
  have x: "s_desired (snap_of x) = DesiredConnected" "rc_failures x = 0" "rc_nextRetry x = None" "needs_connect ?c x"
    using l w by (auto simp: layers_up_def passed_def conn_kept_def conn_fields_def needs_connect_def)
  then have "may_retry t x" for t by (simp add: may_retry_def maxReconnectFailures_def)
  with dec x k have conn: "conn_of (snap_of v) = ConnConnected" by simp
  have p: "passed (cs @ ds) w v" using l o by (rule passed_through)
  then have calls: "rc_calls v = rc_calls w @ cs @ ds" by (simp add: passed_def)
  from w have "conn_of (snap_of w) \<noteq> ConnConnected" by auto
  from pass_connected [OF run calls conn this] obtain l' p' where c: "Connect l' p' True \<in> set (cs @ ds)" by blast
  with pass_connect [OF run calls c] calls conn p w(1) show ?thesis by (auto simp: passed_def)
qed

end

lemma offered:
  assumes "store_inv s" and "ch \<in> set (subs s)" and "bufs s ch \<noteq> []"
  shows "bufs (fold update fs s) ch \<noteq> []"
  using assms
proof (induction fs arbitrary: s)
  case (Cons f fs)
  from Cons.IH [of "update f s"] Cons.prems show ?case by (simp add: store_inv_update bufs_update)
qed simp

lemma run_unit: obtains v where "run_state m w = ((), v)"
  by (cases "run_state m w") auto

lemma want_connected_facts:
  assumes "conn_of s \<in> {ConnDisconnected, ConnReconnecting, ConnError}"
  shows "s_desired (want_connected s) = DesiredConnected" "conn_of (want_connected s) \<in> {ConnDisconnected, ConnReconnecting}"
  using assms by (auto simp: want_connected_def Let_def)

lemma waitConnection_run:
  "run_state (waitConnection E target ms) w =
    (let ch = fst (subscribe (w_st w));
         (q, y) = run_state (wait_rounds E (env_clock E (trace w) + waitTimeout) ch target ms)
           (w\<lparr>trace := trace w @ [Clock], w_st := snd (subscribe (w_st w))\<rparr>)
     in (q, if q = None then y else y\<lparr>w_st := cancel ch (w_st y)\<rparr>))"
  by (simp add: waitConnection_def st_subscribe_def st_cancel_def Let_def split_beta split: option.split)

text \<open>The wait with a single round, in which the wanted state is reached.\<close>

lemma wait_one_round:
  assumes "run_state (waitConnection E target [m]) w = (r, v)" and "pub.within m" and "store_inv (w_st w)"
    and run: "run_state m (w\<lparr>trace := trace w @ [Clock], w_st := snd (subscribe (w_st w))\<rparr>) = ((), u)"
    and up: "conn_of (snap_of u) = target"
  shows "\<exists>es s. (r = Some None \<or> r = Some (Some (PlainError (''timed out waiting for '' @ conn_text target)))) \<and>
    v = u\<lparr>trace := trace u @ es, w_st := s\<rparr> \<and> store_get s = snap_of u"
proof -
  let ?w = "w\<lparr>trace := trace w @ [Clock], w_st := snd (subscribe (w_st w))\<rparr>"
  let ?ch = "fst (subscribe (w_st w))"
  have "watching ?ch ?w" using subscribed [OF assms(3)] by (simp add: watching_def)
  from watching_round [OF assms(2) this run] have u: "watching ?ch u" .
  obtain fs where "w_st u = fold update fs (snd (subscribe (w_st w)))"
    using assms(2) run by (auto simp: pub.within_def updated_def dest: spec [of _ ?w])
  then have there: "bufs (w_st u) ?ch \<noteq> []"
    using offered [of "snd (subscribe (w_st w))" ?ch fs] subscribed [OF assms(3)]
    by (simp add: watching_def) (simp add: subscribe_def)
  obtain x s where rc: "receive ?ch (w_st u) = (x, s)" by fastforce
  have "(x = None \<or> x = Some (snap_of u)) \<and> store_get s = snap_of u"
    using receive_current [OF u] by (simp add: rc)
  moreover have "x \<noteq> None" using rc there unfolding receive_def by (cases "bufs (w_st u) ?ch") auto
  ultimately have x: "x = Some (snap_of u)" "store_get s = snap_of u" by blast+
  have r: "reached target (snap_of u) = Some None" using up by (simp add: reached_def)
  define out where "out = (Some (Some (PlainError (''timed out waiting for '' @ conn_text target))) :: go_error option option)"
  let ?d = "env_clock E (trace w) + waitTimeout"
  let ?t = "trace u @ [Clock, Stat ''select'']"
  have round: "\<exists>q s'. run_state (wait_rounds E ?d ?ch target [m]) ?w = (q, u\<lparr>trace := ?t, w_st := s'\<rparr>) \<and>
      (q = Some None \<or> q = out) \<and> store_get s' = snap_of u"
  proof (cases "?d \<le> env_clock E (trace u) \<and> env_flag E (trace u @ [Clock]) ''select''")
    case True
    then show ?thesis using there by (intro exI [of _ out] exI [of _ "w_st u"]) (simp add: run out_def)
  next
    case False
    then have "\<not> (?d \<le> env_clock E (trace u) \<and> (bufs (w_st u) ?ch = [] \<or> env_flag E (trace u @ [Clock]) ''select''))"
      using there by simp
    then show ?thesis
      by (intro exI [of _ "Some None"] exI [of _ s]) (simp add: run st_receive_def rc r x)
  qed
  then obtain q s' where q: "run_state (wait_rounds E ?d ?ch target [m]) ?w = (q, u\<lparr>trace := ?t, w_st := s'\<rparr>)"
    "q = Some None \<or> q = out" "store_get s' = snap_of u" by (elim exE conjE) (rule that)
  have sub: "subscribe (w_st w) = (?ch, snd (subscribe (w_st w)))" by simp
  have "\<exists>x. q = Some x" using q(2) by (auto simp: out_def)
  then obtain q' where q': "q = Some q'" by blast
  then have "r = q \<and> v = u\<lparr>trace := ?t, w_st := cancel ?ch s'\<rparr>"
    using assms(1) unfolding waitConnection_run Let_def q(1) by (auto simp: q')
  moreover have "store_get (cancel ?ch s') = snap_of u" using q(3) by (simp add: store_get_def cancel_def)
  ultimately show ?thesis using q(2) unfolding out_def
    by (intro exI [of _ "[Clock, Stat ''select'']"] exI [of _ "cancel ?ch s'"]) simp
qed


text \<open>The patch that \<open>Connect\<close> makes.\<close>

lemma location_patched:
  assumes "run_state (in_store (apply_merge_patch E (lb_unmarshal L) (lb_marshal L (JObj (location_patch l))))) w = (p, u)"
    and "lb_unmarshal L (lb_marshal L (JObj (location_patch l))) = Some (JObj (location_patch l))"
    and "cfg_inv (rc_cfg w)" and "rc_cfg w = cw_cur (ac_store w)"
  shows "(case p of Inl e \<Rightarrow> rc_cfg u = rc_cfg w | Inr ks \<Rightarrow> rc_cfg u = with_location l (rc_cfg w)) \<and>
    w_st u = w_st w \<and> rc_calls u = rc_calls w"
proof -
  obtain c where c: "run_state (apply_merge_patch E (lb_unmarshal L) (lb_marshal L (JObj (location_patch l))))
      ((ac_store w)\<lparr>trace := trace w\<rparr>) = (p, c)" and u: "rc_cfg u = cw_cur c" "w_st u = w_st w" "rc_calls u = rc_calls w"
    using assms(1) by (auto simp: in_store_def Let_def split: prod.splits)
  have same: "with_location l (rc_cfg w) = rc_cfg w" if "ev_location (cf_expressvpn (rc_cfg w)) = l"
    using that by (simp add: with_location_def)
  show ?thesis
  proof (cases p)
    case (Inl e)
    with apply_merge_patch_run [OF c] u assms(4) show ?thesis by auto
  next
    case (Inr ks)
    with apply_merge_patch_run [OF c] u assms same patched_location [OF assms(3), of l] show ?thesis
      by (auto simp: applied_location split: if_splits)
  qed
qed

lemma act_Connect_run:
  "run_state (act_Connect E L rounds l) w =
    (case run_state (if l \<noteq> [] then in_store (apply_merge_patch E (lb_unmarshal L) (lb_marshal L (JObj (location_patch l))))
       else ret (Inr [])) w of
       (Inl e, u) \<Rightarrow> (Some (Some e), u)
     | (Inr ks, u) \<Rightarrow> run_state (waitConnection E ConnConnected rounds)
         (u\<lparr>w_st := update want_connected (w_st u), rc_failures := 0, rc_nextRetry := None, rc_wake := True\<rparr>))"
  by (simp add: act_Connect_def resetRetries_def wake_def split: prod.split sum.split)


section \<open>A concrete agent\<close>

definition idle_agent :: act_world where
  "idle_agent = \<lparr>trace = [], w_st = new_store (initial_state ''1'' 0), containerDNS = [],
     ks_params = ks_defaults, ks_backend = [], ks_legacyLogged = False, ul_proc = False, ul_applied = None, ul_probeRun = None,
     ul_nextRun = 0, ul_probes = [], ul_proxyIP = [], ul_gw = [], ul_savedResolv = None, rc_cfg = default_config,
     rc_appliedKS = None, rc_appliedUplink = None, rc_appliedEVPN = None, rc_appliedConn = None, rc_failures = 0,
     rc_nextRetry = None, rc_force = [], rc_wake = False, rc_calls = [], rc_timers = [],
     ac_store = \<lparr>trace = [], cw_path = ''/data/config.json'', cw_dir = ''/data'', cw_cur = default_config, cw_hook = True,
       cw_notified = []\<rparr>,
     ac_locs = \<lparr>trace = [], lw_path = ''/data/locations.json'', lw_updatedAt = 0, lw_locations = []\<rparr>, ac_started = 0\<rparr>"

definition demo_act_lib :: act_lib where
  "demo_act_lib = \<lparr>lb_marshal = (\<lambda>_. ''{}''), lb_unmarshal = (\<lambda>_. Some (JObj (location_patch []))), lb_locations = (\<lambda>_ _. [])\<rparr>"

lemma idle_facts:
  "store_inv (w_st idle_agent)" "conn_of (snap_of idle_agent) = ConnDisconnected" "rc_cfg idle_agent = default_config"
  "cw_cur (ac_store idle_agent) = default_config" "trace idle_agent = []"
  by (simp_all add: idle_agent_def store_inv_new) (simp add: new_store_def store_get_def initial_state_def)



end
