(* ===== verification/Statedir.thy ===== *)
theory Statedir
  imports Auth
begin

text \<open>
  The daemon's state directory (\<open>internal/xvpn/statedir.go\<close>). At the start the agent replaces
  \<open>/opt/expressvpn/etc\<close> by a link into the data volume, and moves what the image has there into the volume
  first. Of the file system the model holds the two trees the code touches; the environment decides
  when an operation fails. What a failed copy leaves of a file is the empty file, what a failed \<open>RemoveAll\<close>
  leaves is the whole tree or the emptied directory; a link in the place of the target leads to no directory.
\<close>

section \<open>Trees\<close>

type_synonym perm = "9 word"

datatype tree =
    FileT string perm
  | LinkT string
  | DirT perm "(string \<times> tree) list"

fun is_dir :: "tree \<Rightarrow> bool" where
  "is_dir (DirT p kids) = True"
| "is_dir t = False"

text \<open>The node at a relative path, and a tree with a node put there; a new entry comes last.\<close>

fun put_kid :: "string \<Rightarrow> 'a \<Rightarrow> (string \<times> 'a) list \<Rightarrow> (string \<times> 'a) list" where
  "put_kid n k [] = [(n, k)]"
| "put_kid n k ((m, x) # r) = (if m = n then (n, k) # r else (m, x) # put_kid n k r)"

fun node_at :: "string list \<Rightarrow> tree \<Rightarrow> tree option" where
  "node_at [] t = Some t"
| "node_at (n # p) (DirT q kids) = (case map_of kids n of None \<Rightarrow> None | Some k \<Rightarrow> node_at p k)"
| "node_at (n # p) t = None"

fun put_at :: "string list \<Rightarrow> tree \<Rightarrow> tree \<Rightarrow> tree" where
  "put_at [] new t = new"
| "put_at (n # p) new (DirT q kids) = (case map_of kids n of
     None \<Rightarrow> if p = [] then DirT q (put_kid n new kids) else DirT q kids
   | Some k \<Rightarrow> DirT q (put_kid n (put_at p new k) kids))"
| "put_at (n # p) new t = t"

text \<open>\<open>filepath.WalkDir\<close>: a directory before its entries, the entries in their order.\<close>

fun walk :: "string list \<Rightarrow> tree \<Rightarrow> (string list \<times> tree) list" where
  "walk rel (DirT p kids) = (rel, DirT p kids) # concat (map (\<lambda>(n, k). walk (rel @ [n]) k) kids)"
| "walk rel t = [(rel, t)]"

text \<open>The names in a directory differ.\<close>

fun wf_tree :: "tree \<Rightarrow> bool" where
  "wf_tree (DirT p kids) = (distinct (map fst kids) \<and> (\<forall>(n, k) \<in> set kids. wf_tree k))"
| "wf_tree t = True"

section \<open>The operations\<close>

record sd_world = world +
  sd_parent :: bool
  sd_etc :: "tree option"
  sd_target :: "tree option"
  sd_umask :: perm

definition etcPath :: string where "etcPath = ''/opt/expressvpn/etc''"

definition target_path :: "string \<Rightarrow> string" where
  "target_path dataDir = dataDir @ ''/expressvpn''"

definition path_of :: "string \<Rightarrow> string list \<Rightarrow> string" where
  "path_of root rel = root @ concat (map (\<lambda>s. ''/'' @ s) rel)"

definition given :: "perm \<Rightarrow> perm \<Rightarrow> perm" where
  "given um p = and p (not um)"

definition put_target :: "string list \<Rightarrow> tree \<Rightarrow> ('z sd_world_scheme, unit) state" where
  "put_target rel t = modify (\<lambda>w. w\<lparr>sd_target := map_option (put_at rel t) (sd_target w)\<rparr>)"

definition target_node :: "string list \<Rightarrow> 'z sd_world_scheme \<Rightarrow> tree option" where
  "target_node rel w = (case sd_target w of None \<Rightarrow> None | Some t \<Rightarrow> node_at rel t)"

definition plain :: "string option \<Rightarrow> go_error option" where
  "plain e = map_option PlainError e"

definition copyFile :: "env \<Rightarrow> string \<Rightarrow> string \<Rightarrow> string list \<Rightarrow> string \<Rightarrow> perm \<Rightarrow>
    ('z sd_world_scheme, go_error option) state" where
  "copyFile E src dst rel text p = do {
     opened \<leftarrow> do_read E src;
     (case opened of
        Inl m \<Rightarrow> ret (Some (PlainError m))
      | Inr _ \<Rightarrow> do {
          e \<leftarrow> do_fs E ''create'' [dst];
          (case e of
             Some m \<Rightarrow> ret (Some (PlainError m))
           | None \<Rightarrow> do {
               w \<leftarrow> getw;
               let perm = (case target_node rel w of Some (FileT old q) \<Rightarrow> q | _ \<Rightarrow> given (sd_umask w) p);
               put_target rel (FileT [] perm);
               e \<leftarrow> do_write E dst text;
               (case e of
                  Some m \<Rightarrow> do { _ \<leftarrow> do_close E dst; ret (Some (PlainError m)) }
                | None \<Rightarrow> do {
                    put_target rel (FileT text perm);
                    e \<leftarrow> do_close E dst;
                    ret (plain e)
                  })
             })
        })
   }"

text \<open>The visit of one node; reading the directory or its entry may fail.\<close>

definition copy_node :: "env \<Rightarrow> string \<Rightarrow> string list \<times> tree \<Rightarrow> ('z sd_world_scheme, go_error option) state" where
  "copy_node E dst x = (let (rel, node) = x; out = path_of dst rel in do {
     listed \<leftarrow> do_flag E (path_of etcPath rel);
     w \<leftarrow> getw;
     (if \<not> listed then ret (Some (PlainError ''lstat''))
      else (case node of
         DirT p kids \<Rightarrow>
           if rel = [] then ret None
           else do {
             e \<leftarrow> do_fs E ''mkdir'' [out];
             (case e of
                Some m \<Rightarrow> ret (Some (PlainError m))
              | None \<Rightarrow> (case target_node rel w of
                  None \<Rightarrow> do { put_target rel (DirT (given (sd_umask w) p) []); ret None }
                | Some t \<Rightarrow> ret (if is_dir t then None else Some (PlainError ''not a directory''))))
           }
       | LinkT l \<Rightarrow> do {
           r \<leftarrow> do_read E (path_of etcPath rel);
           (case r of
              Inl m \<Rightarrow> ret (Some (PlainError m))
            | Inr _ \<Rightarrow> do {
                e \<leftarrow> do_fs E ''symlink'' [l, out];
                (case e of
                   Some m \<Rightarrow> ret (Some (PlainError m))
                 | None \<Rightarrow>
                     if target_node rel w \<noteq> None then ret (Some (PlainError ''file exists''))
                     else do { put_target rel (LinkT l); ret None })
              })
         }
       | FileT text p \<Rightarrow> copyFile E (path_of etcPath rel) out rel text p))
   })"

fun visit_all :: "('x \<Rightarrow> ('s, go_error option) state) \<Rightarrow> 'x list \<Rightarrow> ('s, go_error option) state" where
  "visit_all f [] = ret None"
| "visit_all f (x # xs) = then_go (f x) (visit_all f xs)"

definition copyTree :: "env \<Rightarrow> string \<Rightarrow> tree \<Rightarrow> ('z sd_world_scheme, go_error option) state" where
  "copyTree E dst t = visit_all (copy_node E dst) (walk [] t)"

definition isEmptyDir :: "env \<Rightarrow> string \<Rightarrow> ('z sd_world_scheme, bool res) state" where
  "isEmptyDir E dir = do {
     r \<leftarrow> do_read E dir;
     w \<leftarrow> getw;
     (case r of
        Inl m \<Rightarrow> ret (Inl (PlainError m))
      | Inr _ \<Rightarrow> do {
          listed \<leftarrow> do_flag E dir;
          ret (case sd_target w of
              Some (DirT p kids) \<Rightarrow> if \<not> listed then Inl (PlainError ''readdirent'') else Inr (kids = [])
            | _ \<Rightarrow> Inl (PlainError ''not a directory''))
        })
   }"

definition mkdir_target :: "env \<Rightarrow> string \<Rightarrow> ('z sd_world_scheme, go_error option) state" where
  "mkdir_target E target = do {
     e \<leftarrow> do_fs E ''mkdir'' [target, ''0700''];
     w \<leftarrow> getw;
     (case e of
        Some m \<Rightarrow> ret (Some (PlainError m))
      | None \<Rightarrow> (case sd_target w of
          None \<Rightarrow> do { modify (\<lambda>w. w\<lparr>sd_target := Some (DirT (given (sd_umask w) 0x1C0) [])\<rparr>); ret None }
        | Some t \<Rightarrow> ret (if is_dir t then None else Some (PlainError ''not a directory''))))
   }"

definition link_etc :: "env \<Rightarrow> string \<Rightarrow> ('z sd_world_scheme, go_error option) state" where
  "link_etc E target = do {
     e \<leftarrow> do_fs E ''symlink'' [target, etcPath];
     (case e of
        Some m \<Rightarrow> ret (Some (PlainError m))
      | None \<Rightarrow> do { modify (\<lambda>w. w\<lparr>sd_etc := Some (LinkT target)\<rparr>); ret None })
   }"

definition remove_etc :: "env \<Rightarrow> ('z sd_world_scheme, go_error option) state" where
  "remove_etc E = do {
     e \<leftarrow> do_fs E ''removeall'' [etcPath];
     (case e of
        Some m \<Rightarrow> do {
          emptied \<leftarrow> do_flag E ''emptied'';
          (if emptied then modify (\<lambda>w. w\<lparr>sd_etc := map_option (\<lambda>t. DirT 0x1ED []) (sd_etc w)\<rparr>) else ret ());
          ret (Some (PlainError m))
        }
      | None \<Rightarrow> do { modify (\<lambda>w. w\<lparr>sd_etc := None\<rparr>); ret None })
   }"

definition ensureStateDir :: "env \<Rightarrow> string \<Rightarrow> ('z sd_world_scheme, go_error option) state" where
  "ensureStateDir E dataDir = (let target = target_path dataDir in do {
     ok \<leftarrow> do_flag E etcPath;
     w \<leftarrow> getw;
     (if \<not> ok then ret (Some (PlainError ''lstat''))
      else (case sd_etc w of
         None \<Rightarrow>
           if \<not> sd_parent w then ret None
           else then_go (mkdir_target E target) (link_etc E target)
       | Some (LinkT l) \<Rightarrow> mkdir_target E target
       | Some t \<Rightarrow> then_go (mkdir_target E target) (do {
           empty \<leftarrow> isEmptyDir E target;
           (case empty of
              Inl err \<Rightarrow> ret (Some err)
            | Inr b \<Rightarrow>
                then_go
                  (if b then do {
                     e \<leftarrow> copyTree E target t;
                     ret (map_option (Wrapped (''seed '' @ target @ '' from '' @ etcPath @ '': '')) e)
                   } else ret None)
                  (then_go (remove_etc E) (link_etc E target)))
         })))
   })"

section \<open>Facts on trees\<close>

text \<open>There is a directory for the last name of a path.\<close>

fun slot :: "string list \<Rightarrow> tree \<Rightarrow> bool" where
  "slot [] t = True"
| "slot (n # p) (DirT q kids) = (p = [] \<or> (case map_of kids n of None \<Rightarrow> False | Some k \<Rightarrow> slot p k))"
| "slot (n # p) t = False"

lemma map_of_put_kid: "map_of (put_kid n k kids) = (map_of kids)(n \<mapsto> k)"
  by (induction n k kids rule: put_kid.induct) auto

lemma put_kid_twice: "put_kid n a (put_kid n b kids) = put_kid n a kids"
  by (induction n b kids rule: put_kid.induct) auto

lemma put_kid_new: "map_of kids n = None \<Longrightarrow> put_kid n k kids = kids @ [(n, k)]"
  by (induction n k kids rule: put_kid.induct) auto

lemma node_put: "slot p t \<Longrightarrow> node_at p (put_at p x t) = Some x"
  by (induction p x t rule: put_at.induct) (auto simp: map_of_put_kid split: option.splits)

lemma put_put: "slot p t \<Longrightarrow> put_at (p @ r) y (put_at p x t) = put_at p (put_at r y x) t"
  by (induction p x t rule: put_at.induct) (auto simp: map_of_put_kid put_kid_twice split: option.splits)

lemma slot_node: "node_at p t = Some x \<Longrightarrow> slot p t"
  by (induction p t rule: node_at.induct) (auto split: option.splits)

lemma slot_child: "node_at p t = Some (DirT q kids) \<Longrightarrow> slot (p @ [n]) t"
  by (induction p t rule: node_at.induct) (auto split: option.splits)

lemma node_child: "node_at (p @ r) t = (case node_at p t of None \<Rightarrow> None | Some x \<Rightarrow> node_at r x)"
  by (induction p t rule: node_at.induct) (auto split: option.splits)

text \<open>A tree as a process with a umask copies it.\<close>

fun masked :: "perm \<Rightarrow> tree \<Rightarrow> tree" where
  "masked um (FileT s p) = FileT s (given um p)"
| "masked um (LinkT l) = LinkT l"
| "masked um (DirT p kids) = DirT (given um p) (map (map_prod (\<lambda>n. n) (masked um)) kids)"

lemma visit_append: "visit_all f (xs @ ys) = then_go (visit_all f xs) (visit_all f ys)"
  by (induction xs) (auto simp: then_go_def fun_eq_iff State_Monad.bind_assoc intro!: arg_cong [of _ _ "State_Monad.bind _"] split: option.split)

lemma then_go_none: "run_state (then_go m k) w = (None, v) \<longleftrightarrow> (\<exists>u. run_state m w = (None, u) \<and> run_state k u = (None, v))"
  by (auto simp: then_go_def split: prod.splits option.splits)

lemma visit_append_none: "run_state (visit_all f (xs @ ys)) w = (None, v) \<longleftrightarrow>
    (\<exists>u. run_state (visit_all f xs) w = (None, u) \<and> run_state (visit_all f ys) u = (None, v))"
  by (simp only: visit_append then_go_none)

text \<open>What stays the same while the tree is copied.\<close>

definition sd_same :: "'z sd_world_scheme \<Rightarrow> 'z sd_world_scheme \<Rightarrow> bool" where
  "sd_same w v \<longleftrightarrow> sd_etc v = sd_etc w \<and> sd_umask v = sd_umask w \<and> sd_parent v = sd_parent w"

fun leaf :: "tree \<Rightarrow> tree" where
  "leaf (DirT p kids) = DirT p []"
| "leaf t = t"

lemma copy_node_ok:
  assumes "run_state (copy_node E dst (rel, node)) w = (None, v)" and "rel \<noteq> []"
    and "sd_target w = Some T" and "slot rel T" and "node_at rel T = None"
  shows "sd_target v = Some (put_at rel (masked (sd_umask w) (leaf node)) T) \<and> sd_same w v"
proof (cases node)
  case (FileT s p)
  with assms put_put [OF assms(4), of "[]"] show ?thesis
    by (auto simp: copy_node_def Let_def copyFile_def target_node_def put_target_def plain_def sd_same_def
        split: if_splits sum.splits option.splits)
next
  case (LinkT l)
  with assms show ?thesis
    by (auto simp: copy_node_def Let_def target_node_def put_target_def sd_same_def split: if_splits sum.splits option.splits)
next
  case (DirT p kids)
  with assms show ?thesis
    by (auto simp: copy_node_def Let_def target_node_def put_target_def sd_same_def split: if_splits sum.splits option.splits)
qed

lemma put_kid_same: "map_of kids n = Some k \<Longrightarrow> put_kid n k kids = kids"
  by (induction n k kids rule: put_kid.induct) (auto split: if_splits)

lemma put_same: "node_at par T = Some x \<Longrightarrow> put_at par x T = T"
  by (induction par T rule: node_at.induct) (auto simp: put_kid_same split: option.splits)

lemma copy_kids:
  assumes "\<And>n k (w :: 'z sd_world_scheme) v T. (n, k) \<in> set kids \<Longrightarrow> run_state (visit_all (copy_node E dst) (walk (par @ [n]) k)) w = (None, v) \<Longrightarrow>
      sd_target w = Some T \<Longrightarrow> slot (par @ [n]) T \<Longrightarrow> node_at (par @ [n]) T = None \<Longrightarrow>
      sd_target v = Some (put_at (par @ [n]) (masked (sd_umask w) k) T) \<and> sd_same w v"
    and "distinct (map fst (D @ kids))"
    and "run_state (visit_all (copy_node E dst) (concat (map (\<lambda>(n, k). walk (par @ [n]) k) kids))) (w :: 'z sd_world_scheme) = (None, v)"
    and "sd_target w = Some T" and "node_at par T = Some (DirT q D)"
  shows "sd_target v = Some (put_at par (DirT q (D @ map (map_prod (\<lambda>n. n) (masked (sd_umask w))) kids)) T) \<and> sd_same w v"
  using assms
proof (induction kids arbitrary: D w T)
  case Nil
  then show ?case by (simp add: sd_same_def put_same)
next
  case (Cons x kids)
  obtain n k where x: "x = (n, k)" by (cases x)
  obtain u where u: "run_state (visit_all (copy_node E dst) (walk (par @ [n]) k)) w = (None, u)"
    "run_state (visit_all (copy_node E dst) (concat (map (\<lambda>(n, k). walk (par @ [n]) k) kids))) u = (None, v)"
    using Cons.prems(3) by (auto simp: x visit_append_none)
  have new: "map_of D n = None" using Cons.prems(2) by (auto simp: x map_of_eq_None_iff)
  have "sd_target u = Some (put_at (par @ [n]) (masked (sd_umask w) k) T) \<and> sd_same w u"
    using Cons.prems(5) new
    by (intro Cons.prems(1) [OF _ u(1) Cons.prems(4)]) (auto simp: x node_child intro: slot_child)
  moreover have "put_at (par @ [n]) (masked (sd_umask w) k) T = put_at par (DirT q (D @ [(n, masked (sd_umask w) k)])) T"
    using put_put [OF slot_node [OF Cons.prems(5)], of "[n]" "masked (sd_umask w) k" "DirT q D"] put_same [OF Cons.prems(5)] new
    by (simp add: put_kid_new)
  ultimately have ut: "sd_target u = Some (put_at par (DirT q (D @ [(n, masked (sd_umask w) k)])) T)" "sd_same w u" by simp_all
  have s: "slot par T" by (rule slot_node [OF Cons.prems(5)])
  have "sd_target v = Some (put_at par (DirT q ((D @ [(n, masked (sd_umask w) k)]) @ map (map_prod (\<lambda>n. n) (masked (sd_umask u))) kids))
      (put_at par (DirT q (D @ [(n, masked (sd_umask w) k)])) T)) \<and> sd_same u v"
    using Cons.prems(2) by (intro Cons.IH [OF Cons.prems(1) _ u(2) ut(1) node_put [OF s]]) (auto simp: x)
  with ut put_put [OF s, of "[]"] show ?case by (simp add: x sd_same_def)
qed

lemma copy_walk:
  "run_state (visit_all (copy_node E dst) (walk (par @ [n]) t)) (w :: 'z sd_world_scheme) = (None, v) \<Longrightarrow> wf_tree t \<Longrightarrow>
     sd_target w = Some T \<Longrightarrow> slot (par @ [n]) T \<Longrightarrow> node_at (par @ [n]) T = None \<Longrightarrow>
     sd_target v = Some (put_at (par @ [n]) (masked (sd_umask w) t) T) \<and> sd_same w v"
proof (induction t arbitrary: par n w v T)
  case (DirT p kids)
  from DirT.prems(1) obtain u where u: "run_state (copy_node E dst (par @ [n], DirT p kids)) w = (None, u)"
    "run_state (visit_all (copy_node E dst) (concat (map (\<lambda>(m, k). walk ((par @ [n]) @ [m]) k) kids))) u = (None, v)"
    by (auto simp: then_go_none)
  have ut: "sd_target u = Some (put_at (par @ [n]) (DirT (given (sd_umask w) p) []) T)" "sd_same w u"
    using copy_node_ok [OF u(1) _ DirT.prems(3-5)] by simp_all
  have "sd_target v = Some (put_at (par @ [n]) (DirT (given (sd_umask w) p) ([] @ map (map_prod (\<lambda>n. n) (masked (sd_umask u))) kids))
      (put_at (par @ [n]) (DirT (given (sd_umask w) p) []) T)) \<and> sd_same u v"
  proof (rule copy_kids [OF _ _ u(2) ut(1) node_put [OF DirT.prems(4)]])
    fix m k v' T' and w' :: "'z sd_world_scheme"
    assume mk: "(m, k) \<in> set kids" "run_state (visit_all (copy_node E dst) (walk ((par @ [n]) @ [m]) k)) w' = (None, v')"
      "sd_target w' = Some T'" "slot ((par @ [n]) @ [m]) T'" "node_at ((par @ [n]) @ [m]) T' = None"
    then have "wf_tree k" using DirT.prems(2) by auto
    with mk show "sd_target v' = Some (put_at ((par @ [n]) @ [m]) (masked (sd_umask w') k) T') \<and> sd_same w' v'"
      by (intro DirT.IH [of "(m, k)"]) auto
  qed (use DirT.prems(2) in simp)
  with ut put_put [OF DirT.prems(4), of "[]"] show ?case by (simp add: sd_same_def)
qed (use copy_node_ok in \<open>fastforce simp: then_go_none\<close>)+

lemma copyTree_ok:
  assumes "run_state (copyTree E dst (DirT p kids)) (w :: 'z sd_world_scheme) = (None, v)" and "wf_tree (DirT p kids)" and "sd_target w = Some (DirT q [])"
  shows "sd_target v = Some (DirT q (map (map_prod (\<lambda>n. n) (masked (sd_umask w))) kids)) \<and> sd_same w v"
proof -
  obtain u where u: "run_state (copy_node E dst ([], DirT p kids)) w = (None, u)"
    "run_state (visit_all (copy_node E dst) (concat (map (\<lambda>(m, k). walk ([] @ [m]) k) kids))) u = (None, v)"
    using assms(1) by (auto simp: copyTree_def then_go_none)
  then have ut: "sd_target u = Some (DirT q [])" "sd_same w u"
    using assms(3) by (auto simp: copy_node_def Let_def sd_same_def split: if_splits)
  have "sd_target v = Some (put_at [] (DirT q ([] @ map (map_prod (\<lambda>n. n) (masked (sd_umask u))) kids)) (DirT q [])) \<and> sd_same u v"
  proof (rule copy_kids [OF _ _ u(2) ut(1)])
    fix m k v' T' and w' :: "'z sd_world_scheme"
    assume mk: "(m, k) \<in> set kids" "run_state (visit_all (copy_node E dst) (walk ([] @ [m]) k)) w' = (None, v')"
      "sd_target w' = Some T'" "slot ([] @ [m]) T'" "node_at ([] @ [m]) T' = None"
    then have "wf_tree k" using assms(2) by auto
    from copy_walk [OF mk(2) this mk(3-5)]
    show "sd_target v' = Some (put_at ([] @ [m]) (masked (sd_umask w') k) T') \<and> sd_same w' v'" .
  qed (use assms(2) in simp_all)
  with ut show ?thesis by (simp add: sd_same_def)
qed

lemma same_copy_node: "sd_same w (snd (run_state (copy_node E dst x) w))"
  by (cases x; cases "snd x")
    (auto simp: copy_node_def Let_def copyFile_def put_target_def sd_same_def split: sum.split option.split)

lemma same_visit:
  assumes "\<And>x w. sd_same w (snd (run_state (f x) w))"
  shows "sd_same w (snd (run_state (visit_all f xs) w))"
proof (induction xs arbitrary: w)
  case (Cons x xs)
  obtain e u where u: "run_state (f x) w = (e, u)" by fastforce
  with assms [of w x] have "sd_same w u" by simp
  with Cons [of u] u show ?case by (cases e) (auto simp: then_go_def sd_same_def)
qed (simp add: sd_same_def)

lemma same_copyTree: "sd_same w (snd (run_state (copyTree E dst t) w))"
  unfolding copyTree_def by (rule same_visit) (rule same_copy_node)

definition image_copy :: "perm \<Rightarrow> (string \<times> tree) list \<Rightarrow> (string \<times> tree) list" where
  "image_copy um kids = map (map_prod (\<lambda>n. n) (masked um)) kids"


definition demo_image :: sd_world where
  "demo_image = \<lparr>trace = [], sd_parent = True, sd_etc = Some (DirT 0x1ED [(''settings.json'', FileT ''{}'' 0x1A4)]),
     sd_target = None, sd_umask = 0x12\<rparr>"

lemma env_close_ok: "env_close ok_env h p = None"
  by (simp add: ok_env_def)


text \<open>Also: A seeded volume is taken as it is. If the target directory has any entry, the image's directory is dropped
  without copying; so a start that stopped in the middle of the copy leaves the next one with the part that was
  copied.\<close>

lemma partial_seed_kept:
  assumes "run_state (ensureStateDir E dataDir) w = (None, v)" and "sd_etc w = Some (DirT p kids)"
    and "sd_target w = Some (DirT q (k # ks))"
  shows "sd_target v = Some (DirT q (k # ks)) \<and> sd_etc v = Some (LinkT (target_path dataDir))"
  using assms
  by (auto simp: ensureStateDir_def Let_def then_go_def mkdir_target_def isEmptyDir_def remove_etc_def link_etc_def
      split: if_splits option.splits sum.splits)

end
