(* ===== verification/Boot.thy ===== *)
theory Boot
  imports Actions Statedir Logs Socks5
begin

text \<open>
  The process (\<open>cmd/detour-agent\<close>): the command line, the check of the prerequisites of the container
  (\<open>prereq.go\<close>), the health check (\<open>healthcheck.go\<close>) and the start of the agent up to the state in which
  its goroutines begin (the first half of \<open>run\<close> in \<open>main.go\<close>). The components that have worlds of their own are fields of
  the agent's world.
\<close>

section \<open>The agent's world\<close>

datatype proxy_phase = ProxyWaits nat | ProxyRuns "nat option" | ProxyFailed go_error | ProxyEnded

record agent_world = act_world +
  ag_auth :: auth_world
  ag_sd :: sd_world
  ag_red :: "string list"
  ag_srv :: srv_world
  ag_proxy :: proxy_phase
  ag_out :: "string list"

definition in_auth :: "(auth_world, 'a) state \<Rightarrow> ('z agent_world_scheme, 'a) state" where
  "in_auth m = State (\<lambda>w. let (r, c) = run_state m ((ag_auth w)\<lparr>world.trace := world.trace w\<rparr>)
     in (r, w\<lparr>world.trace := world.trace c, ag_auth := c\<rparr>))"

definition in_sd :: "(sd_world, 'a) state \<Rightarrow> ('z agent_world_scheme, 'a) state" where
  "in_sd m = State (\<lambda>w. let (r, c) = run_state m ((ag_sd w)\<lparr>world.trace := world.trace w\<rparr>)
     in (r, w\<lparr>world.trace := world.trace c, ag_sd := c\<rparr>))"

definition add_red :: "string \<Rightarrow> ('z agent_world_scheme, unit) state" where
  "add_red s = modify (\<lambda>w. w\<lparr>ag_red := red_add s (ag_red w)\<rparr>)"

definition print_line :: "string \<Rightarrow> ('z agent_world_scheme, unit) state" where
  "print_line s = modify (\<lambda>w. w\<lparr>ag_out := ag_out w @ [s]\<rparr>)"

text \<open>What the process gets from outside: its environment variables (\<open>[]\<close> for one that is not set),
  arguments and version, the answer of the local HTTP server, the JSON parser, and the cache of locations in its text.\<close>

record process =
  pr_getenv :: "string \<Rightarrow> string"
  pr_args :: "string list"
  pr_version :: string
  pr_http :: "string \<Rightarrow> string + nat"
  pr_unmarshal :: "string \<Rightarrow> json option"
  pr_locations :: "string \<Rightarrow> int \<times> location list"

definition envOr :: "process \<Rightarrow> string \<Rightarrow> string \<Rightarrow> string" where
  "envOr P key d = (if pr_getenv P key \<noteq> [] then pr_getenv P key else d)"

section \<open>The prerequisites\<close>

definition capNetAdmin :: nat where "capNetAdmin = 12"
definition capSysPtrace :: nat where "capSysPtrace = 19"
definition exitPrereqFailed :: int where "exitPrereqFailed = 78"

datatype start_error = PrereqError string | StartError go_error

text \<open>\<open>strconv.ParseUint(s, 16, 64)\<close>.\<close>

definition parse_hex64 :: "string \<Rightarrow> 64 word res" where
  "parse_hex64 s =
     (if s = [] \<or> \<not> list_all is_hex s
      then Inl (PlainError (''strconv.ParseUint: parsing '' @ go_quote s @ '': invalid syntax''))
      else let n = hex_group s in
        if 2 ^ 64 \<le> n then Inl (PlainError (''strconv.ParseUint: parsing '' @ go_quote s @ '': value out of range''))
        else Inr (of_nat n))"

text \<open>\<open>bufio.Scanner\<close>: lines without their end, an empty rest is no line, a line that does not fit into 64 KB
  ends the scan with an error.\<close>

definition scan_lines :: "string \<Rightarrow> string list" where
  "scan_lines s = (let ls = split_on newline s in if last ls = [] then butlast ls else ls)"

definition drop_cr :: "string \<Rightarrow> string" where
  "drop_cr l = (if l \<noteq> [] \<and> last l = CHR 0x0D then butlast l else l)"

fun find_caps :: "string list \<Rightarrow> 64 word res" where
  "find_caps [] = Inl (PlainError ''CapEff not found in /proc/self/status'')"
| "find_caps (l # ls) =
     (if 65536 \<le> length l then Inl (PlainError ''bufio.Scanner: token too long'')
      else case cut_prefix ''CapEff:'' (drop_cr l) of
        Some r \<Rightarrow> parse_hex64 (trim_space r)
      | None \<Rightarrow> find_caps ls)"

definition effectiveCaps :: "env \<Rightarrow> ('z world_scheme, 64 word res) state" where
  "effectiveCaps E = do {
     f \<leftarrow> do_read E ''/proc/self/status'';
     ret (case f of Inl m \<Rightarrow> Inl (PlainError m) | Inr s \<Rightarrow> find_caps (scan_lines s))
   }"

definition checkPrereqs :: "env \<Rightarrow> ('z world_scheme, start_error option) state" where
  "checkPrereqs E = do {
     tun \<leftarrow> do_flag E ''/dev/net/tun'';
     (if \<not> tun then ret (Some (PrereqError ''missing /dev/net/tun (add --device /dev/net/tun)''))
      else do {
        c \<leftarrow> effectiveCaps E;
        ret (case c of
            Inl e \<Rightarrow> Some (StartError (Wrapped ''read effective capabilities: '' e))
          | Inr caps \<Rightarrow>
              if and caps (push_bit capNetAdmin 1) = 0
              then Some (PrereqError ''missing capability NET_ADMIN (add --cap-add NET_ADMIN)'')
              else if and caps (push_bit capSysPtrace 1) = 0
              then Some (PrereqError ''missing capability SYS_PTRACE (add --cap-add SYS_PTRACE; required for expressvpnctl IPC)'')
              else None)
      })
   }"

section \<open>The health check\<close>

definition healthcheck :: "process \<Rightarrow> int" where
  "healthcheck P = (let addr = envOr P ''DETOUR_HTTP_ADDR'' '':8080'';
       addr = (if prefix '':'' addr then ''127.0.0.1'' @ addr else addr)
     in (case pr_http P (''http://'' @ addr @ ''/healthz'') of
           Inl m \<Rightarrow> 1
         | Inr status \<Rightarrow> if status \<noteq> 200 then 1 else 0))"

section \<open>The start\<close>

fun make_dirs :: "env \<Rightarrow> string \<Rightarrow> string list \<Rightarrow> ('z world_scheme, go_error option) state" where
  "make_dirs E dataDir [] = ret None"
| "make_dirs E dataDir (d # ds) = do {
     e \<leftarrow> do_fs E ''mkdir'' [dataDir @ ''/'' @ d, ''0700''];
     (case e of Some m \<Rightarrow> ret (Some (PlainError m)) | None \<Rightarrow> make_dirs E dataDir ds)
   }"

definition ensureDataDir :: "env \<Rightarrow> string \<Rightarrow> ('z world_scheme, go_error option) state" where
  "ensureDataDir E dataDir = make_dirs E dataDir [[], ''auth'', ''logs'']"

definition start_step :: "string \<Rightarrow> ('s, go_error option) state \<Rightarrow> ('s, start_error option) state \<Rightarrow> ('s, start_error option) state" where
  "start_step what m k = do {
     e \<leftarrow> m;
     (case e of Some err \<Rightarrow> ret (Some (StartError (Wrapped what err))) | None \<Rightarrow> k)
   }"

text \<open>\<open>config.NewStore\<close> on the file, and the secret of the configuration.\<close>

definition load_config :: "env \<Rightarrow> process \<Rightarrow> string \<Rightarrow> ('z agent_world_scheme, go_error option) state" where
  "load_config E P dataDir = (let path = dataDir @ ''/config.json'' in do {
     r \<leftarrow> do_read E path;
     there \<leftarrow> do_flag E path;
     (case new_config_store (pr_unmarshal P) path
          (case r of Inr s \<Rightarrow> Content s | Inl m \<Rightarrow> if there then ReadError m else Missing) of
        Inl e \<Rightarrow> ret (Some e)
      | Inr c \<Rightarrow> do {
          modify (\<lambda>w. w\<lparr>ac_store := \<lparr>trace = [], cw_path = path, cw_dir = dataDir, cw_cur = c, cw_hook = False,
            cw_notified = []\<rparr>\<rparr>);
          (if sk_password (ul_socks5 (cf_uplink c)) \<noteq> [] then add_red (sk_password (ul_socks5 (cf_uplink c))) else ret ());
          ret None
        })
   })"

definition load_tokens :: "env \<Rightarrow> string \<Rightarrow> ('z agent_world_scheme, go_error option) state" where
  "load_tokens E dataDir = do {
     modify (\<lambda>w. w\<lparr>ag_auth := newSessionManager (dataDir @ ''/auth'') (ag_auth w)\<rparr>);
     e \<leftarrow> in_auth (new_token_store E);
     (case e of
        Some err \<Rightarrow> ret (Some err)
      | None \<Rightarrow> do { w \<leftarrow> getw; add_red (au_token (ag_auth w)); ret None })
   }"

definition published_state :: "process \<Rightarrow> int \<Rightarrow> snapshot" where
  "published_state P now = (let s = initial_state (pr_version P) now in
     s\<lparr>s_container := (s_container s)\<lparr>
       c_socksPort := envOr P ''DETOUR_PUBLISHED_SOCKS_PORT'' ''1080'',
       c_httpPort := envOr P ''DETOUR_PUBLISHED_HTTP_PORT'' ''48100'',
       c_bindAddr := envOr P ''DETOUR_PUBLISHED_BIND_ADDR'' ''127.0.0.1''\<rparr>\<rparr>)"

text \<open>The stores and managers of a new process (\<open>NewStore\<close>, \<open>NewManager\<close>, \<open>New\<close>): nothing is applied yet;
  the reconciler hooks on the configuration.\<close>

definition new_agent :: "snapshot \<Rightarrow> 'z agent_world_scheme \<Rightarrow> 'z agent_world_scheme" where
  "new_agent s w = w\<lparr>w_st := new_store s, ks_params := ks_defaults, ks_backend := [], ks_legacyLogged := False,
     ul_proc := False, ul_applied := None, ul_probeRun := None, ul_nextRun := 0, ul_probes := [], ul_proxyIP := [],
     ul_gw := [], ul_savedResolv := None, rc_cfg := cw_cur (ac_store w), rc_appliedKS := None, rc_appliedUplink := None,
     rc_appliedEVPN := None, rc_appliedConn := None, rc_failures := 0, rc_nextRetry := None, rc_force := [],
     rc_wake := False, rc_calls := [], rc_timers := [], ac_store := (ac_store w)\<lparr>cw_hook := True\<rparr>, ac_started := 0,
     ag_srv := (ag_srv w)\<lparr>tr_cachedNS := [], tr_readAt := 0, sv_active := 0, sv_bytesIn := 0, sv_bytesOut := 0, sv_dirty := False\<rparr>\<rparr>"

text \<open>The goroutine that waits for the kill switch subscribes.\<close>

definition start :: "env \<Rightarrow> process \<Rightarrow> ('z agent_world_scheme, start_error option) state" where
  "start E P = do {
     pre \<leftarrow> checkPrereqs E;
     (case pre of
        Some e \<Rightarrow> ret (Some e)
      | None \<Rightarrow> do {
          _ \<leftarrow> pinContainerDNS E [TunPeer];
          let dataDir = envOr P ''DETOUR_DATA_DIR'' ''/data'';
          start_step ''prepare data dir: '' (ensureDataDir E dataDir) (
          start_step ''prepare expressvpn state dir: '' (in_sd (ensureStateDir E dataDir)) (
          start_step ''load config: '' (load_config E P dataDir) (
          start_step ''init api token: '' (load_tokens E dataDir) (do {
            now \<leftarrow> do_clock E;
            modify (new_agent (published_state P now));
            in_locs (newLocationCache E (pr_locations P) dataDir);
            ch \<leftarrow> st_subscribe;
            modify (\<lambda>w. w\<lparr>ag_proxy := ProxyWaits ch\<rparr>);
            ret None
          }))))
        })
   }"

section \<open>The command line\<close>

text \<open>The exit code of the process, if it ends before the agent runs.\<close>

definition exit_code :: "start_error \<Rightarrow> int" where
  "exit_code e = (case e of PrereqError m \<Rightarrow> exitPrereqFailed | StartError g \<Rightarrow> 1)"

definition main :: "env \<Rightarrow> process \<Rightarrow> ('z agent_world_scheme, int option) state" where
  "main E P = (case pr_args P of
     (a # _) \<Rightarrow>
       if a \<in> {''version'', ''-v'', ''--version''} then do { print_line (pr_version P); ret (Some 0) }
       else if a = ''healthcheck'' then ret (Some (healthcheck P))
       else if a = ''reset-password'' then do {
         modify (\<lambda>w. w\<lparr>ag_auth := (ag_auth w)\<lparr>au_dir := envOr P ''DETOUR_DATA_DIR'' ''/data'' @ ''/auth''\<rparr>\<rparr>);
         e \<leftarrow> in_auth (resetPassword E);
         (case e of
            Some err \<Rightarrow> do { print_line (''reset-password: '' @ err_text err); ret (Some 1) }
          | None \<Rightarrow> do {
              print_line ''Admin password cleared. All sessions are now invalid;'';
              print_line ''the next visit to the web UI will ask to create a new password.'';
              ret (Some 0)
            })
       }
       else do { e \<leftarrow> start E P; ret (map_option exit_code e) }
   | [] \<Rightarrow> do { e \<leftarrow> start E P; ret (map_option exit_code e) })"

section \<open>Facts\<close>

lemma has_cap: "and caps (push_bit n 1) = 0 \<longleftrightarrow> \<not> bit (caps :: 64 word) n"
  by (simp add: and_exp_eq_0_iff_not_bit)

text \<open>A container with the device and the two capabilities.\<close>

definition privileged :: "env \<Rightarrow> event list \<Rightarrow> bool" where
  "privileged E h \<longleftrightarrow> env_flag E h ''/dev/net/tun'' \<and>
     (\<exists>s caps. env_read E (h @ [Stat ''/dev/net/tun'']) ''/proc/self/status'' = Inr s \<and>
        find_caps (scan_lines s) = Inr caps \<and> bit caps 12 \<and> bit caps 19)"

lemma check_run:
  obtains e es where "run_state (checkPrereqs E) w = (e, w\<lparr>trace := trace w @ es\<rparr>)" "set es \<subseteq> {Stat ''/dev/net/tun'', ReadFile ''/proc/self/status''}"
    "e = None \<longleftrightarrow> privileged E (trace w)"
    "\<forall>g. e = Some (StartError g) \<longrightarrow> env_flag E (trace w) ''/dev/net/tun''"
proof (cases "env_flag E (trace w) ''/dev/net/tun''")
  case False
  then show ?thesis
    by (intro that [of _ "[Stat ''/dev/net/tun'']"]) (auto simp: checkPrereqs_def privileged_def)
next
  case True
  let ?es = "[Stat ''/dev/net/tun'', ReadFile ''/proc/self/status'']"
  let ?c = "case env_read E (trace w @ [Stat ''/dev/net/tun'']) ''/proc/self/status'' of
    Inl m \<Rightarrow> Inl (PlainError m) | Inr s \<Rightarrow> find_caps (scan_lines s)"
  define e where "e = fst (run_state (checkPrereqs E) w)"
  have run: "run_state (checkPrereqs E) w = (e, w\<lparr>trace := trace w @ ?es\<rparr>)"
    using True by (simp add: e_def checkPrereqs_def effectiveCaps_def)
  have "e = None \<longleftrightarrow> (\<exists>caps. ?c = Inr caps \<and> bit caps 12 \<and> bit caps 19)"
    using True by (cases ?c) (simp_all add: e_def checkPrereqs_def effectiveCaps_def has_cap capNetAdmin_def capSysPtrace_def
        del: push_bit_of_1)
  also have "\<dots> \<longleftrightarrow> privileged E (trace w)" using True by (auto simp: privileged_def split: sum.splits)
  finally have "e = None \<longleftrightarrow> privileged E (trace w)" .
  with True run show ?thesis by (intro that [of e ?es]) auto
qed


section \<open>The started agent\<close>

text \<open>Fields that are worlds themselves have a trace of their own.\<close>

lemma nested_select [simp]:
  fixes w :: "'z agent_world_scheme"
  shows "ac_store (w\<lparr>world.trace := t\<rparr>) = ac_store w" "ac_locs (w\<lparr>world.trace := t\<rparr>) = ac_locs w"
    "ag_auth (w\<lparr>world.trace := t\<rparr>) = ag_auth w" "ag_sd (w\<lparr>world.trace := t\<rparr>) = ag_sd w" "ag_srv (w\<lparr>world.trace := t\<rparr>) = ag_srv w"
    "trace (w\<lparr>ac_store := c\<rparr>) = trace w" "trace (w\<lparr>ac_locs := l\<rparr>) = trace w"
    "trace (w\<lparr>ag_auth := a\<rparr>) = trace w" "trace (w\<lparr>ag_sd := s\<rparr>) = trace w" "trace (w\<lparr>ag_srv := v\<rparr>) = trace w"
  by (cases w; simp)+


lemma wp_start_step:
  "wp m (\<lambda>e v. case e of Some err \<Rightarrow> Q (Some (StartError (Wrapped what err))) v | None \<Rightarrow> wp k Q v) w \<Longrightarrow> wp (start_step what m k) Q w"
  unfolding start_step_def by (intro wp_bind) (auto simp: wp_def split: option.splits prod.splits)

lemma wp_in_sd: "(\<And>r t s. Q r (w\<lparr>trace := t, ag_sd := s\<rparr>)) \<Longrightarrow> wp (in_sd m) Q w"
  by (simp add: wp_def in_sd_def Let_def split: prod.split)

lemma wp_in_locs: "(\<And>r t l. Q r (w\<lparr>trace := t, ac_locs := l\<rparr>)) \<Longrightarrow> wp (in_locs m) Q w"
  by (simp add: wp_def in_locs_def Let_def split: prod.split)

lemma wp_in_auth:
  "(\<And>r c. run_state m ((ag_auth w)\<lparr>trace := trace w\<rparr>) = (r, c) \<Longrightarrow> Q r (w\<lparr>trace := trace c, ag_auth := c\<rparr>)) \<Longrightarrow> wp (in_auth m) Q w"
  by (simp add: wp_def in_auth_def Let_def split: prod.split)

lemma make_dirs_only: "only_effects (make_dirs E d ds)"
  by (induction ds) (auto intro!: ext_intros)

lemma pinned: "wp (pinContainerDNS E ig) (\<lambda>r v. \<exists>es. v = w\<lparr>trace := trace w @ es, containerDNS := r\<rparr> \<and> (containerDNS w = [] \<or> r = containerDNS w)) w"
  unfolding pinContainerDNS_def
  by (intro wp_bind wp_get wp_cases wp_modify wp_return wp_effects)
    (auto intro: exI [of _ "[]"])

text \<open>A token is long enough to be a secret of the journal.\<close>

lemma token_long:
  assumes "run_state (new_token_store E) w = (None, v)"
  shows "32 \<le> length (au_token v) \<and> au_sessions v = au_sessions w \<and> au_dir v = au_dir w"
proof -
  have len: "length (rev_take) = 32" if "rev_take = take 32 (s @ replicate 32 (char_of (0::nat)))" for s :: string and rev_take
    using that by simp
  show ?thesis
    using assms
    by (auto simp: new_token_store_def au_read_def tok_generate_def rand_bytes_def then_go_def au_mkdir_def au_write_def au_put_def
        Let_def hex_facts split: option.splits sum.splits if_splits prod.splits)
qed

text \<open>The state in which the goroutines begin.\<close>

definition started :: "'z agent_world_scheme \<Rightarrow> bool" where
  "started w \<longleftrightarrow> store_inv (w_st w) \<and> s_desired (snap_of w) = DesiredDisconnected \<and> conn_of (snap_of w) = ConnDisconnected \<and>
     \<not> k_active (s_killswitch (snap_of w)) \<and> rc_appliedKS w = None \<and> rc_calls w = [] \<and> ks_params w = ks_defaults \<and>
     rc_cfg w = cw_cur (ac_store w) \<and> cfg_inv (rc_cfg w) \<and> cw_hook (ac_store w) \<and>
     (let pw = sk_password (ul_socks5 (cf_uplink (rc_cfg w))) in 4 \<le> length pw \<longrightarrow> pw \<in> set (ag_red w)) \<and>
     32 \<le> length (au_token (ag_auth w)) \<and> au_token (ag_auth w) \<in> set (ag_red w) \<and> au_sessions (ag_auth w) = (\<lambda>_. None) \<and>
     (\<exists>ch. ag_proxy w = ProxyWaits ch \<and> ch \<in> set (subs (w_st w)))"

definition configured :: "string list \<Rightarrow> 'z agent_world_scheme \<Rightarrow> bool" where
  "configured red w \<longleftrightarrow> cfg_inv (cw_cur (ac_store w)) \<and> set red \<subseteq> set (ag_red w) \<and>
     (let pw = sk_password (ul_socks5 (cf_uplink (cw_cur (ac_store w)))) in 4 \<le> length pw \<longrightarrow> pw \<in> set (ag_red w))"

lemma load_config_wp: "wp (load_config E P d) (\<lambda>e v. e = None \<longrightarrow> configured [] v) w"
  unfolding load_config_def Let_def add_red_def
  by (intro wp_bind wp_effects wp_cases wp_return wp_modify)
    (auto simp: configured_def Let_def new_config_store_inv red_add_in)

lemma load_tokens_wp:
  assumes "configured [] w"
  shows "wp (load_tokens E d) (\<lambda>e v. e = None \<longrightarrow> configured [] v \<and> 32 \<le> length (au_token (ag_auth v)) \<and>
    au_token (ag_auth v) \<in> set (ag_red v) \<and> au_sessions (ag_auth v) = (\<lambda>_. None)) w"
  unfolding load_tokens_def add_red_def
  apply (rule wp_bind, rule wp_modify, rule wp_bind, rule wp_in_auth, rule wp_cases(2), rule wp_bind, rule wp_get, rule wp_bind, rule wp_modify, rule wp_return)
  using assms subsetD [OF red_add_mono]
   apply (auto intro: wp_return simp: newSessionManager_def configured_def Let_def red_add_in dest!: token_long)
  done


lemma start_wp: "wp (start E P) (\<lambda>e v. e = None \<longrightarrow> started v \<and> privileged E (trace w)) w"
proof -
  obtain e es where c: "run_state (checkPrereqs E) w = (e, w\<lparr>trace := trace w @ es\<rparr>)" "e = None \<longleftrightarrow> privileged E (trace w)"
    by (rule check_run)
  define post where "post = (\<lambda>e (v :: 'a agent_world_scheme). e = (None :: start_error option) \<longrightarrow> started v)"
  have some: "post (Some x) v" for x v by (simp add: post_def)
  have last: "wp (do { now \<leftarrow> do_clock E; modify (new_agent (published_state P now)); in_locs (newLocationCache E (pr_locations P) d); ch \<leftarrow> st_subscribe;
      modify (\<lambda>w. w\<lparr>ag_proxy := ProxyWaits ch\<rparr>); ret None }) post u"
    if "configured [] u \<and> 32 \<le> length (au_token (ag_auth u)) \<and>
      au_token (ag_auth u) \<in> set (ag_red u) \<and> au_sessions (ag_auth u) = (\<lambda>_. None)" for d u
    using that store_inv_subscribe [OF store_inv_new]
    by (intro wp_bind wp_clock wp_modify wp_in_locs)
      (auto simp: wp_def st_subscribe_def post_def started_def new_agent_def configured_def Let_def subscribe_def new_store_def
        store_get_def published_state_def initial_state_def split: prod.split)
  have tokens: "wp (start_step what (load_tokens E d) k) post u"
    if "configured [] u" and "\<And>x. configured [] x \<and> 32 \<le> length (au_token (ag_auth x)) \<and>
      au_token (ag_auth x) \<in> set (ag_red x) \<and> au_sessions (ag_auth x) = (\<lambda>_. None) \<Longrightarrow> wp k post x" for what d k u
    by (rule wp_start_step, rule wp_mono [OF load_tokens_wp [OF that(1)]]) (auto simp: some intro!: that(2) split: option.split)
  have config: "wp (start_step what (load_config E P d) k) post u"
    if "\<And>x. configured [] x \<Longrightarrow> wp k post x" for what d k u
    by (rule wp_start_step, rule wp_mono [OF load_config_wp]) (auto simp: some intro!: that split: option.split)
  have any: "wp (start_step what m k) post u" if "\<And>x. wp k post x" for what m k u
    by (rule wp_start_step, rule wp_any) (auto simp: some intro!: that split: option.split)
  have rest: "wp (start_step a m1 (start_step b m2 (start_step c' (load_config E P d) (start_step d' (load_tokens E d)
      (do { now \<leftarrow> do_clock E; modify (new_agent (published_state P now)); in_locs (newLocationCache E (pr_locations P) d); ch \<leftarrow> st_subscribe;
        modify (\<lambda>w. w\<lparr>ag_proxy := ProxyWaits ch\<rparr>); ret None }))))) post u" for a m1 b m2 c' d d' u
    by (intro any config tokens last)
  show ?thesis
  proof (cases e)
    case None
    have check: "wp (checkPrereqs E \<bind> f) post w" if "wp (f None) post (w\<lparr>trace := trace w @ es\<rparr>)" for f
      using that None by (simp add: wp_def c(1))
    have "wp (start E P) post w"
      unfolding start_def Let_def
      by (rule check, simp only: option.case, rule wp_bind, rule wp_any, rule rest)
    with None c(2) show ?thesis by (auto simp: wp_def post_def split: prod.splits)
  next
    case (Some x)
    with c(1) show ?thesis by (simp add: wp_def start_def)
  qed
qed

section \<open>Properties\<close>

text \<open>C19: What starts, starts safely. If the start succeeds the container has its privileges, and the agent begins
  fail closed and in a consistent state: no connection is wanted or shown, the kill switch is shown as inactive and nothing counts as
  applied, the configuration is valid, the one the reconciler reads, and its changes wake the reconciler; the token and the stored
  password are secrets of the journal, there are no sessions, and the SOCKS server waits on a live subscription of the state.\<close>

theorem started_safely:
  assumes "run_state (start E P) w = (None, v)"
  shows "privileged E (trace w) \<and> started v"
  using wpD [OF start_wp assms] by blast

definition demo_container :: env where
  "demo_container = ok_env\<lparr>env_exec := (\<lambda>_ _ _. \<lparr>rr_out = ''Connected'', rr_exit = 0, rr_err = None\<rparr>), env_flag := (\<lambda>h p. p \<in> {''/dev/net/tun'', etcPath}),
     env_read := (\<lambda>h p. if p = ''/proc/self/status'' then Inr (''CapEff:'' @ ''81000'' @ [newline])
       else if p = ''/data/config.json'' then Inl ''no such file'' else Inr [])\<rparr>"

definition demo_process :: process where
  "demo_process = \<lparr>pr_getenv = (\<lambda>_. []), pr_args = [], pr_version = ''1'', pr_http = (\<lambda>_. Inr 200), pr_unmarshal = (\<lambda>_. None),
     pr_locations = (\<lambda>_. (zero_time, []))\<rparr>"

definition demo_before :: agent_world where
  "demo_before = \<lparr>trace = [], w_st = new_store (initial_state [] 0), containerDNS = [],
     ks_params = ks_defaults, ks_backend = [], ks_legacyLogged = False, ul_proc = False, ul_applied = None, ul_probeRun = None,
     ul_nextRun = 0, ul_probes = [], ul_proxyIP = [], ul_gw = [], ul_savedResolv = None, rc_cfg = default_config,
     rc_appliedKS = None, rc_appliedUplink = None, rc_appliedEVPN = None, rc_appliedConn = None, rc_failures = 0,
     rc_nextRetry = None, rc_force = [], rc_wake = False, rc_calls = [], rc_timers = [],
     ac_store = \<lparr>trace = [], cw_path = [], cw_dir = [], cw_cur = default_config, cw_hook = False, cw_notified = []\<rparr>,
     ac_locs = \<lparr>trace = [], lw_path = ''/data/locations.json'', lw_updatedAt = 0, lw_locations = []\<rparr>, ac_started = 0,
     ag_auth = \<lparr>trace = [], au_dir = [], au_files = (\<lambda>_. None), au_token = [], au_sessions = (\<lambda>_. None),
       au_failures = 0, au_blockedTo = None\<rparr>,
     ag_sd = \<lparr>trace = [], sd_parent = False, sd_etc = None, sd_target = None, sd_umask = 0\<rparr>,
     ag_red = [], ag_srv = \<lparr>trace = [], tr_cachedNS = [], tr_readAt = 0, sv_active = 0, sv_bytesIn = 0, sv_bytesOut = 0, sv_dirty = False\<rparr>,
     ag_proxy = ProxyEnded, ag_out = []\<rparr>"

lemma demo_caps: "find_caps (scan_lines (''CapEff:'' @ ''81000'' @ [newline])) = Inr 0x81000"
  by (simp add: scan_lines_def Let_def drop_cr_def cut_prefix_def parse_hex64_def trim_space_no_space is_space_def is_hex_def
      hex_group_def hex_val_def digit_val_def is_digit_def newline_def less_eq_char_def)

lemma demo_answers:
  "env_flag demo_container h p = (p \<in> {''/dev/net/tun'', etcPath})" "env_fs demo_container h p as = None"
  "env_write demo_container h p c = None" "env_clock demo_container h = int (length h)"
  "env_read demo_container h ''/proc/self/status'' = Inr (''CapEff:'' @ ''81000'' @ [newline])"
  "env_read demo_container h ''/data/config.json'' = Inl ''no such file''"
  "env_read demo_container h ''/dev/urandom'' = Inr []" "env_read demo_container h resolvConfPath = Inr []"
  by (simp_all add: demo_container_def ok_env_def resolvConfPath_def)

lemma demo_check: "run_state (checkPrereqs demo_container) w =
    (None, w\<lparr>trace := trace w @ [Stat ''/dev/net/tun'', ReadFile ''/proc/self/status'']\<rparr>)"
proof -
  have "\<not> and (0x81000 :: 64 word) (push_bit 12 1) = 0" "\<not> and (0x81000 :: 64 word) (push_bit 19 1) = 0"
    by code_simp+
  then show ?thesis
    by (simp add: checkPrereqs_def effectiveCaps_def demo_answers demo_caps [simplified] capNetAdmin_def capSysPtrace_def del: push_bit_of_1)
qed

definition empty_volume :: "'z agent_world_scheme \<Rightarrow> bool" where
  "empty_volume w \<longleftrightarrow> sd_etc (ag_sd w) = None \<and> \<not> sd_parent (ag_sd w) \<and> au_files (ag_auth w) = (\<lambda>_. None)"

lemma demo_steps:
  assumes "empty_volume w"
  shows "wp (ensureDataDir demo_container d) (\<lambda>e v. e = None \<and> empty_volume v) w"
    "wp (in_sd (ensureStateDir demo_container d)) (\<lambda>e v. e = None \<and> empty_volume v) w"
    "wp (load_config demo_container demo_process ''/data'') (\<lambda>e v. e = None \<and> empty_volume v \<and> cw_cur (ac_store v) = default_config) w"
    "wp (load_tokens demo_container d) (\<lambda>e v. e = None \<and> cw_cur (ac_store v) = cw_cur (ac_store w)) w"
proof -
  show "wp (ensureDataDir demo_container d) (\<lambda>e v. e = None \<and> empty_volume v) w"
    using assms by (simp add: wp_def ensureDataDir_def demo_answers empty_volume_def)
  show "wp (in_sd (ensureStateDir demo_container d)) (\<lambda>e v. e = None \<and> empty_volume v) w"
    using assms by (simp add: wp_def in_sd_def ensureStateDir_def Let_def demo_answers empty_volume_def)
  have "validate default_config = None" using valid_default by (simp add: validate_iff)
  then have "new_config_store f p Missing = Inr default_config" for f p by (simp add: new_config_store_def)
  moreover have "sk_password (ul_socks5 (cf_uplink default_config)) = []" by (simp add: default_config_def zero_socks5_def)
  ultimately show "wp (load_config demo_container demo_process ''/data'') (\<lambda>e v. e = None \<and> empty_volume v \<and> cw_cur (ac_store v) = default_config) w"
    using assms by (simp add: wp_def load_config_def Let_def demo_answers empty_volume_def etcPath_def)
  show "wp (load_tokens demo_container d) (\<lambda>e v. e = None \<and> cw_cur (ac_store v) = cw_cur (ac_store w)) w"
    using assms by (simp add: wp_def load_tokens_def in_auth_def newSessionManager_def new_token_store_def au_read_def
        tok_generate_def rand_bytes_def then_go_def au_mkdir_def au_write_def au_put_def demo_answers empty_volume_def add_red_def Let_def)
qed

definition demo_fresh :: "'z agent_world_scheme \<Rightarrow> bool" where
  "demo_fresh w \<longleftrightarrow> cw_cur (ac_store w) = default_config \<and> rc_cfg w = default_config \<and> conn_of (snap_of w) = ConnDisconnected \<and>
     (\<exists>ch. ag_proxy w = ProxyWaits ch \<and> bufs (w_st w) ch \<noteq> [])"

lemma demo_starts: "\<exists>v. run_state (start demo_container demo_process) demo_before = (None, v) \<and> demo_fresh v"
proof -
  let ?Q = "\<lambda>e v. e = None \<and> demo_fresh v"
  have env: "envOr demo_process k d = d" for k d by (simp add: envOr_def demo_process_def)
  have step: "wp (start_step what m k) ?Q w"
    if "wp m (\<lambda>e v. e = None \<and> J v) w" and "\<And>v. J v \<Longrightarrow> wp k ?Q v" for what m k J and w :: agent_world
    by (rule wp_start_step, rule wp_mono [OF that(1)]) (auto intro: that(2))
  have check: "wp (checkPrereqs demo_container \<bind> f) Q w"
    if "wp (f None) Q (w\<lparr>trace := trace w @ [Stat ''/dev/net/tun'', ReadFile ''/proc/self/status'']\<rparr>)" for f Q and w :: agent_world
    using that by (simp add: wp_def demo_check)
  have tok: "wp (load_tokens demo_container d) (\<lambda>e v. e = None \<and> cw_cur (ac_store v) = default_config) w"
    if "empty_volume w \<and> cw_cur (ac_store w) = default_config" for d and w :: agent_world
    using demo_steps(4) [of w d] that by simp
  have "wp (start demo_container demo_process) ?Q demo_before"
    unfolding start_def Let_def env
  proof (rule check, simp only: option.case, rule wp_bind, rule wp_mono [OF pinned])
    fix r :: string and u :: agent_world
    assume "\<exists>es. u = demo_before\<lparr>trace := trace demo_before @ [Stat ''/dev/net/tun'', ReadFile ''/proc/self/status'']\<rparr>
        \<lparr>trace := trace (demo_before\<lparr>trace := trace demo_before @ [Stat ''/dev/net/tun'', ReadFile ''/proc/self/status'']\<rparr>) @ es,
         containerDNS := r\<rparr> \<and> (containerDNS (demo_before\<lparr>trace := trace demo_before @ [Stat ''/dev/net/tun'', ReadFile ''/proc/self/status'']\<rparr>) = [] \<or>
           r = containerDNS (demo_before\<lparr>trace := trace demo_before @ [Stat ''/dev/net/tun'', ReadFile ''/proc/self/status'']\<rparr>))"
    then have "empty_volume u" by (auto simp: empty_volume_def demo_before_def)
    then show "wp (start_step ''prepare data dir: '' (ensureDataDir demo_container ''/data'')
        (start_step ''prepare expressvpn state dir: '' (in_sd (ensureStateDir demo_container ''/data''))
        (start_step ''load config: '' (load_config demo_container demo_process ''/data'')
        (start_step ''init api token: '' (load_tokens demo_container ''/data'') (do {
            now \<leftarrow> do_clock demo_container;
            modify (new_agent (published_state demo_process now));
            in_locs (newLocationCache demo_container (pr_locations demo_process) ''/data'');
            ch \<leftarrow> st_subscribe;
            modify (\<lambda>w. w\<lparr>ag_proxy := ProxyWaits ch\<rparr>);
            ret None
          }))))) ?Q u"
      by (rule step [OF demo_steps(1) step [OF demo_steps(2) step [OF demo_steps(3) step [OF tok]]]])
        (auto intro!: wp_bind wp_clock wp_modify wp_in_locs, auto simp: wp_def st_subscribe_def demo_fresh_def new_agent_def subscribe_def
          new_store_def store_get_def published_state_def initial_state_def Let_def split: prod.split)
  qed
  then show ?thesis by (auto simp: wp_def split: prod.splits)
qed

theorem started_safely_witness:
  "\<exists>v. run_state (start demo_container demo_process) demo_before = (None, v) \<and> privileged demo_container [] \<and> started v"
proof -
  obtain v where v: "run_state (start demo_container demo_process) demo_before = (None, v)" using demo_starts by blast
  have "trace demo_before = []" by (simp add: demo_before_def)
  with started_safely [OF v] v show ?thesis by simp
qed


end
