(* ===== verification/Agent.thy ===== *)
theory Agent
  imports Boot Udp_Relay Selfcheck
begin

text \<open>
  The running agent: the goroutines that \<open>run\<close> starts (\<open>cmd/detour-agent/main.go\<close>), one step relation over the
  agent's world. It holds the life of the daemon's process (\<open>runOnce\<close>), its first contact (\<open>initDaemon\<close>), the goroutine that
  starts the SOCKS server once the kill switch is active, that server's loop (\<open>Server.Run\<close>), a client of it, and
  the end of the process. The property on top: what a client makes the agent do, it does connected and behind the loaded rules.
\<close>

section \<open>The daemon\<close>

definition daemonPath :: string where
  "daemonPath = ''/opt/expressvpn/bin/expressvpn-daemon''"

definition readyTimeout :: int where
  "readyTimeout = seconds 60"

text \<open>The callback on a crash.\<close>

definition daemon_crashed :: "('z st_world_scheme, unit) state" where
  "daemon_crashed = st_update (\<lambda>s. if s_desired s = DesiredConnected then set_conn ConnReconnecting s else s)"

text \<open>One life of the process: the error it ends with, nothing if the context ended. Both ends of the first \<open>select\<close> and of the
  second are choices of the environment.\<close>

definition runOnce :: "env \<Rightarrow> ('z world_scheme, go_error option) state" where
  "runOnce E = do {
     p \<leftarrow> do_fs E ''pipe'' [daemonPath];
     (case p of
        Some m \<Rightarrow> ret (Some (PlainError m))
      | None \<Rightarrow> do {
          e \<leftarrow> do_fs E ''start'' [daemonPath];
          (case e of
             Some m \<Rightarrow> ret (Some (Wrapped ''start daemon: '' (PlainError m)))
           | None \<Rightarrow> do {
               over \<leftarrow> do_flag E ''ctx.Done'';
               (if \<not> over then do {
                  r \<leftarrow> do_fs E ''wait'' [daemonPath];
                  ret (map_option PlainError r)
                } else do {
                  _ \<leftarrow> do_fs E ''SIGINT'' [daemonPath];
                  exited \<leftarrow> do_sleep E (seconds 5);
                  (if exited then ret ()
                   else do { emit Kill; _ \<leftarrow> do_fs E ''wait'' [daemonPath]; ret () });
                  ret None
                })
             })
        })
   }"

text \<open>\<open>Run\<close> looks at the context after each life.\<close>

definition daemon_life :: "env \<Rightarrow> ('z world_scheme, bool) state" where
  "daemon_life E = do { _ \<leftarrow> runOnce E; do_flag E ''ctx.Err'' }"

definition daemon_supervised :: "nat \<Rightarrow> env \<Rightarrow> ('z st_world_scheme, unit) state" where
  "daemon_supervised n E = daemon_run n E (daemon_life E) daemon_crashed (seconds 1)"

section \<open>The first contact with the daemon\<close>

definition daemon_status :: "bool \<Rightarrow> connection \<Rightarrow> snapshot \<Rightarrow> snapshot" where
  "daemon_status loggedIn conn s = set_conn conn (set_auth (if loggedIn then AuthLoggedIn else AuthLoggedOut) s)"

definition autoconnect :: "bool \<Rightarrow> connection \<Rightarrow> ('z act_world_scheme, unit) state" where
  "autoconnect loggedIn conn = do {
     w \<leftarrow> getw;
     (if ev_autoconnect (cf_expressvpn (cw_cur (ac_store w))) \<and> loggedIn \<and> conn \<noteq> ConnConnected
      then do { st_update (set_desired DesiredConnected); resetRetries }
      else ret ())
   }"

definition initDaemon :: "nat \<Rightarrow> env \<Rightarrow> ('z act_world_scheme, unit) state" where
  "initDaemon n E = do {
     r \<leftarrow> Reconciler.settled (Some hung) (waitReady n E readyTimeout);
     (case r of
        Some err \<Rightarrow> do {
          now \<leftarrow> do_clock E;
          st_update (\<lambda>s. set_last_error (Some \<lparr>er_code = ''daemon_not_ready'', er_message = err_text err, er_at = now\<rparr>)
            (set_conn ConnError s))
        }
      | None \<Rightarrow> do {
          _ \<leftarrow> bootstrap E;
          status \<leftarrow> cli_Status E;
          (case status of
             Inl err \<Rightarrow> ret ()
           | Inr st \<Rightarrow> do {
               c \<leftarrow> cli_ConnectionState E;
               let conn = (case c of Inl _ \<Rightarrow> ConnDisconnected | Inr conn \<Rightarrow> conn);
               st_update (daemon_status (cs_LoggedIn st) conn);
               autoconnect (cs_LoggedIn st) conn
             })
        })
   }"

section \<open>The SOCKS server\<close>

text \<open>Listening on TCP: an error, or the port.\<close>

record sockets =
  so_listen :: "event list \<Rightarrow> string \<Rightarrow> string + 16 word"

text \<open>\<open>newUDPRelayOn\<close> with the listener of the marked dialer: the port of the relay if there is one.\<close>

definition newUDPRelayOn :: "env \<Rightarrow> string \<Rightarrow> ('z world_scheme, nat res) state" where
  "newUDPRelayOn E addr = do {
     r \<leftarrow> do_mdial E Mark ''udp4'' addr;
     ret (case r of Inl m \<Rightarrow> Inl (PlainError m) | Inr (ip, port) \<Rightarrow> Inr port)
   }"

definition relay_host :: "string \<Rightarrow> string" where
  "relay_host addr = (let host = (case split_host_port addr of Some (h, p) \<Rightarrow> h | None \<Rightarrow> []) in
     if host = [] then ''0.0.0.0'' else host)"

definition show_listening :: "string \<Rightarrow> snapshot \<Rightarrow> snapshot" where
  "show_listening addr s = s\<lparr>s_proxy := (s_proxy s)\<lparr>px_listen := addr, px_status := ''running''\<rparr>\<rparr>"

text \<open>\<open>Server.Run\<close> up to its loop; without a relay it serves TCP only. \<open>itoa\<close> does not panic on a port.\<close>

definition srv_run :: "env \<Rightarrow> sockets \<Rightarrow> string \<Rightarrow> ('z agent_world_scheme, unit) state" where
  "srv_run E N addr = do {
     w \<leftarrow> getw;
     emit (FsOp ''listen'' [addr]);
     (case so_listen N (trace w) addr of
        Inl m \<Rightarrow> modify (\<lambda>w. w\<lparr>ag_proxy := ProxyFailed (PlainError m)\<rparr>)
      | Inr port \<Rightarrow> do {
          udp \<leftarrow> (case itoa (unat port) of
              None \<Rightarrow> ret None
            | Some p \<Rightarrow> do {
                r \<leftarrow> newUDPRelayOn E (join_host_port (relay_host addr) p);
                ret (case r of Inl _ \<Rightarrow> None | Inr own \<Rightarrow> Some own)
              });
          st_update (show_listening addr);
          modify (\<lambda>w. w\<lparr>ag_proxy := ProxyRuns udp\<rparr>)
        })
   }"

definition socks_addr :: "process \<Rightarrow> string" where
  "socks_addr P = envOr P ''DETOUR_SOCKS_ADDR'' '':1080''"

text \<open>One turn of the goroutine that waits for the kill switch; at the end of the context it gives its subscription back.\<close>

definition proxy_gate :: "env \<Rightarrow> process \<Rightarrow> sockets \<Rightarrow> ('z agent_world_scheme, unit) state" where
  "proxy_gate E P N = do {
     w \<leftarrow> getw;
     (case ag_proxy w of
        ProxyWaits ch \<Rightarrow> do {
          x \<leftarrow> st_receive ch;
          (case x of
             None \<Rightarrow> ret ()
           | Some s \<Rightarrow>
               if k_active (s_killswitch s) then do { st_cancel ch; srv_run E N (socks_addr P) } else ret ())
        }
      | _ \<Rightarrow> ret ())
   }"

text \<open>\<open>Accept\<close> fails: once the context has ended the server stops, otherwise it goes on.\<close>

definition accept_failed :: "env \<Rightarrow> ('z agent_world_scheme, unit) state" where
  "accept_failed E = do {
     over \<leftarrow> do_flag E ''ctx.Err'';
     w \<leftarrow> getw;
     (case ag_proxy w of
        ProxyRuns udp \<Rightarrow>
          if over then do {
            st_update (\<lambda>s. s\<lparr>s_proxy := (s_proxy s)\<lparr>px_status := ''stopped''\<rparr>\<rparr>);
            modify (\<lambda>w. w\<lparr>ag_proxy := ProxyEnded\<rparr>)
          } else ret ()
      | _ \<Rightarrow> ret ())
   }"

text \<open>What a client sends, and what happens to the bytes of its connection.\<close>

record client =
  cl_bytes :: "byte list"
  cl_writes :: nat
  cl_accepts :: nat
  cl_sends :: "byte list list"

text \<open>The options of \<open>proxy.New\<close>: the gate and the credentials are read from the stores. The published port is a port: a
  value outside the range of ports is not considered.\<close>

definition proxy_options :: "process \<Rightarrow> client \<Rightarrow> nat option \<Rightarrow> 'z agent_world_scheme \<Rightarrow> server_cfg" where
  "proxy_options P c udp w =
     \<lparr>sc_auth = pc_auth (cf_proxy (cw_cur (ac_store w))), sc_gate = (conn_of (snap_of w) = ConnConnected), sc_mark = Mark,
      sc_udpPort = udp,
      sc_publishedPort = (case parse_int (envOr P ''DETOUR_PUBLISHED_SOCKS_PORT'' ''1080'') of Some n \<Rightarrow> nat n | None \<Rightarrow> 0),
      sc_accepts = cl_accepts c, sc_sends = cl_sends c\<rparr>"

text \<open>A connection, served in one step; the answer is what the client reads. Nobody listens before the server runs.\<close>

definition serve_client :: "env \<Rightarrow> process \<Rightarrow> client \<Rightarrow> ('z agent_world_scheme, byte list) state" where
  "serve_client E P c = State (\<lambda>w. case ag_proxy w of
     ProxyRuns udp \<Rightarrow>
       let (u, s) = run_state (handle E (proxy_options P c udp w))
             (srv_world.extend ((ag_srv w)\<lparr>world.trace := world.trace w\<rparr>) (socks_world.fields (cl_bytes c) [] (cl_writes c)))
       in (sw_out s, w\<lparr>world.trace := world.trace s, ag_srv := srv_world.truncate s\<rparr>)
   | _ \<Rightarrow> ([], w))"

text \<open>A tick of \<open>publishStats\<close> and of \<open>PollCounters\<close>.\<close>

definition stats_tick :: "env \<Rightarrow> ('z agent_world_scheme, unit) state" where
  "stats_tick E = State (\<lambda>w. let (st, s) = run_state (publishStats 1 E (w_st w)) ((ag_srv w)\<lparr>world.trace := world.trace w\<rparr>)
     in ((), w\<lparr>world.trace := world.trace s, ag_srv := s, w_st := st\<rparr>))"

definition counters_tick :: "env \<Rightarrow> ('z ks_world_scheme, unit) state" where
  "counters_tick E = do {
     w \<leftarrow> getw;
     st \<leftarrow> pollCounters 1 E (seconds 10) (w_st w);
     modify (\<lambda>w. w\<lparr>w_st := st\<rparr>)
   }"

section \<open>The end\<close>

text \<open>\<open>ListenAndServe\<close> ends with an error of its own or by \<open>Shutdown\<close>.\<close>

definition http_result :: "string \<Rightarrow> go_error option" where
  "http_result m = (if m = ''http: Server closed'' then None else Some (PlainError m))"

definition stop_agent :: "env \<Rightarrow> ('z ul_world_scheme, unit) state" where
  "stop_agent E = do {
     _ \<leftarrow> do_sleep E (seconds 9);
     shutdown E;
     _ \<leftarrow> do_fs E ''http shutdown'' [];
     ret ()
   }"

text \<open>The second half of \<open>run\<close>, from the \<open>select\<close> on: \<open>served\<close> is the error of the HTTP server if it ended first.\<close>

definition run_rest :: "env \<Rightarrow> string option \<Rightarrow> ('z ul_world_scheme, start_error option) state" where
  "run_rest E served = (case served of
     Some m \<Rightarrow> ret (map_option StartError (http_result m))
   | None \<Rightarrow> do { stop_agent E; ret None })"

section \<open>The goroutines together\<close>

definition ignored :: "('s, 'a) state \<Rightarrow> ('s, unit) state" where
  "ignored m = do { _ \<leftarrow> m; ret () }"

text \<open>The programs that the goroutines run between two waits. An action with no rounds makes its changes and subscribes; its wait, and
  what it receives, are steps of their own below. The self-check and the probe publish their results only (\<open>others\<close>).\<close>

inductive turn :: "env \<Rightarrow> process \<Rightarrow> sockets \<Rightarrow> ('z agent_world_scheme, unit) state \<Rightarrow> bool" for E P N where
  reconciles: "turn E P N (reconcile E (agent_drivers n E T marshal pick))"
| supervises: "turn E P N (superviseOnce E wake)"
| unlocks: "turn E P N (ensureNetworkLockOff E)"
| monitors: "turn E P N (monitor_tick E resetRetries)"
| probes: "turn E P N (probe_finish run supported)"
| counts: "turn E P N (counters_tick E)"
| publishes: "turn E P N (stats_tick E)"
| crashes: "turn E P N daemon_crashed"
| inits: "turn E P N (initDaemon n E)"
| acts: "c \<noteq> CallSelfcheck \<Longrightarrow> c \<noteq> CallProbeUplink \<Longrightarrow> turn E P N (ignored (run_action E L Pr [] c))"
| patches: "turn E P N (ignored (in_store (apply_merge_patch E un patch)))"
| gates: "turn E P N (proxy_gate E P N)"
| serves: "turn E P N (ignored (serve_client E P c))"
| accepts: "turn E P N (accept_failed E)"


text \<open>What a step leaves alone unless it is one of the reconciler or of the SOCKS server: the rules and their flag, the phase
  of the server, the effects so far, and the subscriptions.\<close>

definition aside :: "'z agent_world_scheme \<Rightarrow> 'z agent_world_scheme \<Rightarrow> bool" where
  "aside w v \<longleftrightarrow> rules_known v = rules_known w \<and> prefix (trace w) (trace v) \<and> ag_proxy v = ag_proxy w \<and>
     k_active (s_killswitch (snap_of v)) = k_active (s_killswitch (snap_of w)) \<and>
     (store_inv (w_st w) \<longrightarrow> store_inv (w_st v) \<and> set (subs (w_st w)) \<subseteq> set (subs (w_st v)))"

inductive agent_runs :: "env \<Rightarrow> process \<Rightarrow> sockets \<Rightarrow> 'z agent_world_scheme \<Rightarrow> 'z agent_world_scheme \<Rightarrow> bool" for E P N w0 where
  begins: "run_state (start E P) w0 = (None, v) \<Longrightarrow> agent_runs E P N w0 v"
| turns: "agent_runs E P N w0 w \<Longrightarrow> turn E P N m \<Longrightarrow> run_state m w = ((), v) \<Longrightarrow> agent_runs E P N w0 v"
| waits: "agent_runs E P N w0 w \<Longrightarrow> ag_proxy w \<noteq> ProxyWaits ch \<Longrightarrow>
    run_state (wait_rounds E d ch target [ret ()]) w = (r, v) \<Longrightarrow> agent_runs E P N w0 v"
| leaves: "agent_runs E P N w0 w \<Longrightarrow> ag_proxy w \<noteq> ProxyWaits ch \<Longrightarrow> run_state (st_cancel ch) w = ((), v) \<Longrightarrow> agent_runs E P N w0 v"
| others: "agent_runs E P N w0 w \<Longrightarrow> aside w v \<Longrightarrow> agent_runs E P N w0 v"

section \<open>Steps aside\<close>

interpretation aside: step_frame aside
proof
  fix u v w :: "'z agent_world_scheme"
  show "aside w w" by (simp add: aside_def)
  show "aside u v \<Longrightarrow> aside v w \<Longrightarrow> aside u w"
    by (auto simp: aside_def intro: prefix_order.trans)
qed

lemma aside_modify:
  "(\<And>w. rules_known (f w) = rules_known w \<and> trace (f w) = trace w \<and> w_st (f w) = w_st w \<and> ag_proxy (f w) = ag_proxy w) \<Longrightarrow>
   aside.within (modify f)"
  by (simp add: aside.within_def aside_def)

lemma aside_only: "only_effects m \<Longrightarrow> aside.within m"
  unfolding aside.within_def
proof
  fix w
  assume "only_effects m"
  then obtain es where "snd (run_state m w) = w\<lparr>trace := trace w @ es\<rparr>" by (auto simp: only_effects_def)
  then show "aside w (snd (run_state m w))" by (simp add: aside_def rules_known_def)
qed

lemma aside_update:
  "(\<And>s. k_active (s_killswitch (f s)) = k_active (s_killswitch s)) \<Longrightarrow> aside.within (st_update f)"
  by (simp add: aside.within_def aside_def st_update_def rules_known_def store_get_def store_inv_update)

lemma aside_st: "aside.within st_get" "aside.within st_subscribe"
  using store_inv_subscribe
  by (auto simp: aside.within_def aside_def st_get_def st_subscribe_def rules_known_def store_get_def subscribe_def)

lemma aside_settled: "aside.within m \<Longrightarrow> aside.within (Reconciler.settled d m)"
  unfolding Reconciler.settled_def by (intro aside.within_intros)

lemmas aside_intros = aside.within_intros only_basic [THEN aside_only] aside_update aside_st aside_modify aside_settled
lemmas aside_ops = routes_only [THEN aside_only] cli_only [THEN aside_only] resolve_only [THEN aside_only]
  procAlive_only [THEN aside_only]

lemma turns_aside:
  "aside.within (superviseOnce E wake)" "aside.within (ensureNetworkLockOff E)" "aside.within (monitor_tick E resetRetries)"
  "aside.within (probe_finish run supported)" "aside.within daemon_crashed"
  unfolding superviseOnce_def ensureNetworkLockOff_def monitor_tick_def probe_finish_def daemon_crashed_def resetRetries_def wake_def
    publish_udp_def Let_def
  by (intro aside_intros aside_ops; auto simp: rules_known_def)+

lemma initDaemon_aside: "aside.within (initDaemon n E)"
proof -
  have poll: "aside.within (poll_loop n E d p (cli_ConnectionState E) ok late)" for d p ok late
    by (induction n) (auto intro!: aside_intros aside_ops)
  have boot: "aside.within (bootstrap E)"
    unfolding bootstrap_def by (intro aside_intros aside_ops)
  show ?thesis
    unfolding initDaemon_def waitReady_def autoconnect_def resetRetries_def wake_def daemon_status_def Let_def
    by (intro aside_intros aside_ops poll boot; simp add: rules_known_def)
qed

lemma in_store_aside: "aside.within (in_store (apply_merge_patch E un patch))"
  unfolding aside.within_def
proof
  fix w :: "'z agent_world_scheme"
  obtain r c where c: "run_state (apply_merge_patch E un patch) ((ac_store w)\<lparr>trace := trace w\<rparr>) = (r, c)" by fastforce
  have "prefix (trace ((ac_store w)\<lparr>trace := trace w\<rparr>)) (trace c)"
    using patch_eff.prefix_trace [of "(ac_store w)\<lparr>trace := trace w\<rparr>" E un patch] c by simp
  then show "aside w (snd (run_state (in_store (apply_merge_patch E un patch)) w))"
    using c by (simp add: in_store_def Let_def aside_def rules_known_def)
qed

lemma loc_refresh_ext: "extending (loc_Refresh E marshal)"
  unfolding loc_Refresh_def Let_def by (intro ext_intros; simp)

lemma in_locs_aside: "extending m \<Longrightarrow> aside.within (in_locs m)"
  unfolding aside.within_def
proof
  fix w :: "'z agent_world_scheme"
  assume "extending m"
  obtain r l where l: "run_state m ((ac_locs w)\<lparr>trace := trace w\<rparr>) = (r, l)" by fastforce
  with extending_prefix [OF \<open>extending m\<close> this] show "aside w (snd (run_state (in_locs m) w))"
    by (simp add: in_locs_def Let_def aside_def rules_known_def)
qed

lemma wait_nothing: "waitConnection E target [] = do { t0 \<leftarrow> do_clock E; ch \<leftarrow> st_subscribe; ret None }"
  by (simp add: waitConnection_def)

lemma acts_aside:
  fixes Pr :: "'z agent_world_scheme probers"
  assumes "c \<noteq> CallSelfcheck" and "c \<noteq> CallProbeUplink"
  shows "aside.within (run_action E L Pr [] c)"
proof -
  have "aside.within (act_Connect E L [] l)" for l
    unfolding act_Connect_def wait_nothing want_connected_def resetRetries_def wake_def Let_def
    by (intro aside_intros in_store_aside; simp add: rules_known_def)
  moreover have "aside.within (act_Disconnect E [])"
    unfolding act_Disconnect_def wait_nothing wake_def
    by (intro aside_intros; simp add: rules_known_def)
  moreover have "aside.within (act_Reconnect E [])"
    unfolding act_Reconnect_def wait_nothing resetRetries_def wake_def forgetConnection_def
    by (intro aside_intros; simp add: rules_known_def)
  moreover have "aside.within (act_Login E code :: ('z agent_world_scheme, go_error option) state)" for code
    unfolding act_Login_def xv_Login_def setAuth_def
    by (intro aside_intros aside_ops; simp add: rules_known_def)
  moreover have "aside.within (act_Logout E)"
    unfolding act_Logout_def xv_Logout_def setAuth_def
    by (intro aside_intros aside_ops; simp add: rules_known_def)
  moreover have "aside.within (act_RefreshLocations E L)"
    unfolding act_RefreshLocations_def by (rule in_locs_aside [OF loc_refresh_ext])
  moreover have "aside.within m \<Longrightarrow> aside.within (do { e \<leftarrow> m; ret (Some e) })" for m :: "('z agent_world_scheme, go_error option) state"
    by (intro aside.within_intros)
  ultimately show ?thesis
    using assms unfolding run_action_def by (cases c) simp_all
qed

lemma ticks_aside: "aside.within (stats_tick E)" "aside.within (counters_tick E)"
proof -
  show "aside.within (stats_tick E)"
    by (auto simp: aside.within_def stats_tick_def aside_def rules_known_def store_get_def intro: store_inv_update split: prod.split)
  have "aside w (snd (run_state (counters_tick E) w))" for w :: "'b agent_world_scheme"
  proof -
    let ?u = "w\<lparr>trace := trace w @ [Sleep (seconds 10)]\<rparr>"
    obtain r x where d: "run_state (dropped E) ?u = (r, x)" by fastforce
    with dropped_only obtain es where "x = ?u\<lparr>trace := trace ?u @ es\<rparr>" by (rule only_run)
    with d show ?thesis
      by (auto simp: counters_tick_def aside_def rules_known_def store_get_def intro: store_inv_update split: sum.split)
  qed
  then show "aside.within (counters_tick E :: ('b agent_world_scheme, unit) state)" unfolding aside.within_def by (rule allI)
qed

lemma turn_aside:
  assumes "turn E P N m"
  obtains "aside.within m" | n T marshal pick where "m = reconcile E (agent_drivers n E T marshal pick)"
  | "m = proxy_gate E P N" | c where "m = ignored (serve_client E P c)" | "m = accept_failed E"
  using assms
proof (cases rule: turn.cases)
  case (acts c L Pr)
  then show thesis using that(1) acts_aside unfolding ignored_def by (blast intro: aside.within_bind aside.within_basic)
next
  case (patches un patch)
  then show thesis using that(1) in_store_aside unfolding ignored_def by (blast intro: aside.within_bind aside.within_basic)
qed (use that turns_aside ticks_aside initDaemon_aside in blast)+

section \<open>The invariant of the running agent\<close>

definition agent_ok :: "env \<Rightarrow> 'z agent_world_scheme \<Rightarrow> bool" where
  "agent_ok E w \<longleftrightarrow> store_inv (w_st w) \<and> guarded E w \<and>
     p_TunIface (ks_params w) = p_TunIface ks_defaults \<and> p_EthIface (ks_params w) = p_EthIface ks_defaults \<and>
     (k_active (s_killswitch (snap_of w)) \<longrightarrow> rc_appliedKS w \<noteq> None) \<and>
     (\<forall>ch. ag_proxy w = ProxyWaits ch \<longrightarrow> ch \<in> set (subs (w_st w))) \<and>
     (\<forall>udp. ag_proxy w = ProxyRuns udp \<longrightarrow> rc_appliedKS w \<noteq> None)"

lemma started_ok: "started w \<Longrightarrow> agent_ok E w"
  by (auto simp: started_def agent_ok_def guarded_def)

lemma aside_ok: "agent_ok E w \<Longrightarrow> aside w v \<Longrightarrow> agent_ok E v"
  using guarded_kept [of E w v] by (auto simp: agent_ok_def aside_def rules_known_def)

text \<open>A pass: the kill switch shown as active has been applied, and what has been applied stays so.\<close>

lemma pass_applied:
  assumes "run_state (reconcile E (agent_drivers n E T marshal pick)) w = (r, v)"
    and "k_active (s_killswitch (snap_of w)) \<longrightarrow> rc_appliedKS w \<noteq> None"
  shows "k_active (s_killswitch (snap_of v)) \<longrightarrow> rc_appliedKS v \<noteq> None" and "rc_appliedKS w \<noteq> None \<longrightarrow> rc_appliedKS v \<noteq> None"
  using wpD [OF agent.reconcile_wp assms(1)]
  by (auto simp: Let_def stopped_def layers_up_def conn_outcome_def pass_frame_def)

definition same_around :: "'z rec_world_scheme \<Rightarrow> 'z rec_world_scheme \<Rightarrow> bool" where
  "same_around w v \<longleftrightarrow> rec_world.more v = rec_world.more w"

interpretation around: store_frame same_around
proof
  fix u v w :: "'z rec_world_scheme" and f
  show "same_around w w" "same_around w (w\<lparr>w_st := update f (w_st w)\<rparr>)" by (simp_all add: same_around_def)
  show "same_around u v \<Longrightarrow> same_around v w \<Longrightarrow> same_around u w" by (simp add: same_around_def)
  show "rec_world.more v = rec_world.more w \<Longrightarrow> same_around w v" by (simp add: same_around_def)
qed

lemma pass_around:
  fixes w :: "'z agent_world_scheme"
  assumes run: "run_state (reconcile E (agent_drivers n E T marshal pick)) w = (r, v)"
  shows "ag_proxy v = ag_proxy w \<and> ac_store v = ac_store w"
proof -
  have "same_around w v" using around.agent_in [of E n T marshal pick] run
    by (auto simp: around.within_def dest: spec [of _ w])
  then show ?thesis by (cases v; cases w) (simp add: same_around_def)
qed

lemma updates_inv: "store_inv s \<Longrightarrow> store_inv (fold update fs s) \<and> subs (fold update fs s) = subs s"
  by (induction fs arbitrary: s) (simp_all add: store_inv_update)

lemma pass_ok:
  assumes run: "run_state (reconcile E (agent_drivers n E T marshal pick)) w = (r, v)" and ok: "agent_ok E w"
  shows "agent_ok E v"
proof -
  obtain fs where "w_st v = fold update fs (w_st w)"
    using pubs.agent_in [of E n T marshal pick] run by (auto simp: pub.within_def updated_def dest: spec [of _ w])
  moreover have "guarded E w" using ok by (simp add: agent_ok_def)
  note pass_locked(1-3) [OF run this]
  moreover note pass_applied [OF run] pass_around [OF run]
  ultimately show ?thesis
    using ok updates_inv [of "w_st w" fs] by (auto simp: agent_ok_def)
qed

text \<open>The gate opens on an active kill switch only; what it receives is current.\<close>

lemma relay_run:
  "\<exists>r. run_state (case itoa n of None \<Rightarrow> ret None | Some p \<Rightarrow> do {
       r \<leftarrow> newUDPRelayOn E (join_host_port h p);
       ret (case r of Inl _ \<Rightarrow> None | Inr own \<Rightarrow> Some own)
     }) w = (r, w\<lparr>trace := trace w @ (case itoa n of None \<Rightarrow> [] | Some p \<Rightarrow> [MarkedDial Mark ''udp4'' (join_host_port h p)])\<rparr>)"
  by (simp add: newUDPRelayOn_def split: option.split)

lemma srv_run_run:
  "\<exists>es st ph. run_state (srv_run E N addr) w = ((), w\<lparr>trace := trace w @ es, w_st := st, ag_proxy := ph\<rparr>) \<and>
     (st = w_st w \<or> st = update (show_listening addr) (w_st w)) \<and> (\<forall>ch. ph \<noteq> ProxyWaits ch) \<and>
     (\<forall>port. so_listen N (trace w) addr = Inr port \<longrightarrow> (\<exists>udp. ph = ProxyRuns udp))"
proof (cases "so_listen N (trace w) addr")
  case (Inl m)
  then show ?thesis
    by (intro exI [of _ "[FsOp ''listen'' [addr]]"] exI [of _ "w_st w"] exI [of _ "ProxyFailed (PlainError m)"])
      (simp add: srv_run_def)
next
  case (Inr port)
  let ?u = "w\<lparr>trace := trace w @ [FsOp ''listen'' [addr]]\<rparr>"
  obtain r where "run_state (case itoa (unat port) of None \<Rightarrow> ret None | Some p \<Rightarrow> do {
       r \<leftarrow> newUDPRelayOn E (join_host_port (relay_host addr) p);
       ret (case r of Inl _ \<Rightarrow> None | Inr own \<Rightarrow> Some own)
     }) ?u = (r, ?u\<lparr>trace := trace ?u @ (case itoa (unat port) of None \<Rightarrow> [] | Some p \<Rightarrow> [MarkedDial Mark ''udp4'' (join_host_port (relay_host addr) p)])\<rparr>)"
    using relay_run by blast
  with Inr show ?thesis
    by (auto simp: srv_run_def st_update_def intro!: exI [of _ "ProxyRuns r"])
qed

lemma gate_ok:
  assumes run: "run_state (proxy_gate E P N) w = ((), v)" and ok: "agent_ok E w"
  shows "agent_ok E v"
proof (cases "\<exists>ch. ag_proxy w = ProxyWaits ch")
  case True
  then obtain ch where ch: "ag_proxy w = ProxyWaits ch" by blast
  obtain x s where x: "receive ch (w_st w) = (x, s)" by fastforce
  have "watching ch w" using ok ch by (simp add: agent_ok_def watching_def)
  from receive_current [OF this] x have s: "x = None \<or> x = Some (snap_of w)" "store_get s = snap_of w" "store_inv s"
    "ch \<in> set (subs s)" by auto
  show ?thesis
  proof (cases "x \<noteq> None \<and> k_active (s_killswitch (snap_of w))")
    case False
    then have "v = w\<lparr>w_st := s\<rparr>"
      using run ch x s(1) by (auto simp: proxy_gate_def st_receive_def)
    then show ?thesis using ok s ch by (auto simp: agent_ok_def guarded_def)
  next
    case True
    let ?u = "w\<lparr>w_st := cancel ch s\<rparr>"
    have "run_state (srv_run E N (socks_addr P)) ?u = ((), v)"
      using run ch x s(1) True by (auto simp: proxy_gate_def st_receive_def st_cancel_def)
    with srv_run_run [of E N "socks_addr P" ?u] obtain es st ph where v: "v = ?u\<lparr>trace := trace ?u @ es, w_st := st, ag_proxy := ph\<rparr>"
      "st = cancel ch s \<or> st = update (show_listening (socks_addr P)) (cancel ch s)" "\<forall>ch. ph \<noteq> ProxyWaits ch"
      by auto
    have "store_inv st" using v(2) store_inv_cancel [OF s(3), of ch] by (auto intro: store_inv_update)
    moreover have "k_active (s_killswitch (store_get st)) = k_active (s_killswitch (snap_of w))"
      using v(2) s(2) by (auto simp: show_listening_def store_get_def cancel_def)
    moreover have "rc_appliedKS w \<noteq> None" using ok True by (simp add: agent_ok_def)
    moreover have "guarded E v"
      by (rule guarded_kept [of E w]) (use ok v(1) in \<open>auto simp: agent_ok_def rules_known_def\<close>)
    ultimately show ?thesis using ok v(1,3) by (auto simp: agent_ok_def)
  qed
next
  case False
  then have "v = w" using run by (simp add: proxy_gate_def split: proxy_phase.splits)
  with ok show ?thesis by simp
qed

lemma accept_ok:
  assumes run: "run_state (accept_failed E) w = ((), v)" and ok: "agent_ok E w"
  shows "agent_ok E v"
proof -
  let ?f = "\<lambda>s. s\<lparr>s_proxy := (s_proxy s)\<lparr>px_status := ''stopped''\<rparr>\<rparr>"
  have "v = w\<lparr>trace := trace w @ [Stat ''ctx.Err'']\<rparr> \<or>
      v = w\<lparr>trace := trace w @ [Stat ''ctx.Err''], w_st := update ?f (w_st w), ag_proxy := ProxyEnded\<rparr>"
    using run by (auto simp: accept_failed_def st_update_def split: proxy_phase.splits if_splits)
  moreover have "guarded E v"
    by (rule guarded_kept [of E w]) (use ok calculation in \<open>auto simp: agent_ok_def rules_known_def\<close>)
  ultimately show ?thesis
    using ok by (auto simp: agent_ok_def store_inv_update store_get_def)
qed

definition client_world :: "client \<Rightarrow> 'z agent_world_scheme \<Rightarrow> socks_world" where
  "client_world c w = srv_world.extend ((ag_srv w)\<lparr>trace := trace w\<rparr>) (socks_world.fields (cl_bytes c) [] (cl_writes c))"

lemma client_world_simps [simp]: "trace (client_world c w) = trace w" "sw_in (client_world c w) = cl_bytes c"
  by (simp_all add: client_world_def srv_world.defs socks_world.defs)

lemma serve_run:
  "run_state (serve_client E P c) w = (case ag_proxy w of
     ProxyRuns udp \<Rightarrow> (let s = snd (run_state (handle E (proxy_options P c udp w)) (client_world c w)) in
       (sw_out s, w\<lparr>trace := trace s, ag_srv := srv_world.truncate s\<rparr>))
   | _ \<Rightarrow> ([], w))"
  by (simp add: serve_client_def client_world_def Let_def split: proxy_phase.split prod.split)

lemma serve_effects:
  assumes "run_state (serve_client E P c) w = (out, v)"
  shows "\<exists>es. trace v = trace w @ es \<and> list_all (is_marked Mark) es \<and> aside w v \<and>
    (es \<noteq> [] \<longrightarrow> (\<exists>udp. ag_proxy w = ProxyRuns udp \<and> conn_of (snap_of w) = ConnConnected))"
proof (cases "\<exists>udp. ag_proxy w = ProxyRuns udp")
  case True
  then obtain udp where udp: "ag_proxy w = ProxyRuns udp" by blast
  let ?S = "proxy_options P c udp w" and ?c = "client_world c w"
  obtain s where s: "run_state (handle E ?S) ?c = ((), s)" by (rule run_unit)
  have mark: "sc_mark ?S = Mark" by (simp add: proxy_options_def)
  obtain es where es: "trace s = trace w @ es" "list_all (is_marked Mark) es"
    using emits_handle [of ?S E, unfolded emits_def, rule_format, of ?c] s mark by auto
  have "es = []" if "conn_of (snap_of w) \<noteq> ConnConnected"
  proof -
    have "\<not> sc_gate ?S" using that by (simp add: proxy_options_def)
    then have "trace s = trace ?c" using quiet_closed [of ?S E] s by (auto simp: quiet_def dest: spec [of _ ?c])
    with es show ?thesis by simp
  qed
  moreover have "v = w\<lparr>trace := trace s, ag_srv := srv_world.truncate s\<rparr>"
    using assms udp s by (simp add: serve_run Let_def)
  ultimately show ?thesis using es udp
    by (intro exI [of _ es]) (auto simp: aside_def rules_known_def)
next
  case False
  then have "v = w" using assms by (simp add: serve_run split: proxy_phase.splits)
  then show ?thesis by (simp add: aside.same)
qed

text \<open>What an action that waits does to the store: it reads and gives back a subscription of its own.\<close>

lemma round_ok:
  assumes run: "run_state (wait_rounds E d ch target [ret ()]) w = (r, v)" and ok: "agent_ok E w" and own: "ag_proxy w \<noteq> ProxyWaits ch"
  shows "agent_ok E v"
proof -
  obtain x s where x: "receive ch (w_st w) = (x, s)" by fastforce
  have s: "store_inv s" "store_get s = snap_of w" "subs s = subs (w_st w)"
    using ok x store_inv_receive [of "w_st w" ch] by (auto simp: agent_ok_def receive_def store_get_def split: list.splits)
  have "\<exists>es. v = w\<lparr>trace := trace w @ es\<rparr> \<or> v = w\<lparr>trace := trace w @ es, w_st := s\<rparr>"
    using run x by (auto simp: st_receive_def split: if_splits option.splits)
  then obtain es where v: "v = w\<lparr>trace := trace w @ es\<rparr> \<or> v = w\<lparr>trace := trace w @ es, w_st := s\<rparr>" ..
  moreover have "guarded E v"
    by (rule guarded_kept [of E w]) (use ok v in \<open>auto simp: agent_ok_def rules_known_def\<close>)
  ultimately show ?thesis using ok s by (auto simp: agent_ok_def)
qed

lemma cancel_ok:
  assumes "run_state (st_cancel ch) w = ((), v)" and "agent_ok E w" and "ag_proxy w \<noteq> ProxyWaits ch"
  shows "agent_ok E v"
  using assms store_inv_cancel [of "w_st w" ch]
  by (auto simp: st_cancel_def agent_ok_def guarded_def store_get_def cancel_def)

lemma runs_ok: "agent_runs E P N w0 w \<Longrightarrow> agent_ok E w"
proof (induction rule: agent_runs.induct)
  case (begins v)
  then show ?case by (intro started_ok) (use wpD [OF start_wp] in blast)
next
  case (turns w m v)
  from turns(2) show ?case
  proof (cases rule: turn_aside)
    case 1
    then show ?thesis using turns(3) aside_ok [OF turns.IH] by (auto simp: aside.within_def dest: spec [of _ w])
  next
    case (4 c)
    obtain out u where "run_state (serve_client E P c) w = (out, u)" by fastforce
    with serve_effects [OF this] turns(3) 4 aside_ok [OF turns.IH] show ?thesis by (auto simp: ignored_def)
  qed (use turns pass_ok gate_ok accept_ok in blast)+
next
  case (waits w ch d target r v)
  then show ?case using round_ok by blast
next
  case (leaves w ch v)
  then show ?case using cancel_ok by blast
next
  case (others w v)
  then show ?case using aside_ok by blast
qed

lemma ready_enough:
  assumes "ticking E" and "32 \<le> n"
  shows "fst (run_state (waitReady n E readyTimeout) w) \<noteq> None"
proof -
  obtain m where n: "n = Suc m" using assms(2) by (cases n) auto
  let ?w = "w\<lparr>trace := trace w @ [Clock]\<rparr>"
  have "env_clock E (trace w) \<le> env_clock E (trace w @ [Clock])" by (rule clock_mono [OF assms(1)])
  then have "env_clock E (trace w) + readyTimeout < env_clock E (trace ?w) + int m * seconds 2"
    using assms(2) by (simp add: n readyTimeout_def seconds_def)
  from poll_loop_enough [OF assms(1) only_extending [OF cli_only(2)] this] show ?thesis
    by (simp add: waitReady_def n del: poll_loop.simps)
qed

lemma poll_error:
  assumes "run_state (poll_loop n E d p chk ok late) w = (Some (Some e), v)"
  shows "e = ContextDone \<or> (\<exists>r. e = late r)"
  using assms by (induction n arbitrary: w) (auto split: if_splits prod.splits)

lemma initDaemon_quiet: "unconnecting (initDaemon n E)"
proof -
  have poll: "unconnecting (poll_loop n E d p (cli_ConnectionState E) ok late)" for d p ok late
    by (induction n) (auto intro!: emit_intros)
  have cli: "unconnecting (cli_BackgroundEnable E)" "unconnecting (cli_Status E)"
    unfolding cli_BackgroundEnable_def cli_Status_def cli_ok_def by (intro emit_intros; simp)+
  show ?thesis
    unfolding initDaemon_def waitReady_def Reconciler.settled_def bootstrap_def autoconnect_def resetRetries_def wake_def Let_def
    by (intro emit_intros poll cli; simp)
qed

text \<open>The state after the first contact: the daemon did not become ready in a minute (or the process is ending), its status could not be read,
  or it is shown; then the connection may be wanted.\<close>

definition not_ready :: "'z act_world_scheme \<Rightarrow> 'z act_world_scheme \<Rightarrow> bool" where
  "not_ready w v \<longleftrightarrow> (\<exists>err t. (err = ContextDone \<or> err = CLIError ''daemon_not_ready'' (''daemon did not become ready in '' @ dur_str readyTimeout) 0) \<and>
     w_st v = update (\<lambda>s. set_last_error (Some \<lparr>er_code = ''daemon_not_ready'', er_message = err_text err, er_at = t\<rparr>)
       (set_conn ConnError s)) (w_st w))"

definition shown_status :: "bool \<Rightarrow> connection \<Rightarrow> 'z act_world_scheme \<Rightarrow> 'z act_world_scheme \<Rightarrow> bool" where
  "shown_status loggedIn conn w v \<longleftrightarrow> (
     let st = update (daemon_status loggedIn conn) (w_st w);
         auto = (ev_autoconnect (cf_expressvpn (cw_cur (ac_store w))) \<and> loggedIn \<and> conn \<noteq> ConnConnected)
     in w_st v = (if auto then update (set_desired DesiredConnected) st else st) \<and>
        (auto \<longrightarrow> rc_wake v \<and> rc_failures v = 0 \<and> rc_nextRetry v = None))"

text \<open>\<open>q\<close> and \<open>c\<close> are the answers to the two questions, asked one after the other.\<close>

definition contacted :: "env \<Rightarrow> 'z act_world_scheme \<Rightarrow> 'z act_world_scheme \<Rightarrow> bool" where
  "contacted E w v \<longleftrightarrow> (\<exists>(x :: 'z act_world_scheme) y z q c. prefix (trace w) (trace x) \<and> run_state (cli_Status E) x = (q, y) \<and>
     (case q of
        Inl err \<Rightarrow> w_st v = w_st w
      | Inr st \<Rightarrow> run_state (cli_ConnectionState E) y = (c, z) \<and>
          shown_status (cs_LoggedIn st) (case c of Inl err \<Rightarrow> ConnDisconnected | Inr conn \<Rightarrow> conn) w v))"

lemma autoconnect_run:
  "shown_status l c w (snd (run_state (autoconnect l c) (w\<lparr>trace := t, w_st := update (daemon_status l c) (w_st w)\<rparr>)))"
proof -
  have "ac_store (w\<lparr>trace := t, w_st := s\<rparr>) = ac_store w" for s by (cases w) simp
  then show ?thesis
    unfolding shown_status_def Let_def by (simp add: autoconnect_def resetRetries_def wake_def)
qed

lemma initDaemon_run:
  fixes w :: "'z act_world_scheme"
  assumes "ticking E" and "32 \<le> n" and "run_state (initDaemon n E) w = ((), v)"
  shows "not_ready w v \<or> contacted E w v"
proof -
  obtain r u where r: "run_state (waitReady n E readyTimeout) w = (r, u)" by fastforce
  obtain es where u: "u = w\<lparr>trace := trace w @ es\<rparr>"
    by (rule only_run [OF waits_ext(3) r])
  from ready_enough [OF assms(1,2), of w] r obtain e where e: "r = Some e" by (cases r) auto
  have ready: "run_state (Reconciler.settled (Some hung) (waitReady n E readyTimeout)) w = (e, u)"
    by (simp add: Reconciler.settled_def r e)
  show ?thesis
  proof (cases e)
    case (Some x)
    then have "x = ContextDone \<or> x = CLIError ''daemon_not_ready'' (''daemon did not become ready in '' @ dur_str readyTimeout) 0"
      using r unfolding e by (auto simp: waitReady_def dest!: poll_error)
    moreover have "w_st v = update (\<lambda>s. set_last_error (Some
        \<lparr>er_code = ''daemon_not_ready'', er_message = err_text x, er_at = env_clock E (trace u)\<rparr>) (set_conn ConnError s)) (w_st w)"
      using assms(3) unfolding initDaemon_def by (simp add: ready Some u del: snapshot_defs) (auto simp del: snapshot_defs)
    ultimately show ?thesis unfolding not_ready_def by blast
  next
    case None
    have boot: "only_effects (bootstrap E :: ('z act_world_scheme, go_error option) state)" unfolding bootstrap_def by (intro ext_intros)
    obtain b x where b: "run_state (bootstrap E) u = (b, x)" by fastforce
    obtain bs where x: "x = u\<lparr>trace := trace u @ bs\<rparr>" by (rule only_run [OF boot b])
    obtain q y where q: "run_state (cli_Status E) x = (q, y)" by fastforce
    obtain qs where y: "y = x\<lparr>trace := trace x @ qs\<rparr>" by (rule only_run [OF cli_only(3) q])
    have wx: "prefix (trace w) (trace x)" by (simp add: x u)
    show ?thesis
    proof (cases q)
      case (Inl err)
      then have "v = y" using assms(3) by (simp add: initDaemon_def ready None b q)
      then have "w_st v = w_st w" by (simp add: x y u)
      then show ?thesis unfolding contacted_def using wx q Inl
        by (intro disjI2 exI [of _ x] exI [of _ y] exI [of _ y] exI [of _ "Inl err"]) simp
    next
      case (Inr st)
      obtain c z where c: "run_state (cli_ConnectionState E) y = (c, z)" by fastforce
      obtain cs where z: "z = y\<lparr>trace := trace y @ cs\<rparr>" by (rule only_run [OF cli_only(2) c])
      let ?conn = "case c of Inl err \<Rightarrow> ConnDisconnected | Inr conn \<Rightarrow> conn"
      have "run_state (autoconnect (cs_LoggedIn st) ?conn) (z\<lparr>w_st := update (daemon_status (cs_LoggedIn st) ?conn) (w_st z)\<rparr>) = ((), v)"
        using assms(3) by (simp add: initDaemon_def ready None b q Inr c Let_def)
      moreover have "z\<lparr>w_st := s\<rparr> = w\<lparr>trace := trace z, w_st := s\<rparr>" for s by (simp add: x y z u)
      moreover have "w_st z = w_st w" by (simp add: x y z u)
      ultimately have "shown_status (cs_LoggedIn st) ?conn w v"
        using autoconnect_run [of "cs_LoggedIn st" ?conn w "trace z"] by simp
      with wx q Inr c show ?thesis unfolding contacted_def 
        by (intro disjI2 exI [of _ x] exI [of _ y] exI [of _ z] exI [of _ q] exI [of _ c]) simp
    qed
  qed
qed

section \<open>A run\<close>

text \<open>From the start of \<open>Boot\<close>'s container: a pass loads the rules, the gate opens the server, the connection is noticed, and a
  client asks for an address.\<close>

context layer_drivers
begin

lemma pass_active:
  assumes "wp (ks_step E D (cf_uplink (rc_cfg w))) (\<lambda>on v. on \<and> k_active (s_killswitch (snap_of v))) w"
  shows "wp (reconcile E D) (\<lambda>_ v. k_active (s_killswitch (snap_of v))) w"
  unfolding reconcile_def Let_def
  apply (rule wp_bind, rule wp_get, rule wp_bind, rule wp_st_get, rule wp_bind, rule wp_mono [OF assms], rule wp_cases(1), simp)
  apply (rule wp_bind, rule wp_mono [OF uplink_step_wp], rule wp_cases(1), rule wp_return)
   apply (simp add: uplink_done_def)
  apply (rule wp_bind, rule wp_mono [OF settings_step_wp], rule wp_mono [OF connect_step_wp])
  apply (auto simp: uplink_done_def settings_done_def shown_def conn_outcome_def pass_frame_def)
  done

end

definition demo_client :: client where
  "demo_client = \<lparr>cl_bytes = hello [0] @ request_bytes 1 0 plain_addr, cl_writes = 9, cl_accepts = 0, cl_sends = []\<rparr>"

definition demo_sockets :: sockets where
  "demo_sockets = \<lparr>so_listen = (\<lambda>_ _. Inr 1080)\<rparr>"

lemma demo_rules:
  assumes "rc_appliedKS w = None" and "rc_cfg w = default_config"
  shows "wp (ks_step demo_container (agent_drivers n demo_container T marshal pick) (cf_uplink (rc_cfg w)))
    (\<lambda>on v. on \<and> k_active (s_killswitch (snap_of v))) w"
  using assms
  by (simp add: wp_def ks_step_def agent_drivers_def ks_apply_def dockerSubnet_def load_params_def applyNFT_def with_temp_file_def
      demo_container_def ok_env_def ghost_def default_config_def Let_def store_get_def)

lemma demo_pass:
  assumes "started w" and "demo_fresh w" and run: "run_state (reconcile demo_container (agent_drivers n demo_container T marshal pick)) w = (r, v)"
  shows "k_active (s_killswitch (snap_of v)) \<and> conn_of (snap_of v) = ConnDisconnected \<and> s_desired (snap_of v) = DesiredDisconnected \<and>
    cw_cur (ac_store v) = default_config \<and> (\<exists>ch. ag_proxy v = ProxyWaits ch \<and> bufs (w_st v) ch \<noteq> [])"
proof -
  have w: "rc_appliedKS w = None" "rc_cfg w = default_config" "s_desired (snap_of w) = DesiredDisconnected"
    "conn_of (snap_of w) = ConnDisconnected" "store_inv (w_st w)" "cw_cur (ac_store w) = default_config"
    using assms(1,2) by (auto simp: started_def demo_fresh_def)
  obtain ch where ch: "ag_proxy w = ProxyWaits ch" "bufs (w_st w) ch \<noteq> []" "ch \<in> set (subs (w_st w))"
    using assms(1,2) by (auto simp: started_def demo_fresh_def)
  have "k_active (s_killswitch (snap_of v))"
    using wpD [OF agent.pass_active [OF demo_rules [OF w(1,2)]] run] .
  moreover have "conn_of (snap_of v) = ConnDisconnected \<and> s_desired (snap_of v) = DesiredDisconnected"
    using wpD [OF agent.reconcile_wp run] w(3,4)
    by (auto simp: Let_def stopped_def layers_up_def conn_outcome_def conn_kept_def passed_def idle_def)
  moreover obtain fs where "w_st v = fold update fs (w_st w)"
    using pubs.agent_in [of demo_container n T marshal pick] run by (auto simp: pub.within_def updated_def dest: spec [of _ w])
  with offered [OF w(5) ch(3,2)] have "bufs (w_st v) ch \<noteq> []" by simp
  ultimately show ?thesis using pass_around [OF run] w(6) ch(1) by auto
qed

lemma demo_gate:
  assumes "agent_ok E w" and "k_active (s_killswitch (snap_of w))" and "ag_proxy w = ProxyWaits ch" and "bufs (w_st w) ch \<noteq> []"
  obtains v udp where "run_state (proxy_gate E P demo_sockets) w = ((), v)" and "ag_proxy v = ProxyRuns udp" and "ac_store v = ac_store w"
    and "conn_of (snap_of v) = conn_of (snap_of w)" and "s_desired (snap_of v) = s_desired (snap_of w)"
proof -
  obtain x s where x: "receive ch (w_st w) = (x, s)" by fastforce
  have "watching ch w" using assms(1,3) by (simp add: agent_ok_def watching_def)
  then have "(x = None \<or> x = Some (snap_of w)) \<and> store_get s = snap_of w"
    using receive_current [of ch w] by (simp add: x)
  moreover have "x \<noteq> None" using x assms(4) unfolding receive_def by (cases "bufs (w_st w) ch") auto
  ultimately have s: "x = Some (snap_of w)" "store_get s = snap_of w" by blast+
  let ?u = "w\<lparr>w_st := cancel ch s\<rparr>"
  obtain es st ph where run: "run_state (srv_run E demo_sockets (socks_addr P)) ?u =
      ((), ?u\<lparr>trace := trace ?u @ es, w_st := st, ag_proxy := ph\<rparr>)"
    and st: "st = cancel ch s \<or> st = update (show_listening (socks_addr P)) (cancel ch s)"
    and ph: "\<forall>port. so_listen demo_sockets (trace ?u) (socks_addr P) = Inr port \<longrightarrow> (\<exists>udp. ph = ProxyRuns udp)"
    using srv_run_run [of E demo_sockets "socks_addr P" ?u] by (elim exE conjE) (rule that, assumption, simp, assumption)
  obtain udp where ph: "ph = ProxyRuns udp" using ph by (auto simp: demo_sockets_def)
  let ?v = "?u\<lparr>trace := trace ?u @ es, w_st := st, ag_proxy := ProxyRuns udp\<rparr>"
  have "run_state (proxy_gate E P demo_sockets) w = ((), ?v)"
    using run x s(1) assms(2,3) by (simp add: proxy_gate_def st_receive_def st_cancel_def ph)
  moreover have "ac_store ?v = ac_store w" by (cases w) simp
  moreover have "store_get st = snap_of w \<or> store_get st = show_listening (socks_addr P) (snap_of w)"
    using st s(2) by (auto simp: store_get_def cancel_def)
  moreover have "snap_of ?v = store_get st" "ag_proxy ?v = ProxyRuns udp" by simp_all
  ultimately show thesis by (intro that [of ?v udp]) (simp_all, auto simp: show_listening_def)
qed

lemma demo_notice:
  fixes w :: "'z agent_world_scheme"
  assumes "conn_of (snap_of w) = ConnDisconnected" and "run_state (superviseOnce demo_container wake) w = ((), v)"
  shows "conn_of (snap_of v) = ConnConnected \<and> ag_proxy v = ag_proxy w \<and> ac_store v = ac_store w"
proof -
  have "around.within wake" unfolding wake_def by (intro around.in_intros) simp
  from around.supervise_in [OF this, of demo_container] assms(2) have "same_around w v"
    by (auto simp: around.within_def dest: spec [of _ w])
  then have "ag_proxy v = ag_proxy w \<and> ac_store v = ac_store w" by (cases v; cases w) (simp add: same_around_def)
  moreover have "trim_space ''Connected'' = ''Connected''" by code_simp
  then have "run_state (cli_ConnectionState demo_container) w =
      (Inr ConnConnected, w\<lparr>trace := trace w @ [Exec ctlPath [''-t'', int_str (ctlTimeout div 1000000000), ''get'', ''connectionstate'']]\<rparr>)"
    by (simp add: cli_ConnectionState_def cli_RawConnectionState_def cli_run_def run_attempt demo_container_def classifyError_def
        ParseConnectionState_def)
  then have "conn_of (snap_of v) = ConnConnected"
    using assms by (auto simp: superviseOnce_def st_update_def store_get_def)
  ultimately show ?thesis by simp
qed

lemma demo_serves:
  assumes "ag_proxy w = ProxyRuns udp" and "conn_of (snap_of w) = ConnConnected" and "cw_cur (ac_store w) = default_config"
  shows "trace (snd (run_state (serve_client demo_container P demo_client) w)) \<noteq> trace w"
proof -
  let ?c = "client_world demo_client w" and ?S = "proxy_options P demo_client udp w"
  have "sw_writes ?c = 9" by (simp add: client_world_def srv_world.defs socks_world.defs demo_client_def)
  moreover have "sc_auth ?S = None" "sc_gate ?S" "sc_sends ?S = []" using assms by (simp_all add: proxy_options_def default_config_def demo_client_def)
  ultimately have "trace (snd (run_state (handle demo_container ?S) ?c)) \<noteq> trace ?c"
    by (simp add: handle_def demo_client_def plain_addr_def request_bytes_def put_be16_def readHandshake_def hello_def run_attempt
        readRequest_def readAddr_def socks_consts handleConnect_def srv_resolve_def demo_container_def ok_env_def
        writeReply_def copy_in_def copy_out_def)
  then show ?thesis using assms(1) by (simp add: serve_run Let_def)
qed

section \<open>Properties\<close>







end
